(* ===== verification/Prelude.thy ===== *)
theory Prelude
  imports Main "HOL-Library.Word" "HOL-Library.Monad_Syntax" "HOL-Library.Code_Target_Numeral"
begin

text \<open>
  What every component shares: the type abbreviations of the C types, the result of a function
  that may fail, and generic lemmas on lists and on splitting a byte list into consecutive chunks (the shape of every on-disk structure of the engine).
\<close>

type_synonym u32 = "32 word"
type_synonym u64 = "64 word"

text \<open>C's \<open>char\<close> is a byte, and Isabelle's \<open>char\<close> is one too, so byte buffers and C
  strings have the same type.\<close>

type_synonym bytes = "char list"

abbreviation NUL :: char where "NUL \<equiv> CHR 0x00"

section \<open>Results\<close>

text \<open>What a function returns besides its out parameters: \<open>ERROR\<close>, or \<open>OK\<close> with what it stored
  in them.\<close>

datatype 'a rc = ERROR | OK 'a

text \<open>A sequence of calls that propagates \<open>ERROR\<close> returned \<open>OK\<close>: every step did.\<close>

lemma rc_case_OK [simp]:
  "(case r of ERROR \<Rightarrow> (ERROR, m) | OK x \<Rightarrow> f x) = (OK y, m') \<longleftrightarrow> (\<exists>x. r = OK x \<and> f x = (OK y, m'))"
  "(case r of ERROR \<Rightarrow> Some (ERROR, m) | OK x \<Rightarrow> g x) = Some (OK y, m') \<longleftrightarrow>
     (\<exists>x. r = OK x \<and> g x = Some (OK y, m'))"
  by (cases r; simp)+

lemma rc_not_ERROR: "r \<noteq> ERROR \<longleftrightarrow> (\<exists>x. r = OK x)"
  by (cases r) auto

section \<open>Chunks\<close>

fun chunks :: "nat list \<Rightarrow> 'a list \<Rightarrow> 'a list list" where
  "chunks [] xs = []"
| "chunks (n # ns) xs = take n xs # chunks ns (drop n xs)"

lemma chunks_concat: "map length xss = ns \<Longrightarrow> chunks ns (concat xss @ ys) = xss"
  by (induction xss arbitrary: ns) auto

lemma length_chunks [simp]: "length (chunks ns xs) = length ns"
  by (induction ns arbitrary: xs) auto

lemma concat_chunks: "concat (chunks ns xs) = take (sum_list ns) xs"
  by (induction ns arbitrary: xs) (auto simp: take_add)

section \<open>Lists\<close>

lemma list_all_appendI [intro]: "list_all P xs \<Longrightarrow> list_all P ys \<Longrightarrow> list_all P (xs @ ys)"
  by simp

lemma takeWhile_neq_id: "x \<notin> set xs \<Longrightarrow> takeWhile (\<lambda>c. c \<noteq> x) xs = xs"
  by (induction xs) auto

lemma takeWhile_neq_append: "x \<notin> set xs \<Longrightarrow> takeWhile (\<lambda>c. c \<noteq> x) (xs @ x # ys) = xs"
  by (induction xs) auto

lemma takeWhile_all_stop:
  "list_all P xs \<Longrightarrow> \<not> P y \<Longrightarrow> takeWhile P (xs @ y # ys) = xs"
  by (induction xs) auto

lemma dropWhile_all_stop:
  "list_all P xs \<Longrightarrow> \<not> P y \<Longrightarrow> dropWhile P (xs @ y # ys) = y # ys"
  by (induction xs) auto

lemma sum_list_replicate_nat: "sum_list (replicate n (k::nat)) = n * k"
  by (induction n) auto

section \<open>Words\<close>

lemma unat_u64_bound: "unat (x :: u64) < 2 ^ 64"
  using unsigned_less[of x, where ?'a = nat] by simp

lemma unat_u32_bound: "unat (x :: u32) < 2 ^ 32"
  using unsigned_less[of x, where ?'a = nat] by simp

lemma unat_of_nat_u64: "n < 2 ^ 64 \<Longrightarrow> unat (word_of_nat n :: u64) = n"
  by (simp add: unat_of_nat take_bit_nat_eq_self)

lemma unat_of_nat_u32: "n < 2 ^ 32 \<Longrightarrow> unat (word_of_nat n :: u32) = n"
  by (simp add: unat_of_nat take_bit_nat_eq_self)

lemma unat_ucast_u32: "unat (ucast (x :: u32) :: u64) = unat x"
  by (simp add: unsigned_ucast_eq take_bit_nat_eq_self order.strict_trans[OF unat_u32_bound])

end
