(* ===== verification/CLib.thy ===== *)
theory CLib
  imports Prelude
begin

text \<open>
  The parts of the C standard library the engine computes with: character classes, the number
  conversions behind \<open>sscanf\<close>, \<open>atoi\<close> and \<open>strtol\<close>, a \<open>sscanf\<close> interpreter over the directives
  the engine uses, \<open>fgets\<close> as a splitter of a stream into lines, and decimal output.
  A C string is what precedes the first NUL.
\<close>

section \<open>Strings and characters\<close>

definition c_str :: "bytes \<Rightarrow> string" where
  "c_str s = takeWhile (\<lambda>c. c \<noteq> NUL) s"

text \<open>\<open>s[i]\<close> of a NUL terminated string, the terminator included.\<close>

definition char_at :: "string \<Rightarrow> nat \<Rightarrow> char" where
  "char_at s i = (if i < length s then s ! i else NUL)"

text \<open>\<open>strncmp (s, p, strlen (p)) == 0\<close>\<close>

definition starts_with :: "string \<Rightarrow> string \<Rightarrow> bool" where
  "starts_with s p \<longleftrightarrow> take (length p) s = p"

text \<open>\<open>strncmp (a, b, n) == 0\<close>\<close>

definition strncmp_eq :: "string \<Rightarrow> string \<Rightarrow> nat \<Rightarrow> bool" where
  "strncmp_eq a b n \<longleftrightarrow> take n a = take n b"

definition isspace :: "char \<Rightarrow> bool" where
  "isspace c \<longleftrightarrow> c = CHR '' '' \<or> (9 \<le> (of_char c :: nat) \<and> (of_char c :: nat) \<le> 13)"

definition isdigit :: "char \<Rightarrow> bool" where
  "isdigit c \<longleftrightarrow> 48 \<le> (of_char c :: nat) \<and> (of_char c :: nat) \<le> 57"

definition digit_val :: "char \<Rightarrow> nat" where
  "digit_val c = (let n = of_char c :: nat in
     if 48 \<le> n \<and> n \<le> 57 then n - 48
     else if 97 \<le> n \<and> n \<le> 102 then n - 87
     else if 65 \<le> n \<and> n \<le> 70 then n - 55
     else 99)"

definition base_digit :: "nat \<Rightarrow> char \<Rightarrow> bool" where
  "base_digit b c \<longleftrightarrow> digit_val c < b"

definition digits_value :: "nat \<Rightarrow> string \<Rightarrow> nat" where
  "digits_value b ds = foldl (\<lambda>a c. a * b + digit_val c) 0 ds"

section \<open>Number conversions\<close>

fun strip_sign :: "string \<Rightarrow> bool \<times> string" where
  "strip_sign (c # cs) =
     (if c = CHR ''-'' then (True, cs) else if c = CHR ''+'' then (False, cs) else (False, c # cs))"
| "strip_sign [] = (False, [])"

fun strip_0x :: "nat \<Rightarrow> string \<Rightarrow> string" where
  "strip_0x b (c # x # cs) =
     (if b = 16 \<and> c = CHR ''0'' \<and> (x = CHR ''x'' \<or> x = CHR ''X'') then cs else c # x # cs)"
| "strip_0x b s = s"

text \<open>Sign, magnitude and what follows; \<open>None\<close> is a matching failure.\<close>

definition scan_magnitude :: "nat \<Rightarrow> string \<Rightarrow> (bool \<times> nat \<times> string) option" where
  "scan_magnitude b s =
     (let (neg, t) = strip_sign (dropWhile isspace s);
          u = strip_0x b t;
          ds = takeWhile (base_digit b) u
      in if ds = [] then None else Some (neg, digits_value b ds, dropWhile (base_digit b) u))"

text \<open>\<open>strtoul\<close>: saturates at \<open>ULONG_MAX\<close>, a minus sign negates modulo \<open>2 ^ 64\<close>.\<close>

definition scan_ulong :: "nat \<Rightarrow> string \<Rightarrow> (u64 \<times> string) option" where
  "scan_ulong b s = (case scan_magnitude b s of None \<Rightarrow> None
     | Some (neg, v, r) \<Rightarrow>
         Some (if 2 ^ 64 \<le> v then - 1 else if neg then - word_of_nat v else word_of_nat v, r))"

text \<open>\<open>strtol\<close>: saturates at \<open>LONG_MIN\<close> and \<open>LONG_MAX\<close>.\<close>

definition scan_long :: "string \<Rightarrow> (int \<times> string) option" where
  "scan_long s = (case scan_magnitude 10 s of None \<Rightarrow> None
     | Some (neg, v, r) \<Rightarrow>
         Some (max (- (2 ^ 63)) (min (2 ^ 63 - 1) (if neg then - int v else int v)), r))"

text \<open>Conversion of a \<open>long\<close> to \<open>int\<close>: the low 32 bits, read as signed.\<close>

definition int_of_long :: "int \<Rightarrow> int" where
  "int_of_long v = sint (word_of_int v :: u32)"

definition atoi :: "string \<Rightarrow> int" where
  "atoi s = (case scan_long s of None \<Rightarrow> 0 | Some (v, _) \<Rightarrow> int_of_long v)"

section \<open>sscanf\<close>

datatype directive =
    FSpace            \<comment> \<open>white space in the format\<close>
  | FLit char         \<comment> \<open>any other ordinary character\<close>
  | FHexLong          \<comment> \<open>\<open>%lx\<close>\<close>
  | FDecLong          \<comment> \<open>\<open>%lu\<close>\<close>
  | FDecUint          \<comment> \<open>\<open>%u\<close>\<close>
  | FOctUint          \<comment> \<open>\<open>%o\<close>\<close>
  | FDecInt           \<comment> \<open>\<open>%d\<close>\<close>
  | FWord nat         \<comment> \<open>\<open>%<n>s\<close>\<close>
  | FSkipWord         \<comment> \<open>\<open>%*s\<close>\<close>
  | FLine nat         \<comment> \<open>\<open>%<n>[^\n]\<close>\<close>
  | FChar             \<comment> \<open>\<open>%c\<close>\<close>

datatype scanned = SUlong u64 | SUint u32 | SInt int | SStr string | SChar char

definition scan_word :: "string \<Rightarrow> (string \<times> string) option" where
  "scan_word s =
     (let t = dropWhile isspace s; w = takeWhile (\<lambda>c. \<not> isspace c) t
      in if w = [] then None else Some (w, dropWhile (\<lambda>c. \<not> isspace c) t))"

text \<open>One directive: the value it assigns, if any, and the input left; \<open>None\<close> ends the scan.\<close>

fun scan_item :: "directive \<Rightarrow> string \<Rightarrow> (scanned option \<times> string) option" where
  "scan_item FSpace s = Some (None, dropWhile isspace s)"
| "scan_item (FLit c) s =
     (case s of [] \<Rightarrow> None | x # xs \<Rightarrow> if x = c then Some (None, xs) else None)"
| "scan_item FHexLong s = map_option (\<lambda>(v, r). (Some (SUlong v), r)) (scan_ulong 16 s)"
| "scan_item FDecLong s = map_option (\<lambda>(v, r). (Some (SUlong v), r)) (scan_ulong 10 s)"
| "scan_item FDecUint s = map_option (\<lambda>(v, r). (Some (SUint (ucast v)), r)) (scan_ulong 10 s)"
| "scan_item FOctUint s = map_option (\<lambda>(v, r). (Some (SUint (ucast v)), r)) (scan_ulong 8 s)"
| "scan_item FDecInt s = map_option (\<lambda>(v, r). (Some (SInt (int_of_long v)), r)) (scan_long s)"
| "scan_item (FWord n) s =
     (case scan_word s of None \<Rightarrow> None
      | Some (w, r) \<Rightarrow> Some (Some (SStr (take n w)), drop n w @ r))"
| "scan_item FSkipWord s = map_option (\<lambda>(w, r). (None, r)) (scan_word s)"
| "scan_item (FLine n) s =
     (let w = takeWhile (\<lambda>c. c \<noteq> CHR 0x0A) s
      in if w = [] then None else Some (Some (SStr (take n w)), drop (length (take n w)) s))"
| "scan_item FChar s = (case s of [] \<Rightarrow> None | x # xs \<Rightarrow> Some (Some (SChar x), xs))"

fun scan_items :: "directive list \<Rightarrow> string \<Rightarrow> scanned list" where
  "scan_items [] s = []"
| "scan_items (d # ds) s =
     (case scan_item d s of None \<Rightarrow> []
      | Some (None, r) \<Rightarrow> scan_items ds r
      | Some (Some v, r) \<Rightarrow> v # scan_items ds r)"

text \<open>The values assigned; the return value of \<open>sscanf\<close> is their number.\<close>

definition sscanf :: "directive list \<Rightarrow> bytes \<Rightarrow> scanned list" where
  "sscanf fmt s = scan_items fmt (c_str s)"

text \<open>The ordinary characters of a format.\<close>

definition fmt_text :: "string \<Rightarrow> directive list" where
  "fmt_text s = map (\<lambda>c. if isspace c then FSpace else FLit c) s"

section \<open>fgets\<close>

text \<open>One call with room for \<open>n\<close> characters besides the terminator: up to and with the next
  newline, and what is left of the stream.\<close>

definition fgets :: "nat \<Rightarrow> bytes \<Rightarrow> bytes \<times> bytes" where
  "fgets n s = (let l = min n (Suc (length (takeWhile (\<lambda>c. c \<noteq> CHR 0x0A) s)))
                in (take l s, drop l s))"

lemma fgets_append: "fgets n s = (l, r) \<Longrightarrow> l @ r = s"
  by (auto simp: fgets_def Let_def)

lemma fgets_progress: "fgets (Suc n) (c # cs) = (l, r) \<Longrightarrow> length r < length (c # cs)"
  by (auto simp: fgets_def Let_def)

text \<open>The lines that a loop \<open>while (fgets (line, Suc (Suc n), stream))\<close> sees.\<close>

function fgets_lines :: "nat \<Rightarrow> bytes \<Rightarrow> bytes list" where
  "fgets_lines n [] = []"
| "fgets_lines n (c # cs) = (case fgets (Suc n) (c # cs) of (l, r) \<Rightarrow> l # fgets_lines n r)"
  by pat_completeness auto
termination
  by (relation "measure (length \<circ> snd)") (auto dest!: fgets_progress[OF sym])

lemma concat_fgets_lines: "concat (fgets_lines n s) = s"
  by (induction n s rule: fgets_lines.induct) (auto split: prod.split dest: fgets_append)

text \<open>The same for a buffer of a given bufsize, two or more bytes.\<close>

definition stream_lines :: "nat \<Rightarrow> bytes \<Rightarrow> bytes list" where
  "stream_lines bufsize s = fgets_lines (bufsize - 2) s"

lemma fgets_line:
  "CHR 0x0A \<notin> set l \<Longrightarrow> length l < n \<Longrightarrow> fgets n (l @ CHR 0x0A # r) = (l @ [CHR 0x0A], r)"
  by (simp add: fgets_def Let_def takeWhile_neq_append min_absorb2)

lemma stream_lines_Cons:
  assumes "CHR 0x0A \<notin> set l" "length l + 1 < bufsize"
  shows "stream_lines bufsize (l @ CHR 0x0A # r) = (l @ [CHR 0x0A]) # stream_lines bufsize r"
proof -
  have "fgets (Suc (bufsize - 2)) (l @ CHR 0x0A # r) = (l @ [CHR 0x0A], r)"
    using assms by (intro fgets_line) auto
  then show ?thesis
    by (cases l) (simp_all add: stream_lines_def)
qed

lemma stream_lines_Nil [simp]: "stream_lines bufsize [] = []"
  by (simp add: stream_lines_def)

section \<open>Decimal and hexadecimal output\<close>

definition digit_char :: "nat \<Rightarrow> char" where
  "digit_char d = char_of (if d < 10 then 48 + d else 87 + d)"

fun dec_nat :: "nat \<Rightarrow> string" where
  "dec_nat n = (if n < 10 then [digit_char n] else dec_nat (n div 10) @ [digit_char (n mod 10)])"

declare dec_nat.simps [simp del]

definition dec_int :: "int \<Rightarrow> string" where
  "dec_int i = (if i < 0 then CHR ''-'' # dec_nat (nat (- i)) else dec_nat (nat i))"

text \<open>\<open>%04x\<close> of a value below 65536.\<close>

definition hex4 :: "nat \<Rightarrow> string" where
  "hex4 n = map (\<lambda>i. digit_char (n div 16 ^ i mod 16)) [3, 2, 1, 0]"

section \<open>Facts about scanning\<close>

lemma c_str_id: "NUL \<notin> set s \<Longrightarrow> c_str s = s"
  by (simp add: c_str_def takeWhile_neq_id)

lemma NUL_notin_c_str [simp]: "NUL \<notin> set (c_str s)"
  by (auto simp: c_str_def dest: set_takeWhileD)

lemma sscanf_mismatch: "x \<noteq> c \<Longrightarrow> sscanf (FLit c # ds) (x # xs) = []"
  by (cases "x = NUL") (simp_all add: sscanf_def c_str_def)

lemma digit_val_digit: "isdigit c \<Longrightarrow> digit_val c < 10"
  by (auto simp: digit_val_def isdigit_def Let_def)

lemma base_digit_not_space: "base_digit b c \<Longrightarrow> b \<le> 16 \<Longrightarrow> \<not> isspace c"
  by (auto simp: base_digit_def digit_val_def isspace_def Let_def split: if_splits)

lemma base_digit_not_sign: "base_digit b c \<Longrightarrow> b \<le> 16 \<Longrightarrow> c \<noteq> CHR ''-'' \<and> c \<noteq> CHR ''+''"
  by (auto simp: base_digit_def digit_val_def split: if_splits)

lemma base_digit_not_x: "base_digit b c \<Longrightarrow> b \<le> 16 \<Longrightarrow> c \<noteq> CHR ''x'' \<and> c \<noteq> CHR ''X''"
  by (auto simp: base_digit_def digit_val_def split: if_splits)

lemma base_digit_10: "base_digit 10 c \<longleftrightarrow> isdigit c"
  by (auto simp: base_digit_def digit_val_def isdigit_def Let_def)

lemma digits_value_append:
  "digits_value b (xs @ ys) = digits_value b xs * b ^ length ys + digits_value b ys"
proof (induction ys rule: rev_induct)
  case Nil
  then show ?case by (simp add: digits_value_def)
next
  case (snoc y ys)
  then show ?case by (simp add: digits_value_def algebra_simps)
qed

lemma digits_value_bound:
  "list_all (base_digit b) ds \<Longrightarrow> digits_value b ds < b ^ length ds"
proof (induction ds rule: rev_induct)
  case Nil
  then show ?case by (simp add: digits_value_def)
next
  case (snoc d ds)
  then have le: "Suc (digits_value b ds) \<le> b ^ length ds" and d: "digit_val d < b"
    by (auto simp: base_digit_def)
  have "digits_value b (ds @ [d]) = digits_value b ds * b + digit_val d"
    by (simp add: digits_value_def)
  also have "\<dots> < Suc (digits_value b ds) * b"
    using d by simp
  also have "\<dots> \<le> b ^ length ds * b"
    using le by (rule mult_le_mono1)
  finally show ?case by (simp add: mult.commute)
qed

text \<open>A run of digits followed by something that is neither a digit nor an \<open>x\<close>.\<close>

lemma scan_magnitude_digits:
  assumes b: "b \<le> 16" and ds: "list_all (base_digit b) ds" "ds \<noteq> []"
    and y: "\<not> base_digit b y" "y \<noteq> CHR ''x''" "y \<noteq> CHR ''X''"
  shows "scan_magnitude b (ds @ y # r) = Some (False, digits_value b ds, y # r)"
proof -
  obtain d ds' where d: "ds = d # ds'" "base_digit b d"
    using ds by (cases ds) auto
  have sign: "strip_sign (dropWhile isspace (ds @ y # r)) = (False, ds @ y # r)"
    using d b by (auto dest: base_digit_not_space base_digit_not_sign)
  have "strip_0x b (ds @ y # r) = ds @ y # r"
    using d b ds y by (cases ds') (auto dest: base_digit_not_x)
  with sign show ?thesis
    using ds y by (simp add: scan_magnitude_def takeWhile_all_stop dropWhile_all_stop)
qed

lemma scan_ulong_digits:
  assumes "b \<le> 16" and "list_all (base_digit b) ds" "ds \<noteq> []"
    and "\<not> base_digit b y" "y \<noteq> CHR ''x''" "y \<noteq> CHR ''X''"
    and "digits_value b ds < 2 ^ 64"
  shows "scan_ulong b (ds @ y # r) = Some (word_of_nat (digits_value b ds), y # r)"
  using scan_magnitude_digits[OF assms(1-6)] assms(7) by (simp add: scan_ulong_def)

lemma scan_word_token:
  assumes "w \<noteq> []" "list_all (\<lambda>c. \<not> isspace c) w" "isspace y"
  shows "scan_word (w @ y # r) = Some (w, y # r)"
proof -
  have "dropWhile isspace (w @ y # r) = w @ y # r"
    using assms by (cases w) auto
  then show ?thesis
    using assms by (simp add: scan_word_def takeWhile_all_stop dropWhile_all_stop)
qed

lemma scan_word_skip: "isspace c \<Longrightarrow> scan_word (c # s) = scan_word s"
  by (simp add: scan_word_def)

lemma scan_word_trim: "scan_word (dropWhile isspace s) = scan_word s"
  by (induction s) (auto simp: scan_word_def)

lemma scan_word_blank: "list_all isspace s \<Longrightarrow> scan_word s = None"
  by (induction s) (auto simp: scan_word_def)

lemma scan_word_skips: "list_all isspace s \<Longrightarrow> scan_word (s @ t) = scan_word t"
  by (induction s) (auto simp: scan_word_skip)

lemma atoi_digits:
  assumes "list_all isdigit ds" "ds \<noteq> []" "length ds \<le> 9"
  shows "atoi ds = int (digits_value 10 ds)"
proof -
  obtain d ds' where d: "ds = d # ds'" "base_digit 10 d" and all: "list_all (base_digit 10) ds"
    using assms by (cases ds) (auto simp: base_digit_10[abs_def])
  have "strip_sign (dropWhile isspace ds) = (False, ds)"
    using d by (auto dest: base_digit_not_space base_digit_not_sign)
  moreover have "strip_0x 10 ds = ds"
    by (cases "(10 :: nat, ds)" rule: strip_0x.cases) auto
  moreover have "takeWhile (base_digit 10) ds = ds"
    using all by (simp only: list_all_iff takeWhile_eq_all_conv)
  ultimately have mag: "scan_magnitude 10 ds
      = Some (False, digits_value 10 ds, dropWhile (base_digit 10) ds)"
    using assms(2) by (simp only: scan_magnitude_def Let_def prod.case if_False)
  have "digits_value 10 ds < 10 ^ length ds"
    using all by (rule digits_value_bound)
  also have "(10::nat) ^ length ds \<le> 10 ^ 9"
    using assms(3) by (intro power_increasing) auto
  finally have "int (digits_value 10 ds) < 2 ^ 31" by simp
  then have "int_of_long (int (digits_value 10 ds)) = int (digits_value 10 ds)"
    unfolding int_of_long_def by (subst signed_of_int, subst signed_take_bit_int_eq_self) auto
  moreover have "min (2 ^ 63 - 1) (int (digits_value 10 ds)) = int (digits_value 10 ds)"
    using \<open>int (digits_value 10 ds) < 2 ^ 31\<close> by simp
  ultimately show ?thesis
    by (simp add: atoi_def scan_long_def mag)
qed

text \<open>What a scan stores is made of the characters it read.\<close>

lemma strip_sign_set: "strip_sign u = (neg, t) \<Longrightarrow> set t \<subseteq> set u"
  by (cases u) (auto split: if_splits)

lemma scan_magnitude_rest: "scan_magnitude b s = Some (neg, v, r) \<Longrightarrow> set r \<subseteq> set s"
proof -
  assume "scan_magnitude b s = Some (neg, v, r)"
  then obtain t where sign: "strip_sign (dropWhile isspace s) = (neg, t)"
    and r: "r = dropWhile (base_digit b) (strip_0x b t)"
    by (auto simp: scan_magnitude_def Let_def split: prod.splits if_splits)
  have "set r \<subseteq> set (strip_0x b t)"
    using r by (auto dest: set_dropWhileD)
  also have "\<dots> \<subseteq> set t"
    by (cases "(b, t)" rule: strip_0x.cases) auto
  also have "\<dots> \<subseteq> set (dropWhile isspace s)"
    using sign by (rule strip_sign_set)
  also have "\<dots> \<subseteq> set s"
    by (auto dest: set_dropWhileD)
  finally show ?thesis .
qed

lemma scan_word_rest: "scan_word s = Some (w, r) \<Longrightarrow> set w \<subseteq> set s \<and> set r \<subseteq> set s"
  by (auto simp: scan_word_def Let_def split: if_splits dest!: set_takeWhileD dest: set_dropWhileD)

lemma scan_item_set:
  assumes "scan_item d s = Some (v, r)"
  shows "set r \<subseteq> set s" "v = Some (SStr w) \<Longrightarrow> set w \<subseteq> set s"
  using assms
  by (cases d; auto simp: scan_ulong_def scan_long_def Let_def split: option.splits list.splits if_splits
      dest: scan_magnitude_rest scan_word_rest in_set_takeD in_set_dropD set_takeWhileD set_dropWhileD;
      fastforce dest: scan_magnitude_rest scan_word_rest in_set_takeD in_set_dropD)+

lemma scan_items_set: "SStr w \<in> set (scan_items ds s) \<Longrightarrow> set w \<subseteq> set s"
proof (induction ds arbitrary: s)
  case (Cons d ds)
  then obtain v r where item: "scan_item d s = Some (v, r)"
    by (cases "scan_item d s") auto
  then have "set r \<subseteq> set s" by (rule scan_item_set)
  moreover have "v = Some (SStr w) \<or> SStr w \<in> set (scan_items ds r)"
    using Cons.prems item by (auto split: option.splits)
  ultimately show ?case
    using Cons.IH[of r] scan_item_set(2)[OF item] by auto
qed simp

lemma sscanf_no_NUL: "SStr w \<in> set (sscanf fmt s) \<Longrightarrow> NUL \<notin> set w"
  using scan_items_set[of w fmt "c_str s"] by (auto simp: sscanf_def)

section \<open>Strings inside a buffer\<close>

text \<open>The string \<open>s\<close> with its terminator, from byte \<open>off\<close> of the buffer on, inside the buffer.\<close>

definition string_at :: "bytes \<Rightarrow> nat \<Rightarrow> string \<Rightarrow> bool" where
  "string_at b off s \<longleftrightarrow> NUL \<notin> set s \<and> (\<exists>pre post. b = pre @ s @ NUL # post \<and> length pre = off)"

lemma string_at_iff:
  "string_at b off s \<longleftrightarrow> NUL \<notin> set s \<and> off + length s < length b \<and>
     take (length s) (drop off b) = s \<and> b ! (off + length s) = NUL"
proof
  assume "string_at b off s"
  then show "NUL \<notin> set s \<and> off + length s < length b \<and> take (length s) (drop off b) = s \<and>
      b ! (off + length s) = NUL"
    by (auto simp: string_at_def nth_append)
next
  assume r: "NUL \<notin> set s \<and> off + length s < length b \<and> take (length s) (drop off b) = s \<and>
      b ! (off + length s) = NUL"
  have "b = take off b @ take (length s) (drop off b) @ drop (off + length s) b"
    by (metis append_take_drop_id drop_drop add.commute)
  moreover have "drop (off + length s) b = NUL # drop (Suc (off + length s)) b"
    using r by (metis Cons_nth_drop_Suc)
  ultimately have "b = take off b @ s @ NUL # drop (Suc (off + length s)) b" using r by metis
  moreover have "length (take off b) = off" using r by simp
  ultimately show "string_at b off s" unfolding string_at_def using r by blast
qed

lemma string_at_c_str: "string_at b off s \<Longrightarrow> c_str (drop off b) = s"
  by (auto simp: string_at_def c_str_def takeWhile_neq_append)

lemma string_at_prefix: "string_at b off s \<Longrightarrow> string_at (b @ b') off s"
  by (fastforce simp: string_at_def)

end
