(* ===== verification/Config.thy ===== *)
theory Config
  imports CLib
begin

text \<open>
  \<open>include/config.h\<close>: the configuration of one run and the path of its snapshot.
  \<open>char *\<close> fields that may be \<open>NULL\<close> are options.
\<close>

definition PATH_MAX :: nat where "PATH_MAX = 4096"
definition NAME_MAX :: nat where "NAME_MAX = 255"
definition MIN_LEN_PATH :: nat where "MIN_LEN_PATH = 0"

definition KSNAP_DEFAULT_SNAPSHOT_DIR :: string where
  "KSNAP_DEFAULT_SNAPSHOT_DIR = ''../save''"
definition KSNAP_DEFAULT_SNAPSHOT_NAME :: string where
  "KSNAP_DEFAULT_SNAPSHOT_NAME = ''snapshot.ksnap''"

record ksnap_config =
  cfg_mode :: "string option"
  cfg_pid :: int
  cfg_file_name :: "string option"
  cfg_output_dir :: "string option"
  cfg_kill_after_dump :: bool

text \<open>\<open>snprintf\<close> reports the length it would have needed, and a
  path that does not fit with its terminator is refused.\<close>

definition build_snapshot_path :: "ksnap_config \<Rightarrow> string rc" where
  "build_snapshot_path config =
     (let dir = (case cfg_output_dir config of Some d \<Rightarrow> d | None \<Rightarrow> KSNAP_DEFAULT_SNAPSHOT_DIR);
          name = (case cfg_file_name config of Some n \<Rightarrow> n | None \<Rightarrow> KSNAP_DEFAULT_SNAPSHOT_NAME);
          out = dir @ ''/'' @ name
      in if length out \<ge> PATH_MAX then ERROR else OK out)"

lemma build_snapshot_path_bound: "build_snapshot_path config = OK p \<Longrightarrow> length p < PATH_MAX"
  by (auto simp: build_snapshot_path_def Let_def split: if_splits)

end
