(* ===== verification/ArgParser.thy ===== *)
theory ArgParser
  imports Config
begin

text \<open>
  \<open>include/parser.h\<close>: the command line. \<open>getopt\<close> is modelled as the sequence of options it
  reports for the option string of the engine; \<open>parse_arg\<close> is the loop over them.
\<close>

section \<open>Statuses and modes\<close>

datatype ksnap_status =
    KSNAP_OK
  | KSNAP_ERR_INVALID_PID
  | KSNAP_ERR_INVALID_MODE
  | KSNAP_ERR_NO_MODE_SPECIFIED
  | KSNAP_ERR_NO_PID_SPECIFIED
  | KSNAP_ERR_INVALID_NAME
  | KSNAP_ERR_MISSING_ARGS
  | KSNAP_ERR_TOO_MUCH_ARGS
  | KSNAP_ERR_INVALID_ARGS
  | KSNAP_ERR_KILL_WITHOUT_DUMP

datatype modes = DUMP | RESTORE | CHECK

fun mode_to_string :: "modes \<Rightarrow> string" where
  "mode_to_string DUMP = ''DUMP''"
| "mode_to_string RESTORE = ''RESTORE''"
| "mode_to_string CHECK = ''CHECK''"

section \<open>getopt\<close>

text \<open>
  One report of \<open>getopt\<close>: an option with its argument, or \<open>?\<close> for an option that is unknown or
  lacks its argument.
\<close>

datatype opt_report = Opt char "string option" | OptError

definition takes_arg :: "char \<Rightarrow> bool" where
  "takes_arg c \<longleftrightarrow> c \<in> set ''mpnd''"

definition known_flag :: "char \<Rightarrow> bool" where
  "known_flag c \<longleftrightarrow> c \<in> set ''kh''"

text \<open>
  The characters of one word after its dash, then the words after it. An option that takes an
  argument uses the rest of its own word, or the whole next word whatever it holds. GNU
  \<open>getopt\<close> skips words that are no options (it permutes them to the end) unless
  \<open>POSIXLY_CORRECT\<close> is set, when the first one ends the options; \<open>--\<close> always ends them.
\<close>

function getopt_cluster :: "bool \<Rightarrow> string \<Rightarrow> string list \<Rightarrow> opt_report list"
  and getopt_words :: "bool \<Rightarrow> string list \<Rightarrow> opt_report list" where
  "getopt_cluster posix [] args = getopt_words posix args"
| "getopt_cluster posix (c # cs) args =
     (if takes_arg c then
        (if cs \<noteq> [] then Opt c (Some cs) # getopt_words posix args
         else (case args of [] \<Rightarrow> [OptError]
               | a # args' \<Rightarrow> Opt c (Some a) # getopt_words posix args'))
      else if known_flag c then Opt c None # getopt_cluster posix cs args
      else OptError # getopt_cluster posix cs args)"
| "getopt_words posix [] = []"
| "getopt_words posix (a # args) =
     (if a = ''--'' then []
      else if length a \<ge> 2 \<and> hd a = CHR ''-'' then getopt_cluster posix (tl a) args
      else if posix then [] else getopt_words posix args)"
  by pat_completeness auto
termination
  by (relation "measure (\<lambda>x. case x of Inl (p, cs, args) \<Rightarrow> Suc (2 * (length cs + size_list length args))
        | Inr (p, args) \<Rightarrow> 2 * size_list length args)") (auto simp: neq_Nil_conv)

section \<open>Validation\<close>

definition validate_mode :: "string \<Rightarrow> ksnap_status + modes" where
  "validate_mode arg =
     (if strncmp_eq arg ''Dump'' 4 \<and> length arg = 4 then Inr DUMP
      else if strncmp_eq arg ''Restore'' 7 \<and> length arg = 7 then Inr RESTORE
      else if strncmp_eq arg ''Check'' 5 \<and> length arg = 5 then Inr CHECK
      else Inl KSNAP_ERR_INVALID_MODE)"

definition validate_pid :: "string \<Rightarrow> ksnap_status" where
  "validate_pid arg =
     (if length arg > 7 then KSNAP_ERR_INVALID_PID
      else if \<not> list_all isdigit arg then KSNAP_ERR_INVALID_PID
      else KSNAP_OK)"

definition validate_name :: "string \<Rightarrow> ksnap_status" where
  "validate_name arg =
     (if length arg = 0 \<or> length arg > NAME_MAX then KSNAP_ERR_INVALID_NAME
      else if CHR ''/'' \<in> set arg then KSNAP_ERR_INVALID_NAME
      else if arg = ''.'' \<or> arg = ''..'' then KSNAP_ERR_INVALID_NAME
      else KSNAP_OK)"

definition validate_dir :: "string \<Rightarrow> ksnap_status" where
  "validate_dir arg =
     (if length arg \<le> MIN_LEN_PATH \<or> length arg > PATH_MAX - NAME_MAX - 2
      then KSNAP_ERR_INVALID_ARGS else KSNAP_OK)"

definition validate_mandatory_args :: "ksnap_config \<Rightarrow> ksnap_status" where
  "validate_mandatory_args config =
     (case cfg_mode config of
        None \<Rightarrow> KSNAP_ERR_NO_MODE_SPECIFIED
      | Some md \<Rightarrow>
          if strncmp_eq md ''DUMP'' 4 \<and> cfg_pid config = -1 then KSNAP_ERR_NO_PID_SPECIFIED
          else if cfg_kill_after_dump config \<and> \<not> strncmp_eq md ''DUMP'' 4
          then KSNAP_ERR_KILL_WITHOUT_DUMP
          else KSNAP_OK)"

section \<open>The option loop\<close>

definition initial_config :: ksnap_config where
  "initial_config = \<lparr>cfg_mode = None, cfg_pid = -1, cfg_file_name = None, cfg_output_dir = None,
     cfg_kill_after_dump = False\<rparr>"

datatype parse_outcome =
    Parsed ksnap_status ksnap_config   \<comment> \<open>\<open>parse_arg\<close> returns\<close>
  | UsageExit                          \<comment> \<open>\<open>-h\<close> prints the usage and exits with success\<close>

definition optarg :: "string option \<Rightarrow> string" where
  "optarg a = (case a of Some s \<Rightarrow> s | None \<Rightarrow> [])"

fun parse_options :: "opt_report list \<Rightarrow> ksnap_config \<Rightarrow> parse_outcome" where
  "parse_options [] config = Parsed (validate_mandatory_args config) config"
| "parse_options (OptError # opts) config = Parsed KSNAP_ERR_INVALID_ARGS config"
| "parse_options (Opt c a # opts) config =
     (if c = CHR ''m'' then
        (case validate_mode (optarg a) of
           Inl status \<Rightarrow> Parsed status config
         | Inr md \<Rightarrow> parse_options opts (config\<lparr>cfg_mode := Some (mode_to_string md)\<rparr>))
      else if c = CHR ''p'' then
        (if validate_pid (optarg a) \<noteq> KSNAP_OK then Parsed (validate_pid (optarg a)) config
         else parse_options opts (config\<lparr>cfg_pid := atoi (optarg a)\<rparr>))
      else if c = CHR ''h'' then UsageExit
      else if c = CHR ''n'' then
        (if validate_name (optarg a) \<noteq> KSNAP_OK then Parsed (validate_name (optarg a)) config
         else parse_options opts (config\<lparr>cfg_file_name := Some (optarg a)\<rparr>))
      else if c = CHR ''k'' then parse_options opts (config\<lparr>cfg_kill_after_dump := True\<rparr>)
      else if c = CHR ''d'' then
        (if validate_dir (optarg a) \<noteq> KSNAP_OK then Parsed (validate_dir (optarg a)) config
         else parse_options opts (config\<lparr>cfg_output_dir := Some (optarg a)\<rparr>))
      else Parsed KSNAP_ERR_INVALID_ARGS config)"

text \<open>\<open>argv\<close> without the program's name.\<close>

definition parse_arg :: "bool \<Rightarrow> string list \<Rightarrow> parse_outcome" where
  "parse_arg posix args = parse_options (getopt_words posix args) initial_config"

definition check_status :: "ksnap_status \<Rightarrow> bool" where
  "check_status status \<longleftrightarrow> status = KSNAP_OK"

section \<open>What an accepted configuration satisfies\<close>

definition valid_config :: "ksnap_config \<Rightarrow> bool" where
  "valid_config c \<longleftrightarrow>
     (case cfg_mode c of None \<Rightarrow> True | Some md \<Rightarrow> md \<in> {''DUMP'', ''RESTORE'', ''CHECK''}) \<and>
     -1 \<le> cfg_pid c \<and> cfg_pid c < 10 ^ 7 \<and>
     (case cfg_file_name c of None \<Rightarrow> True
      | Some n \<Rightarrow> 0 < length n \<and> length n \<le> NAME_MAX \<and> CHR ''/'' \<notin> set n \<and>
                   n \<noteq> ''.'' \<and> n \<noteq> ''..'') \<and>
     (case cfg_output_dir c of None \<Rightarrow> True
      | Some d \<Rightarrow> 0 < length d \<and> length d \<le> PATH_MAX - NAME_MAX - 2)"

lemma valid_initial_config [intro]: "valid_config initial_config"
  by (simp add: valid_config_def initial_config_def)

lemma validate_pid_value:
  assumes "validate_pid arg = KSNAP_OK"
  shows "0 \<le> atoi arg \<and> atoi arg < 10 ^ 7"
proof (cases "arg = []")
  case True
  have "atoi [] = 0" by (simp add: atoi_def scan_long_def scan_magnitude_def)
  with True show ?thesis by simp
next
  case False
  have digits: "list_all isdigit arg" and len: "length arg \<le> 7"
    using assms by (auto simp: validate_pid_def split: if_splits)
  then have "atoi arg = int (digits_value 10 arg)"
    using False by (intro atoi_digits) auto
  moreover have "digits_value 10 arg < 10 ^ length arg"
    using digits by (intro digits_value_bound) (simp add: base_digit_10[abs_def])
  moreover have "(10 :: nat) ^ length arg \<le> 10 ^ 7"
    using len by (intro power_increasing) auto
  ultimately show ?thesis by simp
qed

lemma validate_name_ok:
  "validate_name n = KSNAP_OK \<longleftrightarrow> 0 < length n \<and> length n \<le> NAME_MAX \<and> CHR ''/'' \<notin> set n \<and>
     n \<noteq> ''.'' \<and> n \<noteq> ''..''"
  by (auto simp: validate_name_def)

lemma validate_dir_ok:
  "validate_dir d = KSNAP_OK \<longleftrightarrow> 0 < length d \<and> length d \<le> PATH_MAX - NAME_MAX - 2"
  by (auto simp: validate_dir_def MIN_LEN_PATH_def)

lemma parse_options_valid:
  "valid_config c \<Longrightarrow> parse_options opts c = Parsed status c' \<Longrightarrow> valid_config c'"
proof (induction opts c rule: parse_options.induct)
  case (3 ch a opts config)
  have "mode_to_string md \<in> {''DUMP'', ''RESTORE'', ''CHECK''}" for md
    by (cases md) auto
  moreover have "validate_pid (optarg a) = KSNAP_OK \<Longrightarrow> -1 \<le> atoi (optarg a) \<and> atoi (optarg a) < 10 ^ 7"
    using validate_pid_value[of "optarg a"] by simp
  ultimately show ?case
    using 3 by (auto simp: valid_config_def validate_name_ok validate_dir_ok
        split: if_splits sum.splits)
qed auto

lemma parse_options_mandatory:
  "parse_options opts c = Parsed KSNAP_OK c' \<Longrightarrow> validate_mandatory_args c' = KSNAP_OK"
  by (induction opts c rule: parse_options.induct)
    (auto simp: validate_mode_def split: if_splits sum.splits)

lemma valid_config_path_fits:
  assumes "valid_config c"
  shows "\<exists>p. build_snapshot_path c = OK p"
  using assms
  by (auto simp: valid_config_def build_snapshot_path_def Let_def PATH_MAX_def NAME_MAX_def
      KSNAP_DEFAULT_SNAPSHOT_DIR_def KSNAP_DEFAULT_SNAPSHOT_NAME_def split: option.splits)

text \<open>The path built from any configuration fits its buffer.\<close>

lemma build_snapshot_path_length: "build_snapshot_path c = OK p \<Longrightarrow> length p < PATH_MAX"
  by (auto simp: build_snapshot_path_def Let_def split: if_splits)

lemma parse_arg_accepted:
  assumes "parse_arg posix args = Parsed KSNAP_OK c"
  shows "valid_config c \<and>
    (\<exists>md. cfg_mode c = Some md \<and> md \<in> {''DUMP'', ''RESTORE'', ''CHECK''} \<and>
       (md = ''DUMP'' \<longrightarrow> 0 \<le> cfg_pid c) \<and> (cfg_kill_after_dump c \<longrightarrow> md = ''DUMP'')) \<and>
    (\<exists>path. build_snapshot_path c = OK path \<and> length path < PATH_MAX)"
proof -
  have v: "valid_config c"
    using assms parse_options_valid[OF valid_initial_config] by (simp add: parse_arg_def)
  have "validate_mandatory_args c = KSNAP_OK"
    using assms parse_options_mandatory by (simp add: parse_arg_def)
  then have "\<exists>md. cfg_mode c = Some md \<and> md \<in> {''DUMP'', ''RESTORE'', ''CHECK''} \<and>
       (md = ''DUMP'' \<longrightarrow> 0 \<le> cfg_pid c) \<and> (cfg_kill_after_dump c \<longrightarrow> md = ''DUMP'')"
    using v by (auto simp: validate_mandatory_args_def valid_config_def strncmp_eq_def
        split: option.splits if_splits)
  then show ?thesis
    using v valid_config_path_fits[OF v] build_snapshot_path_length by blast
qed

end
