(* ===== verification/Sys.thy ===== *)
theory Sys
  imports CLib
begin

text \<open>
  The boundary between the engine and the machine it runs on. Every system call and every stdio
  stream operation the engine issues is a value of \<open>syscall\<close>; the kernel, which is not part of
  the repository, is a parameter \<open>k\<close> that answers each call from its own state \<open>'w\<close>. A run
  threads a \<open>machine\<close>, which holds that state and a log of all calls with their answers, oldest
  first. The bytes that reached the snapshot file and the memory of the traced process are read
  off the log.

  A stream that is only read is modelled by what reading it to its end delivers
  (\<open>OpenText\<close>, \<open>OpenSnapshot\<close>, \<open>ListDir\<close>), so opening and reading are one call.
\<close>

section \<open>Registers\<close>

text \<open>\<open>struct user_regs_struct\<close> of \<open><sys/user.h>\<close>, x86-64\<close>

record user_regs =
  reg_r15 :: u64  reg_r14 :: u64  reg_r13 :: u64  reg_r12 :: u64
  reg_rbp :: u64  reg_rbx :: u64
  reg_r11 :: u64  reg_r10 :: u64  reg_r9 :: u64  reg_r8 :: u64
  reg_rax :: u64  reg_rcx :: u64  reg_rdx :: u64  reg_rsi :: u64  reg_rdi :: u64
  reg_orig_rax :: u64  reg_rip :: u64  reg_seg_cs :: u64  reg_eflags :: u64  reg_rsp :: u64
  reg_seg_ss :: u64  reg_fs_base :: u64  reg_gs_base :: u64
  reg_seg_ds :: u64  reg_seg_es :: u64  reg_seg_fs :: u64  reg_seg_gs :: u64

section \<open>Calls and answers\<close>

datatype errno = EPERM | ESRCH | EINTR | EIO | ENOMEM | EACCES | EINVAL | EOTHER nat

datatype syscall =
  \<comment> \<open>the file system and /proc\<close>
    OpenText string               \<comment> \<open>\<open>fopen (path, "r")\<close> and reading to the end\<close>
  | Readlink string nat           \<comment> \<open>path and size of the buffer\<close>
  | Stat string
  | Access string                 \<comment> \<open>\<open>access (path, X_OK)\<close>\<close>
  | ListDir string                \<comment> \<open>\<open>opendir\<close> and \<open>readdir\<close> to the end\<close>
  | Getpid
  | Realloc nat                   \<comment> \<open>\<open>malloc\<close>, \<open>calloc\<close> and \<open>realloc\<close>\<close>
  \<comment> \<open>the memory of another process\<close>
  | OpenMem string bool           \<comment> \<open>\<open>/proc/<pid>/mem\<close>, for writing when true\<close>
  | Pread u64 nat                 \<comment> \<open>address and number of bytes\<close>
  | Pwrite u64 bytes
  | CloseMem
  \<comment> \<open>the snapshot file, written\<close>
  | FopenWrite string
  | Fwrite bytes nat              \<comment> \<open>the items as bytes, and the size of one item\<close>
  | Ftell
  | Fflush
  | Fsync
  | Fclose
  \<comment> \<open>the snapshot file, read\<close>
  | OpenSnapshot string
  | Fstat
  \<comment> \<open>tracing\<close>
  | Seize int
  | Interrupt int
  | Waitpid int
  | GetRegs int
  | SetRegs int user_regs
  | GetXstate int nat
  | SetXstate int bytes
  | PeekText int u64
  | PokeText int u64 u64
  | SingleStep int
  | Detach int
  | Kill int
  | Kcmp int int int
  \<comment> \<open>the new process\<close>
  | Fork
  | CloseRange nat
  | OpenFile string u32
  | Lseek int u64
  | Dup2 int int
  | CloseFd int
  | Personality
  | TraceMe
  | Execv string
  \<comment> \<open>standard output\<close>
  | Puts string

datatype reply =
    RErr errno
  | RInt int
  | RWord u64
  | RText string bool             \<comment> \<open>the characters delivered, and whether \<open>ferror\<close> holds then\<close>
  | RBytes bytes
  | RNames "string list"
  | RStat u32 u64 u64             \<comment> \<open>\<open>st_mode\<close>, \<open>st_dev\<close>, \<open>st_ino\<close>\<close>
  | RRegs user_regs

type_synonym 'w kernel = "syscall \<Rightarrow> 'w \<Rightarrow> reply \<times> 'w"

record 'w machine =
  world :: 'w
  log :: "(syscall \<times> reply) list"

definition call :: "'w kernel \<Rightarrow> syscall \<Rightarrow> 'w machine \<Rightarrow> reply \<times> 'w machine" where
  "call k c m = (case k c (world m) of (r, w) \<Rightarrow> (r, m\<lparr>world := w, log := log m @ [(c, r)]\<rparr>))"

text \<open>An answer as the kind of result its caller reads. An answer of another kind is an error.\<close>

fun as_unit :: "reply \<Rightarrow> errno + unit" where
  "as_unit (RErr e) = Inl e"
| "as_unit _ = Inr ()"

fun as_int :: "reply \<Rightarrow> errno + int" where
  "as_int (RErr e) = Inl e"
| "as_int (RInt i) = Inr i"
| "as_int _ = Inl EIO"

fun as_word :: "reply \<Rightarrow> errno + u64" where
  "as_word (RErr e) = Inl e"
| "as_word (RWord x) = Inr x"
| "as_word _ = Inl EIO"

fun as_text :: "reply \<Rightarrow> errno + string \<times> bool" where
  "as_text (RErr e) = Inl e"
| "as_text (RText s b) = Inr (s, b)"
| "as_text _ = Inl EIO"

fun as_bytes :: "reply \<Rightarrow> errno + bytes" where
  "as_bytes (RErr e) = Inl e"
| "as_bytes (RBytes b) = Inr b"
| "as_bytes _ = Inl EIO"

fun as_names :: "reply \<Rightarrow> errno + string list" where
  "as_names (RErr e) = Inl e"
| "as_names (RNames ns) = Inr ns"
| "as_names _ = Inl EIO"

fun as_stat :: "reply \<Rightarrow> errno + u32 \<times> u64 \<times> u64" where
  "as_stat (RErr e) = Inl e"
| "as_stat (RStat mode dev ino) = Inr (mode, dev, ino)"
| "as_stat _ = Inl EIO"

fun as_regs :: "reply \<Rightarrow> errno + user_regs" where
  "as_regs (RErr e) = Inl e"
| "as_regs (RRegs r) = Inr r"
| "as_regs _ = Inl EIO"

section \<open>Typed calls\<close>

definition sys_unit :: "'w kernel \<Rightarrow> syscall \<Rightarrow> 'w machine \<Rightarrow> (errno + unit) \<times> 'w machine" where
  "sys_unit k c m = map_prod as_unit id (call k c m)"

definition sys_int :: "'w kernel \<Rightarrow> syscall \<Rightarrow> 'w machine \<Rightarrow> (errno + int) \<times> 'w machine" where
  "sys_int k c m = map_prod as_int id (call k c m)"

definition sys_word :: "'w kernel \<Rightarrow> syscall \<Rightarrow> 'w machine \<Rightarrow> (errno + u64) \<times> 'w machine" where
  "sys_word k c m = map_prod as_word id (call k c m)"

definition sys_text :: "'w kernel \<Rightarrow> syscall \<Rightarrow> 'w machine \<Rightarrow> (errno + string \<times> bool) \<times> 'w machine"
  where "sys_text k c m = map_prod as_text id (call k c m)"

definition sys_names :: "'w kernel \<Rightarrow> syscall \<Rightarrow> 'w machine \<Rightarrow> (errno + string list) \<times> 'w machine"
  where "sys_names k c m = map_prod as_names id (call k c m)"

definition sys_stat :: "'w kernel \<Rightarrow> syscall \<Rightarrow> 'w machine \<Rightarrow> (errno + u32 \<times> u64 \<times> u64) \<times> 'w machine"
  where "sys_stat k c m = map_prod as_stat id (call k c m)"

definition sys_regs :: "'w kernel \<Rightarrow> syscall \<Rightarrow> 'w machine \<Rightarrow> (errno + user_regs) \<times> 'w machine"
  where "sys_regs k c m = map_prod as_regs id (call k c m)"

text \<open>A call that fills a buffer of \<open>n\<close> bytes never delivers more than that.\<close>

definition sys_bytes :: "'w kernel \<Rightarrow> syscall \<Rightarrow> nat \<Rightarrow> 'w machine \<Rightarrow> (errno + bytes) \<times> 'w machine"
  where "sys_bytes k c n m = map_prod (map_sum id (take n) \<circ> as_bytes) id (call k c m)"

text \<open>\<open>readlink\<close> fills at most \<open>n\<close> bytes and does not terminate them; a link target holds no
  NUL.\<close>

definition sys_readlink :: "'w kernel \<Rightarrow> string \<Rightarrow> nat \<Rightarrow> 'w machine \<Rightarrow> (errno + string) \<times> 'w machine"
  where "sys_readlink k path n m =
    map_prod (map_sum id (take n \<circ> c_str) \<circ> as_bytes) id (call k (Readlink path n) m)"

text \<open>\<open>realloc\<close> and \<open>malloc\<close>: whether they return memory. A request for nothing frees the block
  and returns NULL, as in glibc.\<close>

definition sys_alloc :: "'w kernel \<Rightarrow> nat \<Rightarrow> 'w machine \<Rightarrow> bool \<times> 'w machine" where
  "sys_alloc k n m =
     (case sys_unit k (Realloc n) m of (r, m') \<Rightarrow> (n \<noteq> 0 \<and> r = Inr (), m'))"

lemmas sys_defs = sys_unit_def sys_int_def sys_word_def sys_text_def sys_names_def sys_stat_def
  sys_regs_def sys_bytes_def sys_readlink_def

lemma sys_readlink_result:
  assumes "sys_readlink k path n m = (Inr target, m')"
  shows "length target \<le> n" "NUL \<notin> set target"
proof -
  obtain b where "target = take n (c_str b)"
    using assms
    by (cases "call k (Readlink path n) m"; cases "as_bytes (fst (call k (Readlink path n) m))")
      (auto simp: sys_readlink_def)
  then show "length target \<le> n" "NUL \<notin> set target"
    by (auto dest: in_set_takeD)
qed

lemma sys_bytes_length: "sys_bytes k c n m = (Inr b, m') \<Longrightarrow> length b \<le> n"
  by (cases "call k c m"; cases "as_bytes (fst (call k c m))") (auto simp: sys_bytes_def)

text \<open>A typed call is one turn of the kernel.\<close>

lemma typed_turn:
  "sys_unit k c m = (r1, m') \<longleftrightarrow> r1 = as_unit (fst (k c (world m))) \<and>
     m' = m\<lparr>world := snd (k c (world m)), log := log m @ [(c, fst (k c (world m)))]\<rparr>"
  "sys_int k c m = (r2, m') \<longleftrightarrow> r2 = as_int (fst (k c (world m))) \<and>
     m' = m\<lparr>world := snd (k c (world m)), log := log m @ [(c, fst (k c (world m)))]\<rparr>"
  "sys_word k c m = (r3, m') \<longleftrightarrow> r3 = as_word (fst (k c (world m))) \<and>
     m' = m\<lparr>world := snd (k c (world m)), log := log m @ [(c, fst (k c (world m)))]\<rparr>"
  "sys_regs k c m = (r4, m') \<longleftrightarrow> r4 = as_regs (fst (k c (world m))) \<and>
     m' = m\<lparr>world := snd (k c (world m)), log := log m @ [(c, fst (k c (world m)))]\<rparr>"
  by (auto simp: sys_defs call_def split: prod.split)

section \<open>Status words of waitpid\<close>

definition WIFSTOPPED :: "int \<Rightarrow> bool" where
  "WIFSTOPPED status \<longleftrightarrow> status mod 256 = 127"

definition WIFEXITED :: "int \<Rightarrow> bool" where
  "WIFEXITED status \<longleftrightarrow> status mod 128 = 0"

definition WIFSIGNALED :: "int \<Rightarrow> bool" where
  "WIFSIGNALED status \<longleftrightarrow> status mod 128 \<noteq> 0 \<and> status mod 128 \<noteq> 127"

section \<open>Frames\<close>

text \<open>
  The calls that only look at a process or write the engine's own files: they neither resume,
  change, kill nor release the traced process.
\<close>

fun inspects :: "syscall \<Rightarrow> bool" where
  "inspects (Seize _) = False"
| "inspects (Interrupt _) = False"
| "inspects (Waitpid _) = False"
| "inspects (SetRegs _ _) = False"
| "inspects (SetXstate _ _) = False"
| "inspects (PokeText _ _ _) = False"
| "inspects (SingleStep _) = False"
| "inspects (Detach _) = False"
| "inspects (Kill _) = False"
| "inspects (Pwrite _ _) = False"
| "inspects Fork = False"
| "inspects (Execv _) = False"
| "inspects (Puts _) = False"
| "inspects _ = True"

text \<open>
  What the parts of the engine that only issue calls of one kind are proved against: any reflexive
  and transitive relation between machines that every call of that kind keeps. The log growing by
  such calls is one, a property of the kernel's state that they keep is another.
\<close>

locale frame =
  fixes k :: "'w kernel" and R :: "'w machine \<Rightarrow> 'w machine \<Rightarrow> bool" and P :: "syscall \<Rightarrow> bool"
  assumes refl: "R m m"
    and trans: "R m m' \<Longrightarrow> R m' m'' \<Longrightarrow> R m m''"
    and call: "P c \<Longrightarrow> R m (snd (call k c m))"
begin

lemma typed:
  assumes "P c"
  shows "R m (snd (sys_unit k c m))" "R m (snd (sys_int k c m))" "R m (snd (sys_word k c m))"
    "R m (snd (sys_text k c m))" "R m (snd (sys_names k c m))" "R m (snd (sys_stat k c m))"
    "R m (snd (sys_regs k c m))" "R m (snd (sys_bytes k c n m))"
  using call[OF assms, of m] by (simp_all add: sys_defs)

lemma readlink: "P (Readlink path n) \<Longrightarrow> R m (snd (sys_readlink k path n m))"
  using call[of "Readlink path n" m] by (simp add: sys_defs)

lemma alloc: "P (Realloc n) \<Longrightarrow> R m (snd (sys_alloc k n m))"
  using typed(1)[of "Realloc n" m]
  by (cases "sys_unit k (Realloc n) m") (simp add: sys_alloc_def)

text \<open>The same facts for a call whose result is bound by a pattern.\<close>

lemma bound:
  shows "sys_unit k c m = (x1, m1) \<Longrightarrow> P c \<Longrightarrow> R m0 m \<Longrightarrow> R m0 m1"
    and "sys_int k c m = (x2, m1) \<Longrightarrow> P c \<Longrightarrow> R m0 m \<Longrightarrow> R m0 m1"
    and "sys_word k c m = (x3, m1) \<Longrightarrow> P c \<Longrightarrow> R m0 m \<Longrightarrow> R m0 m1"
    and "sys_text k c m = (x4, m1) \<Longrightarrow> P c \<Longrightarrow> R m0 m \<Longrightarrow> R m0 m1"
    and "sys_names k c m = (x5, m1) \<Longrightarrow> P c \<Longrightarrow> R m0 m \<Longrightarrow> R m0 m1"
    and "sys_stat k c m = (x6, m1) \<Longrightarrow> P c \<Longrightarrow> R m0 m \<Longrightarrow> R m0 m1"
    and "sys_regs k c m = (x7, m1) \<Longrightarrow> P c \<Longrightarrow> R m0 m \<Longrightarrow> R m0 m1"
    and "sys_bytes k c n m = (x8, m1) \<Longrightarrow> P c \<Longrightarrow> R m0 m \<Longrightarrow> R m0 m1"
    and "sys_readlink k path n m = (x9, m1) \<Longrightarrow> P (Readlink path n) \<Longrightarrow> R m0 m \<Longrightarrow> R m0 m1"
    and "sys_alloc k n m = (x10, m1) \<Longrightarrow> P (Realloc n) \<Longrightarrow> R m0 m \<Longrightarrow> R m0 m1"
  using typed(1-7)[of c m] typed(8)[of c m n] readlink[of path n m] alloc[of n m]
  by (auto dest: trans)

text \<open>Rules that walk through the text of an operation, one call or one case at a time.\<close>

lemma after:
  "P c \<Longrightarrow> R m0 m \<Longrightarrow> R m0 (snd (sys_unit k c m))"
  "P c \<Longrightarrow> R m0 m \<Longrightarrow> R m0 (snd (sys_int k c m))"
  "P c \<Longrightarrow> R m0 m \<Longrightarrow> R m0 (snd (sys_word k c m))"
  "P c \<Longrightarrow> R m0 m \<Longrightarrow> R m0 (snd (sys_text k c m))"
  "P c \<Longrightarrow> R m0 m \<Longrightarrow> R m0 (snd (sys_names k c m))"
  "P c \<Longrightarrow> R m0 m \<Longrightarrow> R m0 (snd (sys_stat k c m))"
  "P c \<Longrightarrow> R m0 m \<Longrightarrow> R m0 (snd (sys_regs k c m))"
  by (rule trans, assumption, erule typed)+

lemma walk_prod:
  "R m0 (snd p) \<Longrightarrow> (\<And>x m1. p = (x, m1) \<Longrightarrow> R m0 m1 \<Longrightarrow> R m0 (snd (f x m1))) \<Longrightarrow>
   R m0 (snd (case p of (x, m1) \<Rightarrow> f x m1))"
  by (cases p) simp

lemma walk_cases:
  "(\<And>e. x = Inl e \<Longrightarrow> R m0 (snd (f1 e))) \<Longrightarrow> (\<And>y. x = Inr y \<Longrightarrow> R m0 (snd (f2 y))) \<Longrightarrow>
   R m0 (snd (case x of Inl e \<Rightarrow> f1 e | Inr y \<Rightarrow> f2 y))"
  "(r = ERROR \<Longrightarrow> R m0 (snd g1)) \<Longrightarrow> (\<And>y. r = OK y \<Longrightarrow> R m0 (snd (g2 y))) \<Longrightarrow>
   R m0 (snd (case r of ERROR \<Rightarrow> g1 | OK y \<Rightarrow> g2 y))"
  "(b \<Longrightarrow> R m0 (snd h1)) \<Longrightarrow> (\<not> b \<Longrightarrow> R m0 (snd h2)) \<Longrightarrow> R m0 (snd (if b then h1 else h2))"
  "(\<And>y z. q = (y, z) \<Longrightarrow> R m0 (snd (g3 y z))) \<Longrightarrow> R m0 (snd (case q of (y, z) \<Rightarrow> g3 y z))"
  "R m0 (snd (g4 v)) \<Longrightarrow> R m0 (snd (let x = v in g4 x))"
  by (auto split: sum.splits rc.splits prod.splits)

lemmas walk = walk_prod walk_cases(1-3,5)

end

locale inspection = frame k R inspects for k :: "'w kernel" and R

text \<open>The log has grown, and only by calls that satisfy \<open>P\<close>.\<close>

definition extends :: "(syscall \<Rightarrow> bool) \<Rightarrow> 'w machine \<Rightarrow> 'w machine \<Rightarrow> bool" where
  "extends P m m' \<longleftrightarrow> (\<exists>evs. log m' = log m @ evs \<and> list_all (P \<circ> fst) evs)"

lemma extends_refl [simp]: "extends P m m"
  by (simp add: extends_def)

lemma extends_trans: "extends P m m' \<Longrightarrow> extends P m' m'' \<Longrightarrow> extends P m m''"
  by (fastforce simp: extends_def)

lemma log_call: "log (snd (call k c m)) = log m @ [(c, fst (call k c m))]"
  by (simp add: call_def split: prod.split)

lemma extends_call: "P c \<Longrightarrow> extends P m (snd (call k c m))"
  by (simp add: extends_def log_call)

interpretation log_frame: frame k "extends P" P for k P
  by unfold_locales (auto intro: extends_trans extends_call)

interpretation quiet_log: inspection k "extends inspects" for k
  by unfold_locales (auto intro: extends_trans extends_call)

end
