(* ===== verification/DumpFormat.thy ===== *)
theory DumpFormat
  imports Config Sys
begin

text \<open>
  \<open>include/dump_format.h\<close>: the structures of a snapshot file and their bytes on x86-64. Writing a
  structure with \<open>fwrite\<close> is its \<open>encode\<close> function, reading one with \<open>fread\<close> its \<open>decode\<close>
  function; both follow one table of field widths per structure. The locale \<open>struct_codec\<close> is
  what the writer and the reader of a snapshot rely on.
\<close>

section \<open>Constants\<close>

definition KSNAP_MAGIC :: bytes where "KSNAP_MAGIC = ''KSNAPDMP''"
definition KSNAP_MAGIC_LEN :: nat where "KSNAP_MAGIC_LEN = 8"
definition KSNAP_FORMAT_VERSION :: u32 where "KSNAP_FORMAT_VERSION = 4"
definition KSNAP_MAX_KERNEL_MAPS :: nat where "KSNAP_MAX_KERNEL_MAPS = 4"
definition KSNAP_KERNEL_MAP_NAME_LEN :: nat where "KSNAP_KERNEL_MAP_NAME_LEN = 32"
definition KSNAP_XSTATE_MIN_SIZE :: nat where "KSNAP_XSTATE_MIN_SIZE = 576"
definition KSNAP_XSTATE_MAX_SIZE :: nat where "KSNAP_XSTATE_MAX_SIZE = 65536"

section \<open>Structures\<close>

record kernel_map =
  km_start_address :: u64
  km_size :: u64
  km_name :: bytes

record ksnap_dump_header =
  dh_magic :: bytes
  dh_version :: u32
  dh_vma_count :: u32
  dh_vma_table_offset :: u64
  dh_path_pool_offset :: u64
  dh_path_pool_size :: u64
  dh_data_offset :: u64
  dh_exe_path_len :: u32
  dh_exe_path :: bytes
  dh_kernel_map_count :: u32
  dh_kernel_maps :: "kernel_map list"
  dh_regs :: user_regs
  dh_xstate_offset :: u64
  dh_xstate_size :: u32
  dh_xstate_reserved :: u32
  dh_fd_table_offset :: u64
  dh_fd_count :: u32
  dh_fd_reserved :: u32

record vma_descriptor =
  vma_start_address :: u64
  vma_size :: u64
  vma_file_offset :: u64
  vma_data_offset :: u64
  vma_prot :: u32
  vma_map_flags :: u32
  vma_path_offset :: u32
  vma_path_len :: u32

text \<open>\<open>fd\<close> and \<open>dup_of\<close> are signed: their value is \<open>sint\<close> of the word.\<close>

record fd_descriptor =
  fdd_fd :: u32
  fdd_dup_of :: u32
  fdd_flags :: u32
  fdd_path_offset :: u32
  fdd_path_len :: u32
  fdd_reserved :: u32
  fdd_position :: u64

section \<open>Little-endian numbers\<close>

fun le_enc :: "nat \<Rightarrow> nat \<Rightarrow> bytes" where
  "le_enc 0 v = []"
| "le_enc (Suc n) v = char_of (v mod 256) # le_enc n (v div 256)"

fun le_dec :: "bytes \<Rightarrow> nat" where
  "le_dec [] = 0"
| "le_dec (c # cs) = of_char c + 256 * le_dec cs"

lemma length_le_enc [simp]: "length (le_enc n v) = n"
  by (induction n arbitrary: v) auto

lemma le_dec_enc: "v < 256 ^ n \<Longrightarrow> le_dec (le_enc n v) = v"
proof (induction n arbitrary: v)
  case (Suc n)
  then have "v div 256 < 256 ^ n" by (simp add: div_less_iff_less_mult mult.commute)
  with Suc.IH show ?case by simp
qed simp

lemma le_enc_dec: "le_enc (length bs) (le_dec bs) = bs"
proof (induction bs)
  case (Cons c cs)
  have "(of_char c + 256 * le_dec cs) mod 256 = of_char c"
    "(of_char c + 256 * le_dec cs) div 256 = le_dec cs"
    using of_char_mod_256[of c, where ?'a = nat] by (simp_all add: div_add1_eq)
  with Cons show ?case by simp
qed simp

lemma le_dec_bound: "le_dec bs < 256 ^ length bs"
proof (induction bs)
  case (Cons c cs)
  have "(of_char c :: nat) < 256"
    using of_char_mod_256[of c, where ?'a = nat] by (metis mod_less_divisor zero_less_numeral)
  with Cons show ?case unfolding le_dec.simps length_Cons power_Suc by linarith
qed simp

definition enc32 :: "u32 \<Rightarrow> bytes" where "enc32 w = le_enc 4 (unat w)"
definition enc64 :: "u64 \<Rightarrow> bytes" where "enc64 w = le_enc 8 (unat w)"
definition dec32 :: "bytes \<Rightarrow> u32" where "dec32 bs = word_of_nat (le_dec bs)"
definition dec64 :: "bytes \<Rightarrow> u64" where "dec64 bs = word_of_nat (le_dec bs)"

lemma length_enc [simp]: "length (enc32 w) = 4" "length (enc64 x) = 8"
  by (simp_all add: enc32_def enc64_def)

lemma num_dec_enc [simp]: "dec32 (enc32 w) = w" "dec64 (enc64 x) = x"
  using unat_u32_bound[of w] unat_u64_bound[of x]
  by (simp_all add: dec32_def enc32_def dec64_def enc64_def le_dec_enc)

lemma num_enc_dec: "length bs = 4 \<Longrightarrow> enc32 (dec32 bs) = bs" "length bs = 8 \<Longrightarrow> enc64 (dec64 bs) = bs"
  using le_dec_bound[of bs] le_enc_dec[of bs]
  by (auto simp: dec32_def enc32_def dec64_def enc64_def unat_of_nat_u32 unat_of_nat_u64)

section \<open>Codecs\<close>

lemma list_all_True [simp]: "list_all (\<lambda>_. True) xs"
  by (simp add: list_all_iff)

text \<open>
  What a reader and a writer of a table of structures need: every well-formed structure has the
  same size in the file, reading back what was written gives the structure, and any run of bytes
  of that size is some well-formed structure, whose bytes it is.
\<close>

locale struct_codec =
  fixes enc :: "'a \<Rightarrow> bytes" and dec :: "bytes \<Rightarrow> 'a" and width :: nat and wf :: "'a \<Rightarrow> bool"
  assumes enc_length: "wf x \<Longrightarrow> length (enc x) = width"
    and dec_enc: "wf x \<Longrightarrow> dec (enc x) = x"
    and enc_dec: "length bs = width \<Longrightarrow> enc (dec bs) = bs"
    and dec_wf: "length bs = width \<Longrightarrow> wf (dec bs)"

text \<open>\<open>fwrite (table, size, count)\<close> and \<open>fread\<close> of a table.\<close>

definition encode_items :: "('a \<Rightarrow> bytes) \<Rightarrow> 'a list \<Rightarrow> bytes" where
  "encode_items enc xs = concat (map enc xs)"

fun decode_items :: "(bytes \<Rightarrow> 'a) \<Rightarrow> nat \<Rightarrow> nat \<Rightarrow> bytes \<Rightarrow> 'a list" where
  "decode_items dec width 0 bs = []"
| "decode_items dec width (Suc n) bs =
     dec (take width bs) # decode_items dec width n (drop width bs)"

lemma length_decode_items [simp]: "length (decode_items dec width n bs) = n"
  by (induction n arbitrary: bs) auto

context struct_codec
begin

lemma length_encode_items: "list_all wf xs \<Longrightarrow> length (encode_items enc xs) = width * length xs"
  by (induction xs) (auto simp: encode_items_def enc_length)

lemma decode_encode_items:
  "list_all wf xs \<Longrightarrow> decode_items dec width (length xs) (encode_items enc xs @ r) = xs"
  by (induction xs) (auto simp: encode_items_def enc_length dec_enc)

lemma encode_decode_items:
  "length bs = width * n \<Longrightarrow> encode_items enc (decode_items dec width n bs) = bs"
proof (induction n arbitrary: bs)
  case (Suc n)
  have "encode_items enc (decode_items dec width n (drop width bs)) = drop width bs"
    using Suc.prems by (intro Suc.IH) simp
  then show ?case
    using Suc.prems by (simp add: encode_items_def enc_dec)
qed (simp add: encode_items_def)

lemma decode_items_wf: "width * n \<le> length bs \<Longrightarrow> list_all wf (decode_items dec width n bs)"
  by (induction n arbitrary: bs) (auto intro: dec_wf)

end

text \<open>A structure is the concatenation of its fields; its layout is the list of their widths.\<close>

definition split_fields :: "nat list \<Rightarrow> bytes \<Rightarrow> bytes list" where
  "split_fields layout bs = chunks layout bs"

lemma split_fields_concat: "map length fs = layout \<Longrightarrow> split_fields layout (concat fs) = fs"
  using chunks_concat[of fs layout "[]"] by (simp add: split_fields_def)

lemma concat_split_fields:
  "sum_list layout = length bs \<Longrightarrow> concat (split_fields layout bs) = bs"
  by (simp add: split_fields_def concat_chunks)

lemma split_fields_lengths:
  "sum_list layout \<le> length bs \<Longrightarrow> map length (split_fields layout bs) = layout"
  by (induction layout arbitrary: bs) (auto simp: split_fields_def)

text \<open>The contract of one structure in terms of its fields, which makes it a codec.\<close>

locale field_struct =
  fixes fields :: "'a \<Rightarrow> bytes list" and of_fields :: "bytes list \<Rightarrow> 'a"
    and layout :: "nat list" and wf :: "'a \<Rightarrow> bool"
  assumes field_lengths: "wf x \<Longrightarrow> map length (fields x) = layout"
    and of_fields: "wf x \<Longrightarrow> of_fields (fields x) = x"
    and fields_of: "map length fs = layout \<Longrightarrow> fields (of_fields fs) = fs"
    and of_fields_wf: "map length fs = layout \<Longrightarrow> wf (of_fields fs)"

sublocale field_struct \<subseteq> struct_codec "\<lambda>x. concat (fields x)"
  "\<lambda>bs. of_fields (split_fields layout bs)" "sum_list layout" wf
proof
  fix x and bs :: bytes
  {
    assume wf: "wf x"
    show "length (concat (fields x)) = sum_list layout"
      using field_lengths[OF wf] by (simp add: length_concat)
    show "of_fields (split_fields layout (concat (fields x))) = x"
      by (simp add: split_fields_concat[OF field_lengths[OF wf]] of_fields[OF wf])
  }
  assume len: "length bs = sum_list layout"
  then have lens: "map length (split_fields layout bs) = layout"
    by (simp add: split_fields_lengths)
  show "concat (fields (of_fields (split_fields layout bs))) = bs"
    using len by (simp add: fields_of[OF lens] concat_split_fields)
  show "wf (of_fields (split_fields layout bs))"
    by (rule of_fields_wf[OF lens])
qed

subsection \<open>Registers\<close>

definition regs_words :: "user_regs \<Rightarrow> u64 list" where
  "regs_words r =
     [reg_r15 r, reg_r14 r, reg_r13 r, reg_r12 r, reg_rbp r, reg_rbx r, reg_r11 r, reg_r10 r,
      reg_r9 r, reg_r8 r, reg_rax r, reg_rcx r, reg_rdx r, reg_rsi r, reg_rdi r, reg_orig_rax r,
      reg_rip r, reg_seg_cs r, reg_eflags r, reg_rsp r, reg_seg_ss r, reg_fs_base r,
      reg_gs_base r, reg_seg_ds r, reg_seg_es r, reg_seg_fs r, reg_seg_gs r]"

definition words_regs :: "u64 list \<Rightarrow> user_regs" where
  "words_regs w =
     \<lparr>reg_r15 = w ! 0, reg_r14 = w ! 1, reg_r13 = w ! 2, reg_r12 = w ! 3, reg_rbp = w ! 4,
      reg_rbx = w ! 5, reg_r11 = w ! 6, reg_r10 = w ! 7, reg_r9 = w ! 8, reg_r8 = w ! 9,
      reg_rax = w ! 10, reg_rcx = w ! 11, reg_rdx = w ! 12, reg_rsi = w ! 13, reg_rdi = w ! 14,
      reg_orig_rax = w ! 15, reg_rip = w ! 16, reg_seg_cs = w ! 17, reg_eflags = w ! 18,
      reg_rsp = w ! 19, reg_seg_ss = w ! 20, reg_fs_base = w ! 21, reg_gs_base = w ! 22,
      reg_seg_ds = w ! 23, reg_seg_es = w ! 24, reg_seg_fs = w ! 25, reg_seg_gs = w ! 26\<rparr>"

definition encode_regs :: "user_regs \<Rightarrow> bytes" where
  "encode_regs r = encode_items enc64 (regs_words r)"

definition decode_regs :: "bytes \<Rightarrow> user_regs" where
  "decode_regs bs = words_regs (decode_items dec64 8 27 bs)"

interpretation word_codec: struct_codec enc64 dec64 8 "\<lambda>_. True"
  by unfold_locales (simp_all add: num_enc_dec)

lemma words_regs_words [simp]: "words_regs (regs_words r) = r"
  by (simp add: words_regs_def regs_words_def)

lemma regs_words_regs: "length ws = 27 \<Longrightarrow> regs_words (words_regs ws) = ws"
  by (simp add: words_regs_def regs_words_def list_eq_iff_nth_eq All_less_Suc numeral_eq_Suc)

interpretation regs_codec: struct_codec encode_regs decode_regs 216 "\<lambda>_. True"
proof
  fix r :: user_regs and bs :: bytes
  have len: "length (regs_words r) = 27" by (simp add: regs_words_def)
  then show "length (encode_regs r) = 216"
    by (simp add: encode_regs_def word_codec.length_encode_items)
  show "decode_regs (encode_regs r) = r"
    using word_codec.decode_encode_items[of "regs_words r" "[]"] len
    by (simp add: encode_regs_def decode_regs_def)
  assume "length bs = 216"
  then show "encode_regs (decode_regs bs) = bs"
    by (simp add: encode_regs_def decode_regs_def regs_words_regs word_codec.encode_decode_items)
qed simp

subsection \<open>Descriptors\<close>

definition vma_layout :: "nat list" where "vma_layout = [8, 8, 8, 8, 4, 4, 4, 4]"

definition vma_fields :: "vma_descriptor \<Rightarrow> bytes list" where
  "vma_fields v =
     [enc64 (vma_start_address v), enc64 (vma_size v), enc64 (vma_file_offset v),
      enc64 (vma_data_offset v), enc32 (vma_prot v), enc32 (vma_map_flags v),
      enc32 (vma_path_offset v), enc32 (vma_path_len v)]"

definition vma_of_fields :: "bytes list \<Rightarrow> vma_descriptor" where
  "vma_of_fields f =
     \<lparr>vma_start_address = dec64 (f ! 0), vma_size = dec64 (f ! 1), vma_file_offset = dec64 (f ! 2),
      vma_data_offset = dec64 (f ! 3), vma_prot = dec32 (f ! 4), vma_map_flags = dec32 (f ! 5),
      vma_path_offset = dec32 (f ! 6), vma_path_len = dec32 (f ! 7)\<rparr>"

definition encode_vma :: "vma_descriptor \<Rightarrow> bytes" where
  "encode_vma v = concat (vma_fields v)"

definition decode_vma :: "bytes \<Rightarrow> vma_descriptor" where
  "decode_vma bs = vma_of_fields (split_fields vma_layout bs)"

definition fd_layout :: "nat list" where "fd_layout = [4, 4, 4, 4, 4, 4, 8]"

definition fd_fields :: "fd_descriptor \<Rightarrow> bytes list" where
  "fd_fields d =
     [enc32 (fdd_fd d), enc32 (fdd_dup_of d), enc32 (fdd_flags d), enc32 (fdd_path_offset d),
      enc32 (fdd_path_len d), enc32 (fdd_reserved d), enc64 (fdd_position d)]"

definition fd_of_fields :: "bytes list \<Rightarrow> fd_descriptor" where
  "fd_of_fields f =
     \<lparr>fdd_fd = dec32 (f ! 0), fdd_dup_of = dec32 (f ! 1), fdd_flags = dec32 (f ! 2),
      fdd_path_offset = dec32 (f ! 3), fdd_path_len = dec32 (f ! 4), fdd_reserved = dec32 (f ! 5),
      fdd_position = dec64 (f ! 6)\<rparr>"

definition encode_fd :: "fd_descriptor \<Rightarrow> bytes" where
  "encode_fd d = concat (fd_fields d)"

definition decode_fd :: "bytes \<Rightarrow> fd_descriptor" where
  "decode_fd bs = fd_of_fields (split_fields fd_layout bs)"

definition kernel_map_layout :: "nat list" where
  "kernel_map_layout = [8, 8, KSNAP_KERNEL_MAP_NAME_LEN]"

definition kernel_map_wf :: "kernel_map \<Rightarrow> bool" where
  "kernel_map_wf km \<longleftrightarrow> length (km_name km) = KSNAP_KERNEL_MAP_NAME_LEN"

definition kernel_map_fields :: "kernel_map \<Rightarrow> bytes list" where
  "kernel_map_fields km = [enc64 (km_start_address km), enc64 (km_size km), km_name km]"

definition kernel_map_of_fields :: "bytes list \<Rightarrow> kernel_map" where
  "kernel_map_of_fields f =
     \<lparr>km_start_address = dec64 (f ! 0), km_size = dec64 (f ! 1), km_name = f ! 2\<rparr>"

definition encode_kernel_map :: "kernel_map \<Rightarrow> bytes" where
  "encode_kernel_map km = concat (kernel_map_fields km)"

definition decode_kernel_map :: "bytes \<Rightarrow> kernel_map" where
  "decode_kernel_map bs = kernel_map_of_fields (split_fields kernel_map_layout bs)"

text \<open>The sizes the code asserts statically, 48 and 32 bytes, and 48 for a kernel mapping.\<close>

definition vma_width :: nat where "vma_width = 48"
definition fd_width :: nat where "fd_width = 32"
definition kernel_map_width :: nat where "kernel_map_width = 48"

interpretation vma_codec: field_struct vma_fields vma_of_fields vma_layout "\<lambda>_. True"
  rewrites "\<And>x. concat (vma_fields x) = encode_vma x"
    and "\<And>bs. vma_of_fields (split_fields vma_layout bs) = decode_vma bs"
    and "sum_list vma_layout = vma_width"
proof -
  show "field_struct vma_fields vma_of_fields vma_layout (\<lambda>_. True)"
    by unfold_locales
      (auto simp: vma_fields_def vma_of_fields_def vma_layout_def map_eq_Cons_conv num_enc_dec)
qed (auto simp: encode_vma_def decode_vma_def vma_layout_def vma_width_def)

interpretation fd_codec: field_struct fd_fields fd_of_fields fd_layout "\<lambda>_. True"
  rewrites "\<And>x. concat (fd_fields x) = encode_fd x"
    and "\<And>bs. fd_of_fields (split_fields fd_layout bs) = decode_fd bs"
    and "sum_list fd_layout = fd_width"
proof -
  show "field_struct fd_fields fd_of_fields fd_layout (\<lambda>_. True)"
    by unfold_locales
      (auto simp: fd_fields_def fd_of_fields_def fd_layout_def map_eq_Cons_conv num_enc_dec)
qed (auto simp: encode_fd_def decode_fd_def fd_layout_def fd_width_def)

interpretation kernel_map_codec:
  field_struct kernel_map_fields kernel_map_of_fields kernel_map_layout kernel_map_wf
  rewrites "\<And>x. concat (kernel_map_fields x) = encode_kernel_map x"
    and "\<And>bs. kernel_map_of_fields (split_fields kernel_map_layout bs) = decode_kernel_map bs"
    and "sum_list kernel_map_layout = kernel_map_width"
proof -
  show "field_struct kernel_map_fields kernel_map_of_fields kernel_map_layout kernel_map_wf"
    by unfold_locales
      (auto simp: kernel_map_fields_def kernel_map_of_fields_def kernel_map_layout_def
        kernel_map_wf_def map_eq_Cons_conv num_enc_dec)
qed (auto simp: encode_kernel_map_def decode_kernel_map_def kernel_map_layout_def
    kernel_map_width_def KSNAP_KERNEL_MAP_NAME_LEN_def)

subsection \<open>The header\<close>

definition header_layout :: "nat list" where
  "header_layout =
     [KSNAP_MAGIC_LEN, 4, 4, 8, 8, 8, 8, 4, PATH_MAX, 4, KSNAP_MAX_KERNEL_MAPS * kernel_map_width,
      216, 8, 4, 4, 8, 4, 4]"

definition header_fields :: "ksnap_dump_header \<Rightarrow> bytes list" where
  "header_fields h =
     [dh_magic h, enc32 (dh_version h), enc32 (dh_vma_count h), enc64 (dh_vma_table_offset h),
      enc64 (dh_path_pool_offset h), enc64 (dh_path_pool_size h), enc64 (dh_data_offset h),
      enc32 (dh_exe_path_len h), dh_exe_path h, enc32 (dh_kernel_map_count h),
      encode_items encode_kernel_map (dh_kernel_maps h), encode_regs (dh_regs h),
      enc64 (dh_xstate_offset h), enc32 (dh_xstate_size h), enc32 (dh_xstate_reserved h),
      enc64 (dh_fd_table_offset h), enc32 (dh_fd_count h), enc32 (dh_fd_reserved h)]"

definition header_of_fields :: "bytes list \<Rightarrow> ksnap_dump_header" where
  "header_of_fields f =
     \<lparr>dh_magic = f ! 0, dh_version = dec32 (f ! 1), dh_vma_count = dec32 (f ! 2),
      dh_vma_table_offset = dec64 (f ! 3), dh_path_pool_offset = dec64 (f ! 4),
      dh_path_pool_size = dec64 (f ! 5), dh_data_offset = dec64 (f ! 6),
      dh_exe_path_len = dec32 (f ! 7), dh_exe_path = f ! 8, dh_kernel_map_count = dec32 (f ! 9),
      dh_kernel_maps =
        decode_items decode_kernel_map kernel_map_width KSNAP_MAX_KERNEL_MAPS (f ! 10),
      dh_regs = decode_regs (f ! 11), dh_xstate_offset = dec64 (f ! 12),
      dh_xstate_size = dec32 (f ! 13), dh_xstate_reserved = dec32 (f ! 14),
      dh_fd_table_offset = dec64 (f ! 15), dh_fd_count = dec32 (f ! 16),
      dh_fd_reserved = dec32 (f ! 17)\<rparr>"

definition header_wf :: "ksnap_dump_header \<Rightarrow> bool" where
  "header_wf h \<longleftrightarrow> length (dh_magic h) = KSNAP_MAGIC_LEN \<and> length (dh_exe_path h) = PATH_MAX \<and>
     length (dh_kernel_maps h) = KSNAP_MAX_KERNEL_MAPS \<and> list_all kernel_map_wf (dh_kernel_maps h)"

definition encode_header :: "ksnap_dump_header \<Rightarrow> bytes" where
  "encode_header h = concat (header_fields h)"

definition decode_header :: "bytes \<Rightarrow> ksnap_dump_header" where
  "decode_header bs = header_of_fields (split_fields header_layout bs)"

text \<open>\<open>_Static_assert (sizeof (ksnap_dump_header_t) == 4592)\<close>\<close>

definition header_width :: nat where "header_width = 4592"

interpretation header_codec: field_struct header_fields header_of_fields header_layout header_wf
  rewrites "\<And>x. concat (header_fields x) = encode_header x"
    and "\<And>bs. header_of_fields (split_fields header_layout bs) = decode_header bs"
    and "sum_list header_layout = header_width"
proof -
  show "field_struct header_fields header_of_fields header_layout header_wf"
  proof
    fix h assume wf: "header_wf h"
    have maps: "length (encode_items encode_kernel_map (dh_kernel_maps h)) =
        KSNAP_MAX_KERNEL_MAPS * kernel_map_width"
      using wf by (simp add: header_wf_def kernel_map_codec.length_encode_items)
    show "map length (header_fields h) = header_layout"
      using wf maps by (simp add: header_fields_def header_layout_def header_wf_def regs_codec.enc_length)
    have "decode_items decode_kernel_map kernel_map_width KSNAP_MAX_KERNEL_MAPS
        (encode_items encode_kernel_map (dh_kernel_maps h)) = dh_kernel_maps h"
      using wf kernel_map_codec.decode_encode_items[of "dh_kernel_maps h" "[]"]
      by (simp add: header_wf_def)
    then show "header_of_fields (header_fields h) = h"
      by (simp add: header_of_fields_def header_fields_def regs_codec.dec_enc)
  next
    fix fs :: "bytes list" assume lens: "map length fs = header_layout"
    have maps: "encode_items encode_kernel_map
        (decode_items decode_kernel_map kernel_map_width KSNAP_MAX_KERNEL_MAPS (fs ! 10)) = fs ! 10"
      "list_all kernel_map_wf
        (decode_items decode_kernel_map kernel_map_width KSNAP_MAX_KERNEL_MAPS (fs ! 10))"
      using lens
      by (auto simp: header_layout_def map_eq_Cons_conv
          intro!: kernel_map_codec.encode_decode_items kernel_map_codec.decode_items_wf)
    then show "header_fields (header_of_fields fs) = fs"
      using lens by (auto simp: header_fields_def header_of_fields_def header_layout_def
          map_eq_Cons_conv num_enc_dec regs_codec.enc_dec)
    show "header_wf (header_of_fields fs)"
      using lens maps by (auto simp: header_wf_def header_of_fields_def header_layout_def
          map_eq_Cons_conv)
  qed
qed (auto simp: encode_header_def decode_header_def header_layout_def header_width_def
    KSNAP_MAGIC_LEN_def PATH_MAX_def KSNAP_MAX_KERNEL_MAPS_def kernel_map_width_def)

text \<open>The descriptor number of an entry, an \<open>int32_t\<close>; -1 in \<open>dup_of\<close> stands for none.\<close>

definition fd_number :: "fd_descriptor \<Rightarrow> int" where
  "fd_number d = sint (fdd_fd d)"

end
