(* ===== verification/Reader.thy ===== *)
theory Reader
  imports DumpFormat
begin

unbundle bit_operations_syntax

text \<open>
  The validating half of \<open>src/restorer.c\<close>: \<open>read_snapshot_metadata\<close> and \<open>read_fd_table\<close>. The
  snapshot is the bytes its stream delivers; they may be fewer than \<open>fstat\<close> reported. Everything
  here happens before the fork.
\<close>

section \<open>Flags\<close>

definition O_CREAT :: u32 where "O_CREAT = 0x40"
definition O_EXCL :: u32 where "O_EXCL = 0x80"
definition O_TRUNC :: u32 where "O_TRUNC = 0x200"
definition O_DIRECTORY :: u32 where "O_DIRECTORY = 0x10000"
definition O_TMPFILE :: u32 where "O_TMPFILE = 0x410000"
definition O_CLOEXEC :: u32 where "O_CLOEXEC = 0x80000"
definition O_PATH :: u32 where "O_PATH = 0x200000"

definition KSNAP_FD_FORBIDDEN_FLAGS :: u32 where
  "KSNAP_FD_FORBIDDEN_FLAGS = O_CREAT OR O_EXCL OR O_TRUNC OR (O_TMPFILE AND NOT O_DIRECTORY)"

definition PROT_ALL :: u32 where "PROT_ALL = 7" \<comment> \<open>\<open>PROT_READ | PROT_WRITE | PROT_EXEC\<close>\<close>

section \<open>Reading at an offset\<close>

text \<open>\<open>fseek (handle, (long) offset, SEEK_SET)\<close> and an \<open>fread\<close> that has to deliver \<open>n\<close> bytes. An
  offset that is negative as a \<open>long\<close> is refused; one past the end leaves nothing to read.\<close>

definition read_at :: "bytes \<Rightarrow> u64 \<Rightarrow> nat \<Rightarrow> bytes option" where
  "read_at content offset n =
     (if sint offset < 0 then None
      else (let b = take n (drop (unat offset) content)
            in if length b = n then Some b else None))"

definition fits_in_file :: "u64 \<Rightarrow> u64 \<Rightarrow> u64 \<Rightarrow> bool" where
  "fits_in_file offset sz file_size \<longleftrightarrow> sz \<le> file_size \<and> offset \<le> file_size - sz"

section \<open>The descriptor table\<close>

definition compare_fd_number :: "u32 \<Rightarrow> fd_descriptor \<Rightarrow> int" where
  "compare_fd_number key element =
     (if sint key > sint (fdd_fd element) then 1 else 0) -
     (if sint key < sint (fdd_fd element) then 1 else 0)"

text \<open>\<open>bsearch\<close> of the C library over the entries from \<open>l\<close> up to and without \<open>u\<close>\<close>

function bsearch_fd :: "u32 \<Rightarrow> fd_descriptor list \<Rightarrow> nat \<Rightarrow> nat \<Rightarrow> bool" where
  "bsearch_fd key fds l u =
     (if l < u then
        (let i = (l + u) div 2; c = compare_fd_number key (fds ! i)
         in if c < 0 then bsearch_fd key fds l i
            else if c > 0 then bsearch_fd key fds (i + 1) u
            else True)
      else False)"
  by pat_completeness auto
termination
  by (relation "measure (\<lambda>(key, fds, l, u). u - l)") auto

declare bsearch_fd.simps [simp del]

text \<open>The checks of one entry, in the order of the code; \<open>front\<close> are the entries in front of
  it.\<close>

definition check_fd_entry :: "bytes \<Rightarrow> u64 \<Rightarrow> fd_descriptor list \<Rightarrow> fd_descriptor \<Rightarrow> bool" where
  "check_fd_entry pool path_pool_size front entry =
     (if sint (fdd_fd entry) \<le> 2 then False
      else if front \<noteq> [] \<and> sint (fdd_fd entry) \<le> sint (fdd_fd (last front)) then False
      else if fdd_dup_of entry \<noteq> -1 \<and> \<not> bsearch_fd (fdd_dup_of entry) front 0 (length front)
      then False
      else if fdd_flags entry AND KSNAP_FD_FORBIDDEN_FLAGS \<noteq> 0 then False
      else if fdd_path_len entry = 0 \<or> unat (fdd_path_len entry) \<ge> PATH_MAX \<or>
        (ucast (fdd_path_offset entry) :: u64) \<ge> path_pool_size \<or>
        (ucast (fdd_path_len entry) :: u64) \<ge> path_pool_size - ucast (fdd_path_offset entry)
      then False
      else
        (let path = drop (unat (fdd_path_offset entry)) pool; n = unat (fdd_path_len entry)
         in path ! n = NUL \<and> NUL \<notin> set (take n path)))"

fun check_fd_table :: "bytes \<Rightarrow> u64 \<Rightarrow> fd_descriptor list \<Rightarrow> fd_descriptor list \<Rightarrow> bool" where
  "check_fd_table pool path_pool_size front [] = True"
| "check_fd_table pool path_pool_size front (entry # rest) =
     (check_fd_entry pool path_pool_size front entry \<and>
      check_fd_table pool path_pool_size (front @ [entry]) rest)"

definition read_fd_table ::
    "'w kernel \<Rightarrow> bytes \<Rightarrow> ksnap_dump_header \<Rightarrow> u64 \<Rightarrow> 'w machine \<Rightarrow>
      (fd_descriptor list \<times> bytes) rc \<times> 'w machine" where
  "read_fd_table k content header file_size m =
     (if dh_fd_count header = 0 then (OK ([], []), m)
      else
        (let table_size = ucast (dh_fd_count header) * word_of_nat fd_width;
             n = unat (dh_fd_count header); pool_n = unat (dh_path_pool_size header)
         in if \<not> fits_in_file (dh_fd_table_offset header) table_size file_size \<or>
              \<not> fits_in_file (dh_path_pool_offset header) (dh_path_pool_size header) file_size
            then (ERROR, m)
            else if dh_path_pool_size header = 0 then (ERROR, m)
            else
              (let (fds_ok, m1) = sys_alloc k (unat table_size) m;
                   (pool_ok, m2) = sys_alloc k pool_n m1
               in if \<not> fds_ok \<or> \<not> pool_ok then (ERROR, m2)
                  else
                    (case read_at content (dh_fd_table_offset header) (n * fd_width) of
                       None \<Rightarrow> (ERROR, m2)
                     | Some table \<Rightarrow>
                         (case read_at content (dh_path_pool_offset header) pool_n of
                            None \<Rightarrow> (ERROR, m2)
                          | Some pool \<Rightarrow>
                              (let fds = decode_items decode_fd fd_width n table
                               in if check_fd_table pool (dh_path_pool_size header) [] fds
                                  then (OK (fds, pool), m2) else (ERROR, m2)))))))"

section \<open>The whole metadata\<close>

record snapshot_metadata =
  sm_header :: ksnap_dump_header
  sm_vmas :: "vma_descriptor list"
  sm_xstate :: bytes
  sm_fds :: "fd_descriptor list"
  sm_pool :: bytes

text \<open>The checks of the header alone, before \<open>fstat\<close>.\<close>

definition check_header :: "ksnap_dump_header \<Rightarrow> bool" where
  "check_header header \<longleftrightarrow>
     dh_magic header = KSNAP_MAGIC \<and> dh_version header = KSNAP_FORMAT_VERSION \<and>
     dh_vma_count header \<noteq> 0 \<and> unat (dh_kernel_map_count header) \<le> KSNAP_MAX_KERNEL_MAPS \<and>
     dh_exe_path_len header \<noteq> 0 \<and> unat (dh_exe_path_len header) < PATH_MAX"

text \<open>The checks against the size of the file. The sums wrap around.\<close>

definition check_extent :: "ksnap_dump_header \<Rightarrow> u64 \<Rightarrow> bool" where
  "check_extent header st_size \<longleftrightarrow>
     unat (dh_xstate_size header) \<ge> KSNAP_XSTATE_MIN_SIZE \<and>
     unat (dh_xstate_size header) < KSNAP_XSTATE_MAX_SIZE \<and>
     dh_xstate_offset header + ucast (dh_xstate_size header) \<le> st_size \<and>
     dh_vma_table_offset header + ucast (dh_vma_count header) * word_of_nat vma_width \<le> st_size \<and>
     dh_data_offset header \<le> st_size"

definition check_vma :: "u64 \<Rightarrow> vma_descriptor \<Rightarrow> bool" where
  "check_vma st_size vma \<longleftrightarrow>
     vma_prot vma AND NOT PROT_ALL = 0 \<and> vma_data_offset vma + vma_size vma \<le> st_size"

definition terminate_exe_path :: "ksnap_dump_header \<Rightarrow> ksnap_dump_header" where
  "terminate_exe_path header =
     header\<lparr>dh_exe_path := (dh_exe_path header)[unat (dh_exe_path_len header) := NUL]\<rparr>"

definition read_snapshot_metadata ::
    "'w kernel \<Rightarrow> bytes \<Rightarrow> 'w machine \<Rightarrow> snapshot_metadata rc \<times> 'w machine" where
  "read_snapshot_metadata k content m =
     (if length content < header_width then (ERROR, m) else
      let header = decode_header (take header_width content) in
      if \<not> check_header header then (ERROR, m) else
      let header = terminate_exe_path header in
      case sys_int k Fstat m of
        (Inl e, m1) \<Rightarrow> (ERROR, m1)
      | (Inr size_of_file, m1) \<Rightarrow>
      let st_size = word_of_int size_of_file;
          n = unat (dh_vma_count header) in
      if \<not> check_extent header st_size then (ERROR, m1) else
      let (vmas_ok, m2) = sys_alloc k (n * vma_width) m1 in
      if \<not> vmas_ok then (ERROR, m2) else
      (case read_at content (dh_vma_table_offset header) (n * vma_width) of
         None \<Rightarrow> (ERROR, m2)
       | Some table \<Rightarrow>
      let vmas = decode_items decode_vma vma_width n table in
      if \<not> list_all (check_vma st_size) vmas then (ERROR, m2) else
      let xstate_n = unat (dh_xstate_size header);
          (xstate_ok, m3) = sys_alloc k xstate_n m2 in
      if \<not> xstate_ok then (ERROR, m3) else
      (case read_at content (dh_xstate_offset header) xstate_n of
         None \<Rightarrow> (ERROR, m3)
       | Some xstate \<Rightarrow>
      (case read_fd_table k content header st_size m3 of
         (ERROR, m4) \<Rightarrow> (ERROR, m4)
       | (OK (fds, pool), m4) \<Rightarrow>
           (OK \<lparr>sm_header = header, sm_vmas = vmas, sm_xstate = xstate, sm_fds = fds,
                sm_pool = pool\<rparr>, m4)))))"

section \<open>Bounds of the file\<close>

text \<open>The comparison that cannot wrap, and the sums that can.\<close>

lemma fits_in_file_nat: "fits_in_file offset sz file_size \<longleftrightarrow> unat offset + unat sz \<le> unat file_size"
  by (auto simp: fits_in_file_def word_le_nat_alt unat_sub)

lemma read_at_Some:
  "read_at content offset n = Some b \<Longrightarrow> b = take n (drop (unat offset) content) \<and> length b = n"
  by (auto simp: read_at_def Let_def split: if_splits)

lemma read_at_inside:
  "0 \<le> sint offset \<Longrightarrow> unat offset + n \<le> length content \<Longrightarrow>
   read_at content offset n = Some (take n (drop (unat offset) content))"
  by (simp add: read_at_def Let_def)

section \<open>The descriptor table\<close>

lemma sint_inj: "sint (x :: u32) = sint y \<longleftrightarrow> x = y"
  by (metis signed_word_eqI)

lemma compare_fd_number_sign:
  "compare_fd_number key d < 0 \<longleftrightarrow> sint key < fd_number d"
  "compare_fd_number key d > 0 \<longleftrightarrow> fd_number d < sint key"
  by (auto simp: compare_fd_number_def fd_number_def)

abbreviation ascending :: "fd_descriptor list \<Rightarrow> bool" where
  "ascending fds \<equiv> sorted_wrt (<) (map fd_number fds)"

lemma ascending_nth: "ascending fds \<Longrightarrow> i < j \<Longrightarrow> j < length fds \<Longrightarrow> fd_number (fds ! i) < fd_number (fds ! j)"
  using sorted_wrt_nth_less[of "(<)" "map fd_number fds" i j] by simp

lemma bsearch_fd_range:
  "ascending fds \<Longrightarrow> u \<le> length fds \<Longrightarrow>
   bsearch_fd key fds l u \<longleftrightarrow> (\<exists>i. l \<le> i \<and> i < u \<and> fdd_fd (fds ! i) = key)"
proof (induction key fds l u rule: bsearch_fd.induct)
  case (1 key fds l u)
  define i where "i = (l + u) div 2"
  show ?case
  proof (cases "l < u")
    case False
    then show ?thesis by (subst bsearch_fd.simps) auto
  next
    case True
    then have i: "l \<le> i" "i < u" by (auto simp: i_def)
    have step: "bsearch_fd key fds l u =
        (if sint key < fd_number (fds ! i) then bsearch_fd key fds l i
         else if fd_number (fds ! i) < sint key then bsearch_fd key fds (i + 1) u else True)"
      using True by (subst bsearch_fd.simps) (simp add: Let_def compare_fd_number_sign flip: i_def)
    have left: "bsearch_fd key fds l i \<longleftrightarrow> (\<exists>j. l \<le> j \<and> j < i \<and> fdd_fd (fds ! j) = key)"
      if "sint key < fd_number (fds ! i)"
      using 1 True i that by (intro "1.IH"(1)[OF _ i_def HOL.refl]) (auto simp: compare_fd_number_sign)
    have right: "bsearch_fd key fds (i + 1) u \<longleftrightarrow> (\<exists>j. i + 1 \<le> j \<and> j < u \<and> fdd_fd (fds ! j) = key)"
      if "fd_number (fds ! i) < sint key"
      using 1 True i that
      by (intro "1.IH"(2)[OF _ i_def HOL.refl]) (auto simp: compare_fd_number_sign)
    have below: "fd_number (fds ! j) < fd_number (fds ! i)" if "j < i" for j
      using ascending_nth[OF "1.prems"(1) that] i "1.prems"(2) by simp
    have above: "fd_number (fds ! i) < fd_number (fds ! j)" if "i < j" "j < u" for j
      using ascending_nth[OF "1.prems"(1) that(1)] that "1.prems"(2) by simp
    have at: "fd_number (fds ! j) = sint key" if "fdd_fd (fds ! j) = key" for j
      using that by (simp add: fd_number_def)
    consider "sint key < fd_number (fds ! i)" | "fd_number (fds ! i) < sint key"
      | "fd_number (fds ! i) = sint key" by linarith
    then show ?thesis
    proof cases
      case 1
      have "j < i" if "j < u" "fdd_fd (fds ! j) = key" for j
        using at[OF that(2)] above[of j] that(1) 1 by (cases i j rule: linorder_cases) auto
      then show ?thesis using 1 step left i by fastforce
    next
      case 2
      then have "bsearch_fd key fds l u \<longleftrightarrow> (\<exists>j. i < j \<and> j < u \<and> fdd_fd (fds ! j) = key)"
        using 2 step right by (simp add: Suc_le_eq)
      moreover have "i < j" if "fdd_fd (fds ! j) = key" for j
        using at[OF that] below[of j] 2 by (cases i j rule: linorder_cases) auto
      ultimately show ?thesis by (metis i(1) less_imp_le_nat le_trans)
    next
      case 3
      then have "fdd_fd (fds ! i) = key" by (simp add: fd_number_def sint_inj)
      then show ?thesis using 3 step i by auto
    qed
  qed
qed

lemma bsearch_fd_finds:
  "ascending fds \<Longrightarrow> bsearch_fd key fds 0 (length fds) \<longleftrightarrow> key \<in> fdd_fd ` set fds"
  by (subst bsearch_fd_range) (force simp: in_set_conv_nth image_iff)+

text \<open>What an accepted table is: numbers past stdio in ascending order, every copy after the entry
  it is a copy of, no flag that would create or truncate a file, every path with its terminator
  inside the pool.\<close>

definition fd_entry_valid :: "bytes \<Rightarrow> fd_descriptor \<Rightarrow> bool" where
  "fd_entry_valid pool d \<longleftrightarrow> 2 < fd_number d \<and> fdd_flags d AND KSNAP_FD_FORBIDDEN_FLAGS = 0 \<and>
     (\<exists>path. path \<noteq> [] \<and> length path < PATH_MAX \<and> unat (fdd_path_len d) = length path \<and>
        string_at pool (unat (fdd_path_offset d)) path)"

definition fd_table_valid :: "bytes \<Rightarrow> fd_descriptor list \<Rightarrow> bool" where
  "fd_table_valid pool fds \<longleftrightarrow> ascending fds \<and> list_all (fd_entry_valid pool) fds \<and>
     (\<forall>i < length fds. fdd_dup_of (fds ! i) = -1 \<or> fdd_dup_of (fds ! i) \<in> fdd_fd ` set (take i fds))"

lemma fd_table_valid_Nil [simp]: "fd_table_valid pool []"
  by (simp add: fd_table_valid_def)

lemma fd_table_valid_snoc:
  "fd_table_valid pool (fds @ [d]) \<longleftrightarrow> fd_table_valid pool fds \<and> fd_entry_valid pool d \<and>
     (fds = [] \<or> fd_number (last fds) < fd_number d) \<and>
     (fdd_dup_of d = -1 \<or> fdd_dup_of d \<in> fdd_fd ` set fds)"
proof -
  have asc: "ascending (fds @ [d]) \<longleftrightarrow> ascending fds \<and> (fds = [] \<or> fd_number (last fds) < fd_number d)"
  proof (cases fds rule: rev_cases)
    case (snoc ys y)
    then show ?thesis by (fastforce simp: sorted_wrt_append)
  qed simp
  have dup: "(\<forall>i < length (fds @ [d]). fdd_dup_of ((fds @ [d]) ! i) = -1 \<or>
        fdd_dup_of ((fds @ [d]) ! i) \<in> fdd_fd ` set (take i (fds @ [d]))) \<longleftrightarrow>
      (\<forall>i < length fds. fdd_dup_of (fds ! i) = -1 \<or> fdd_dup_of (fds ! i) \<in> fdd_fd ` set (take i fds)) \<and>
      (fdd_dup_of d = -1 \<or> fdd_dup_of d \<in> fdd_fd ` set fds)"
    by (simp add: All_less_Suc nth_append cong: conj_cong) auto
  show ?thesis unfolding fd_table_valid_def asc dup by auto
qed

lemma fd_table_valid_append: "fd_table_valid pool (fds @ rest) \<Longrightarrow> fd_table_valid pool fds"
proof (induction rest rule: rev_induct)
  case (snoc d rest)
  then show ?case using fd_table_valid_snoc[of pool "fds @ rest" d] by simp
qed simp

text \<open>The checks of the path of an entry, without the subtractions.\<close>

lemma check_path:
  fixes off len :: u32 and path_pool_size :: u64
  assumes "unat path_pool_size = length pool"
  shows "\<not> (len = 0 \<or> unat len \<ge> PATH_MAX \<or> (ucast off :: u64) \<ge> path_pool_size \<or>
            (ucast len :: u64) \<ge> path_pool_size - ucast off) \<and>
         drop (unat off) pool ! unat len = NUL \<and> NUL \<notin> set (take (unat len) (drop (unat off) pool)) \<longleftrightarrow>
         (\<exists>path. path \<noteq> [] \<and> length path < PATH_MAX \<and> unat len = length path \<and>
            string_at pool (unat off) path)" (is "?l \<longleftrightarrow> ?r")
proof -
  have off: "unat (ucast off :: u64) = unat off" and len: "unat (ucast len :: u64) = unat len"
    by (simp_all add: unat_ucast_u32)
  have bounds: "\<not> (len = 0 \<or> unat len \<ge> PATH_MAX \<or> (ucast off :: u64) \<ge> path_pool_size \<or>
            (ucast len :: u64) \<ge> path_pool_size - ucast off) \<longleftrightarrow>
      0 < unat len \<and> unat len < PATH_MAX \<and> unat off + unat len < length pool"
    using assms by (auto simp: word_le_nat_alt unat_sub off len unat_gt_0 not_le)
  show ?thesis
  proof
    assume ?l
    then show ?r
      using bounds by (intro exI[of _ "take (unat len) (drop (unat off) pool)"]) (auto simp: string_at_iff)
  next
    assume ?r
    then show ?l using bounds by (auto simp: string_at_iff)
  qed
qed

lemma check_fd_entry_iff:
  assumes "unat path_pool_size = length pool" "fd_table_valid pool front"
  shows "check_fd_entry pool path_pool_size front entry \<longleftrightarrow> fd_table_valid pool (front @ [entry])"
proof -
  have "bsearch_fd (fdd_dup_of entry) front 0 (length front) \<longleftrightarrow> fdd_dup_of entry \<in> fdd_fd ` set front"
    using assms(2) by (intro bsearch_fd_finds) (simp add: fd_table_valid_def)
  moreover have "check_fd_entry pool path_pool_size front entry \<longleftrightarrow>
      \<not> sint (fdd_fd entry) \<le> 2 \<and> \<not> (front \<noteq> [] \<and> sint (fdd_fd entry) \<le> sint (fdd_fd (last front))) \<and>
      \<not> (fdd_dup_of entry \<noteq> -1 \<and> \<not> bsearch_fd (fdd_dup_of entry) front 0 (length front)) \<and>
      fdd_flags entry AND KSNAP_FD_FORBIDDEN_FLAGS = 0 \<and>
      (\<exists>path. path \<noteq> [] \<and> length path < PATH_MAX \<and> unat (fdd_path_len entry) = length path \<and>
         string_at pool (unat (fdd_path_offset entry)) path)"
    unfolding check_path[OF assms(1), symmetric] check_fd_entry_def Let_def if_bool_eq_conj
    by blast
  ultimately show ?thesis
    using assms(2) unfolding fd_table_valid_snoc fd_entry_valid_def fd_number_def
    by (simp only: not_le de_Morgan_conj not_not) blast
qed

lemma check_fd_table_iff:
  assumes "unat path_pool_size = length pool" "fd_table_valid pool front"
  shows "check_fd_table pool path_pool_size front rest \<longleftrightarrow> fd_table_valid pool (front @ rest)"
  using assms(2)
proof (induction rest arbitrary: front)
  case (Cons entry rest)
  note one = check_fd_entry_iff[OF assms(1) Cons.prems, of entry]
  show ?case
  proof (cases "fd_table_valid pool (front @ [entry])")
    case True
    then show ?thesis using one Cons.IH[of "front @ [entry]"] by simp
  next
    case False
    then have "\<not> fd_table_valid pool (front @ entry # rest)"
      using fd_table_valid_append[of pool "front @ [entry]" rest] by auto
    then show ?thesis using one False by simp
  qed
qed simp

section \<open>Accepted metadata\<close>

lemma read_fd_table_entries:
  assumes "read_fd_table k content header file_size m = (OK (fds, pool), m')" "dh_fd_count header \<noteq> 0"
  obtains "fd_table_valid pool fds" "length fds = unat (dh_fd_count header)"
    "dh_path_pool_size header \<noteq> 0"
    "unat (dh_path_pool_offset header) + length pool \<le> unat file_size"
    "unat (dh_path_pool_offset header) + length pool \<le> length content"
    "pool = take (unat (dh_path_pool_size header)) (drop (unat (dh_path_pool_offset header)) content)"
    "fds = decode_items decode_fd fd_width (unat (dh_fd_count header))
         (take (unat (dh_fd_count header) * fd_width) (drop (unat (dh_fd_table_offset header)) content))"
proof -
  let ?n = "unat (dh_fd_count header)" and ?pool_n = "unat (dh_path_pool_size header)"
  from assms obtain table where
    fits: "fits_in_file (dh_path_pool_offset header) (dh_path_pool_size header) file_size"
      "dh_path_pool_size header \<noteq> 0"
    and reads: "read_at content (dh_fd_table_offset header) (?n * fd_width) = Some table"
      "read_at content (dh_path_pool_offset header) ?pool_n = Some pool"
    and fds: "fds = decode_items decode_fd fd_width ?n table"
    and check: "check_fd_table pool (dh_path_pool_size header) [] fds"
    by (auto simp: read_fd_table_def Let_def split: if_splits prod.splits option.splits)
  note table = read_at_Some[OF reads(1)] and pool = read_at_Some[OF reads(2)]
  have "fd_table_valid pool fds"
    using check_fd_table_iff[OF conjunct2[OF pool, symmetric], of "[]" fds] check by simp
  moreover have "?pool_n \<noteq> 0" using fits(2) by (simp add: unat_eq_zero)
  then have "unat (dh_path_pool_offset header) + length pool \<le> length content"
    using pool by auto
  ultimately show ?thesis
    using that fits pool table fds by (simp add: fits_in_file_nat)
qed

lemma read_fd_table_valid:
  assumes "read_fd_table k content header file_size m = (OK (fds, pool), m')"
  shows "fd_table_valid pool fds \<and> length fds = unat (dh_fd_count header)"
proof (cases "dh_fd_count header = 0")
  case False
  show ?thesis by (rule read_fd_table_entries[OF assms False]) simp
qed (use assms in \<open>auto simp: read_fd_table_def\<close>)

text \<open>An accepted snapshot, step by step: what was read from where, and what was checked.\<close>

lemma terminate_exe_path_fields [simp]:
  "dh_vma_count (terminate_exe_path h) = dh_vma_count h"
  "dh_vma_table_offset (terminate_exe_path h) = dh_vma_table_offset h"
  "dh_xstate_offset (terminate_exe_path h) = dh_xstate_offset h"
  "dh_xstate_size (terminate_exe_path h) = dh_xstate_size h"
  "dh_kernel_maps (terminate_exe_path h) = dh_kernel_maps h"
  "dh_kernel_map_count (terminate_exe_path h) = dh_kernel_map_count h"
  "dh_fd_count (terminate_exe_path h) = dh_fd_count h"
  "dh_exe_path_len (terminate_exe_path h) = dh_exe_path_len h"
  by (simp_all add: terminate_exe_path_def)

lemma read_snapshot_metadata_steps:
  assumes "read_snapshot_metadata k content m = (OK md, m')"
  obtains header st_size table m3 where
    "header = decode_header (take header_width content)" "header_width \<le> length content"
    "check_header header" "sm_header md = terminate_exe_path header"
    "check_extent (sm_header md) st_size" "list_all (check_vma st_size) (sm_vmas md)"
    "read_at content (dh_vma_table_offset header) (unat (dh_vma_count header) * vma_width)
       = Some table"
    "sm_vmas md = decode_items decode_vma vma_width (unat (dh_vma_count header)) table"
    "read_at content (dh_xstate_offset header) (unat (dh_xstate_size header)) = Some (sm_xstate md)"
    "read_fd_table k content (sm_header md) st_size m3 = (OK (sm_fds md, sm_pool md), m')"
proof -
  define header where "header = decode_header (take header_width content)"
  from assms obtain size_of_file m1 where
    1: "header_width \<le> length content" "check_header header"
    and fstat: "sys_int k Fstat m = (Inr size_of_file, m1)"
    unfolding read_snapshot_metadata_def header_def Let_def
    by (auto split: if_splits sum.splits prod.splits)
  obtain vmas_ok m2 where alloc: "sys_alloc k (unat (dh_vma_count header) * vma_width) m1 = (vmas_ok, m2)"
    by fastforce
  obtain xstate_ok m3 where alloc2: "sys_alloc k (unat (dh_xstate_size header)) m2 = (xstate_ok, m3)"
    by fastforce
  show ?thesis
    using assms 1 fstat alloc alloc2 header_def
    unfolding read_snapshot_metadata_def header_def[symmetric] Let_def
    by (auto split: if_splits option.splits rc.splits prod.splits intro!: that[OF header_def])
qed

text \<open>The path of the executable is terminated inside its array, whatever the file holds.\<close>

lemma terminate_exe_path_string:
  assumes "unat (dh_exe_path_len h) < length (dh_exe_path h)"
  shows "NUL \<in> set (dh_exe_path (terminate_exe_path h))"
    "length (c_str (dh_exe_path (terminate_exe_path h))) \<le> unat (dh_exe_path_len h)"
proof -
  let ?n = "unat (dh_exe_path_len h)"
  have split: "dh_exe_path (terminate_exe_path h) =
      take ?n (dh_exe_path h) @ NUL # drop (Suc ?n) (dh_exe_path h)"
    using assms by (simp add: terminate_exe_path_def upd_conv_take_nth_drop)
  show "NUL \<in> set (dh_exe_path (terminate_exe_path h))" by (simp add: split)
  have "length (takeWhile P (xs @ NUL # ys)) \<le> length xs" if "\<not> P NUL" for P xs and ys :: bytes
    using that by (induction xs) auto
  from this[of "\<lambda>c. c \<noteq> NUL" "take ?n (dh_exe_path h)"]
  show "length (c_str (dh_exe_path (terminate_exe_path h))) \<le> ?n"
    using assms by (simp add: split c_str_def)
qed

lemma decode_header_wf: "header_width \<le> length content \<Longrightarrow> header_wf (decode_header (take header_width content))"
  by (rule header_codec.dec_wf) simp

text \<open>Everything the parent knows before it forks.\<close>

definition metadata_safe :: "bytes \<Rightarrow> snapshot_metadata \<Rightarrow> bool" where
  "metadata_safe content md \<longleftrightarrow>
     dh_magic (sm_header md) = KSNAP_MAGIC \<and> dh_version (sm_header md) = KSNAP_FORMAT_VERSION \<and>
     unat (dh_kernel_map_count (sm_header md)) \<le> length (dh_kernel_maps (sm_header md)) \<and>
     NUL \<in> set (dh_exe_path (sm_header md)) \<and> length (c_str (dh_exe_path (sm_header md))) < PATH_MAX \<and>
     sm_vmas md \<noteq> [] \<and> length (sm_vmas md) = unat (dh_vma_count (sm_header md)) \<and>
     vma_width * length (sm_vmas md) \<le> length content \<and>
     list_all (\<lambda>v. vma_prot v AND NOT PROT_ALL = 0) (sm_vmas md) \<and>
     KSNAP_XSTATE_MIN_SIZE \<le> length (sm_xstate md) \<and> length (sm_xstate md) < KSNAP_XSTATE_MAX_SIZE \<and>
     fd_table_valid (sm_pool md) (sm_fds md)"

lemma read_snapshot_metadata_OK:
  assumes "read_snapshot_metadata k content m = (OK md, m')"
  shows "metadata_safe content md"
proof -
  from assms obtain header st_size table m3 where
    h: "header = decode_header (take header_width content)" "header_width \<le> length content"
      "check_header header" "sm_header md = terminate_exe_path header"
    and ext: "check_extent (sm_header md) st_size" "list_all (check_vma st_size) (sm_vmas md)"
    and tab: "read_at content (dh_vma_table_offset header) (unat (dh_vma_count header) * vma_width)
       = Some table"
      "sm_vmas md = decode_items decode_vma vma_width (unat (dh_vma_count header)) table"
    and xs: "read_at content (dh_xstate_offset header) (unat (dh_xstate_size header)) = Some (sm_xstate md)"
    and fds: "read_fd_table k content (sm_header md) st_size m3 = (OK (sm_fds md, sm_pool md), m')"
    by (rule read_snapshot_metadata_steps)
  have wf: "header_wf header" using h decode_header_wf by simp
  then have len: "length (dh_exe_path header) = PATH_MAX" "length (dh_kernel_maps header) = KSNAP_MAX_KERNEL_MAPS"
    by (simp_all add: header_wf_def)
  have exe: "unat (dh_exe_path_len header) < length (dh_exe_path header)"
    using h(3) len by (simp add: check_header_def)
  have "unat (dh_vma_count header) * vma_width \<le> length content"
    using read_at_Some[OF tab(1)] by (metis length_take length_drop min.bounded_iff order_refl diff_le_self order.trans)
  moreover have "unat (dh_vma_count header) \<noteq> 0"
    using h(3) by (simp add: check_header_def unat_eq_zero)
  then have "sm_vmas md \<noteq> []" using tab(2) by (metis length_decode_items list.size(3))
  moreover have "length (sm_xstate md) = unat (dh_xstate_size header)"
    using read_at_Some[OF xs] by blast
  moreover have "list_all (\<lambda>v. vma_prot v AND NOT PROT_ALL = 0) (sm_vmas md)"
    using ext(2) by (auto simp: list_all_iff check_vma_def)
  ultimately show ?thesis
    using h(3,4) ext(1) tab(2) terminate_exe_path_string[OF exe] exe len read_fd_table_valid[OF fds]
    by (simp add: metadata_safe_def check_header_def check_extent_def terminate_exe_path_def mult.commute)
qed

text \<open>While the file is validated only its size is asked for and memory reserved.\<close>

fun validating :: "syscall \<Rightarrow> bool" where
  "validating Fstat = True"
| "validating (Realloc n) = True"
| "validating _ = False"

lemma read_fd_table_validating:
  "read_fd_table k content header sz m = (r, m') \<Longrightarrow> extends validating m0 m \<Longrightarrow> extends validating m0 m'"
  by (auto simp: read_fd_table_def Let_def split: if_splits prod.splits option.splits
      dest!: log_frame.bound(10)[where P=validating])

lemma read_snapshot_metadata_validating:
  "read_snapshot_metadata k content m = (r, m') \<Longrightarrow> extends validating m m'"
  by (auto simp: read_snapshot_metadata_def Let_def
      split: if_splits prod.splits option.splits sum.splits rc.splits
      dest!: log_frame.bound(2,10)[where P=validating] intro: read_fd_table_validating)

end
