(* ===== verification/PathPool.thy ===== *)
theory PathPool
  imports DumpFormat
begin

text \<open>
  The string pool of \<open>src/dumper.c\<close> (\<open>path_pool_t\<close>, \<open>pool_append\<close>): paths one after the other,
  each with its terminator, in one buffer that grows by doubling. The locale \<open>path_store\<close> is
  what the collection of mappings and descriptors relies on.
\<close>

definition PATH_POOL_INITIAL_CAPACITY :: u64 where "PATH_POOL_INITIAL_CAPACITY = 4096"
definition UINT32_MAX :: nat where "UINT32_MAX = 2 ^ 32 - 1"

text \<open>\<open>pool_data\<close> is the part of the buffer that has been written, \<open>pool_size\<close> bytes.\<close>

record path_pool =
  pool_data :: bytes
  pool_size :: u64
  pool_capacity :: u64

definition empty_pool :: path_pool where
  "empty_pool = \<lparr>pool_data = [], pool_size = 0, pool_capacity = 0\<rparr>"

text \<open>\<open>while (new_capacity < needed) new_capacity *= 2;\<close> --- \<open>None\<close> when it does not end.\<close>

partial_function (option) double_capacity :: "u64 \<Rightarrow> u64 \<Rightarrow> u64 option" where
  "double_capacity capacity needed =
     (if capacity < needed then double_capacity (capacity * 2) needed else Some capacity)"

declare double_capacity.simps [code]

definition pool_put :: "path_pool \<Rightarrow> string \<Rightarrow> path_pool \<times> u32" where
  "pool_put pool path =
     (pool\<lparr>pool_data := pool_data pool @ path @ [NUL],
           pool_size := pool_size pool + word_of_nat (length path) + 1\<rparr>,
      ucast (pool_size pool))"

text \<open>The outer \<open>None\<close> is a call that does not return.\<close>

definition pool_append ::
    "'w kernel \<Rightarrow> path_pool \<Rightarrow> string \<Rightarrow> 'w machine \<Rightarrow> ((path_pool \<times> u32) rc \<times> 'w machine) option"
  where
  "pool_append k pool path m =
     (let needed = pool_size pool + word_of_nat (length path) + 1 in
      if unat needed > UINT32_MAX then Some (ERROR, m)
      else if needed > pool_capacity pool then
        do { new_capacity \<leftarrow> double_capacity
               (if pool_capacity pool = 0 then PATH_POOL_INITIAL_CAPACITY
                else pool_capacity pool * 2) needed;
             let (grown, m') = sys_alloc k (unat new_capacity) m;
             Some (if grown then OK (pool_put (pool\<lparr>pool_capacity := new_capacity\<rparr>) path) else ERROR,
                   m') }
      else Some (OK (pool_put pool path), m))"

text \<open>\<open>pool->data + offset\<close> as a C string\<close>

definition pool_path :: "path_pool \<Rightarrow> u32 \<Rightarrow> string" where
  "pool_path pool off = c_str (drop (unat off) (pool_data pool))"

section \<open>Invariant\<close>

definition pool_wf :: "path_pool \<Rightarrow> bool" where
  "pool_wf pool \<longleftrightarrow>
     unat (pool_size pool) = length (pool_data pool) \<and> pool_size pool \<le> pool_capacity pool \<and>
     length (pool_data pool) \<le> UINT32_MAX \<and> unat (pool_capacity pool) < 2 ^ 33 \<and>
     (pool_data pool = [] \<or> last (pool_data pool) = NUL)"

lemma empty_pool_wf [simp]: "pool_wf empty_pool"
  by (simp add: pool_wf_def empty_pool_def)

text \<open>Doubling from a capacity that is not zero ends, at most one doubling past what is needed.\<close>

lemma double_capacity_total:
  assumes "0 < unat capacity" "unat capacity < 2 ^ 34" "unat needed \<le> UINT32_MAX"
  shows "\<exists>c. double_capacity capacity needed = Some c \<and> needed \<le> c \<and>
    unat c \<le> max (unat capacity) (2 * UINT32_MAX)"
  using assms
proof (induction "unat needed - unat capacity" arbitrary: capacity rule: less_induct)
  case less
  show ?case
  proof (cases "capacity < needed")
    case False
    then show ?thesis by (auto simp: double_capacity.simps[of capacity])
  next
    case True
    then have lt: "unat capacity < unat needed" by (simp add: word_less_nat_alt)
    have dbl: "unat (capacity * 2) = 2 * unat capacity"
      using less.prems lt by (simp add: unat_mult_lem[THEN iffD1] UINT32_MAX_def mult.commute
          unat_word_ariths)
    have "\<exists>c. double_capacity (capacity * 2) needed = Some c \<and> needed \<le> c \<and>
        unat c \<le> max (unat (capacity * 2)) (2 * UINT32_MAX)"
      using less.prems lt dbl by (intro less.hyps) (auto simp: UINT32_MAX_def)
    moreover have "unat (capacity * 2) \<le> 2 * UINT32_MAX"
      using dbl lt less.prems by simp
    ultimately show ?thesis
      using True by (auto simp: double_capacity.simps[of capacity])
  qed
qed

lemma needed_unat:
  assumes "pool_wf pool" "length path < PATH_MAX"
  shows "unat (pool_size pool + word_of_nat (length path) + 1) = length (pool_data pool) + length path + 1"
proof -
  have "unat (word_of_nat (length path) :: u64) = length path"
    using assms by (intro unat_of_nat_u64) (simp add: PATH_MAX_def)
  then show ?thesis
    using assms by (simp add: pool_wf_def UINT32_MAX_def PATH_MAX_def unat_word_ariths)
qed

text \<open>What a call that returns \<open>OK\<close> has done, and that every call returns.\<close>

lemma pool_append_cases:
  assumes wf: "pool_wf pool" and len: "length path < PATH_MAX"
  obtains (error) m' where "pool_append k pool path m = Some (ERROR, m')"
      "UINT32_MAX < length (pool_data pool) + length path + 1 \<or> (\<exists>c. 0 < c \<and> c < 2 ^ 33 \<and> \<not> fst (sys_alloc k c m))"
  | (ok) c m' where "pool_append k pool path m = Some (OK (pool_put (pool\<lparr>pool_capacity := c\<rparr>) path), m')"
      "length (pool_data pool) + length path + 1 \<le> unat c" "unat c < 2 ^ 33"
      "length (pool_data pool) + length path + 1 \<le> UINT32_MAX"
proof -
  let ?needed = "pool_size pool + word_of_nat (length path) + 1"
  let ?start = "if pool_capacity pool = 0 then PATH_POOL_INITIAL_CAPACITY else pool_capacity pool * 2"
  note needed = needed_unat[OF wf len]
  consider "unat ?needed > UINT32_MAX" | "unat ?needed \<le> UINT32_MAX" "?needed \<le> pool_capacity pool"
    | "unat ?needed \<le> UINT32_MAX" "\<not> ?needed \<le> pool_capacity pool" by linarith
  then show ?thesis
  proof cases
    case 1
    then show ?thesis using needed by (intro error) (simp_all add: pool_append_def Let_def)
  next
    case 2
    have "pool\<lparr>pool_capacity := pool_capacity pool\<rparr> = pool" by simp
    moreover have "pool_append k pool path m = Some (OK (pool_put pool path), m)"
      unfolding pool_append_def Let_def
      by (simp only: 2(1)[THEN leD] 2(2)[THEN leD] if_False)
    ultimately show ?thesis
      using 2 needed wf ok[of "pool_capacity pool" m] by (simp add: word_le_nat_alt pool_wf_def)
  next
    case 3
    have start: "unat ?start = (if pool_capacity pool = 0 then 4096 else 2 * unat (pool_capacity pool))"
      using wf by (auto simp: pool_wf_def PATH_POOL_INITIAL_CAPACITY_def unat_word_ariths)
    then have "0 < unat ?start" "unat ?start < 2 ^ 34"
      using wf by (auto simp: pool_wf_def unat_gt_0 split: if_splits)
    then obtain c where c: "double_capacity ?start ?needed = Some c"
      "?needed \<le> c" "unat c \<le> max (unat ?start) (2 * UINT32_MAX)"
      using double_capacity_total[of ?start ?needed] 3 by auto
    moreover have "unat (pool_capacity pool) < UINT32_MAX"
      using 3 by (auto simp: word_le_nat_alt)
    ultimately have bound: "unat c < 2 ^ 33"
      using start by (auto simp: UINT32_MAX_def split: if_splits)
    obtain grown m' where alloc: "sys_alloc k (unat c) m = (grown, m')" by fastforce
    have run: "pool_append k pool path m =
        Some (if grown then OK (pool_put (pool\<lparr>pool_capacity := c\<rparr>) path) else ERROR, m')"
      unfolding pool_append_def Let_def
      by (simp only: 3(1)[THEN leD] not_le_imp_less[OF 3(2)] if_False if_True c(1) alloc
          Option.bind.simps prod.case)
    show ?thesis
    proof (cases grown)
      case True
      with 3 run bound c needed show ?thesis
        by (intro ok[of c m']) (simp_all add: word_le_nat_alt)
    next
      case False
      have "0 < unat c" using c(2) needed by (simp add: word_le_nat_alt)
      moreover have "\<not> fst (sys_alloc k (unat c) m)" using alloc False by simp
      ultimately show ?thesis using run False bound by (intro error) auto
    qed
  qed
qed

lemma pool_put_wf:
  assumes wf: "pool_wf pool"
    and len: "length path < PATH_MAX" "length (pool_data pool) + length path + 1 \<le> UINT32_MAX"
    and cap: "length (pool_data pool) + length path + 1 \<le> unat c" "unat c < 2 ^ 33"
    and put: "pool_put (pool\<lparr>pool_capacity := c\<rparr>) path = (pool', off)"
  shows "pool_wf pool'" "pool_data pool' = pool_data pool @ path @ [NUL]"
    "unat off = length (pool_data pool)"
proof -
  have data: "pool_data pool' = pool_data pool @ path @ [NUL]"
    and sz: "pool_size pool' = pool_size pool + word_of_nat (length path) + 1"
    and cap': "pool_capacity pool' = c" and off: "off = ucast (pool_size pool)"
    using put by (auto simp: pool_put_def)
  show "pool_data pool' = pool_data pool @ path @ [NUL]" by (rule data)
  show "pool_wf pool'"
    using needed_unat[OF wf len(1)] len cap
    by (simp add: pool_wf_def data sz cap' word_le_nat_alt)
  show "unat off = length (pool_data pool)"
    using wf by (simp add: off pool_wf_def UINT32_MAX_def unsigned_ucast_eq take_bit_nat_eq_self)
qed

section \<open>The pool as a store of paths\<close>

text \<open>
  What the collection relies on: appending keeps the pool well formed, what was appended is read
  back at the offset returned, and what earlier offsets lead to does not change.
\<close>

locale path_store =
  fixes wf :: "'p \<Rightarrow> bool" and storable :: "string \<Rightarrow> bool"
    and append :: "'p \<Rightarrow> string \<Rightarrow> 'p \<Rightarrow> u32 \<Rightarrow> bool" \<comment> \<open>one step\<close>
    and holds :: "'p \<Rightarrow> u32 \<Rightarrow> string \<Rightarrow> bool"  \<comment> \<open>what an offset leads to\<close>
  assumes append_wf: "wf p \<Longrightarrow> storable s \<Longrightarrow> append p s p' off \<Longrightarrow> wf p'"
    and append_holds: "wf p \<Longrightarrow> storable s \<Longrightarrow> append p s p' off \<Longrightarrow> holds p' off s"
    and append_keeps: "wf p \<Longrightarrow> storable s \<Longrightarrow> append p s p' off \<Longrightarrow> holds p o' t \<Longrightarrow> holds p' o' t"
    and holds_unique: "holds p off s \<Longrightarrow> holds p off t \<Longrightarrow> s = t"
begin

text \<open>A table whose entries point into the store, each with the path it was entered with.\<close>

definition resolves :: "'p \<Rightarrow> (u32 \<times> string) list \<Rightarrow> bool" where
  "resolves p es \<longleftrightarrow> list_all (\<lambda>(off, s). holds p off s) es"

lemma resolves_append:
  "wf p \<Longrightarrow> storable s \<Longrightarrow> append p s p' off \<Longrightarrow> resolves p es \<Longrightarrow> resolves p' (es @ [(off, s)])"
  by (auto simp: resolves_def list_all_iff append_holds append_keeps)

lemma resolves_keeps:
  "wf p \<Longrightarrow> storable s \<Longrightarrow> append p s p' off \<Longrightarrow> resolves p es \<Longrightarrow> resolves p' es"
  by (auto simp: resolves_def list_all_iff append_keeps)

end

text \<open>The string at an offset inside the pool, with its terminator inside too.\<close>

definition pool_holds :: "path_pool \<Rightarrow> u32 \<Rightarrow> string \<Rightarrow> bool" where
  "pool_holds pool off path \<longleftrightarrow> string_at (pool_data pool) (unat off) path"

definition storable_path :: "string \<Rightarrow> bool" where
  "storable_path path \<longleftrightarrow> length path < PATH_MAX \<and> NUL \<notin> set path"

definition appended :: "path_pool \<Rightarrow> string \<Rightarrow> path_pool \<Rightarrow> u32 \<Rightarrow> bool" where
  "appended pool path pool' off \<longleftrightarrow> pool_wf pool' \<and>
     pool_data pool' = pool_data pool @ path @ [NUL] \<and> unat off = length (pool_data pool)"

lemma pool_holds_path: "pool_holds pool off path \<Longrightarrow> pool_path pool off = path"
  by (simp add: pool_holds_def pool_path_def string_at_c_str)

interpretation pool_store: path_store pool_wf storable_path appended pool_holds
proof
  fix p s p' off assume step: "pool_wf p" "storable_path s" "appended p s p' off"
  then show "pool_wf p'" by (simp add: appended_def)
  show "pool_holds p' off s"
    using step by (auto simp: appended_def pool_holds_def string_at_def storable_path_def)
  fix o' t assume "pool_holds p o' t"
  with step show "pool_holds p' o' t"
    by (auto simp: appended_def pool_holds_def string_at_prefix)
qed (metis pool_holds_path)

text \<open>The code's append is such a step, and it always returns.\<close>

lemma pool_append_total:
  assumes "pool_wf pool" "storable_path path"
  shows "\<exists>r m'. pool_append k pool path m = Some (r, m') \<and>
    (\<forall>pool' off. r = OK (pool', off) \<longrightarrow> appended pool path pool' off)"
proof -
  have len: "length path < PATH_MAX" using assms by (simp add: storable_path_def)
  show ?thesis
  proof (rule pool_append_cases[OF assms(1) len, of k m])
    fix c m'
    assume "pool_append k pool path m = Some (OK (pool_put (pool\<lparr>pool_capacity := c\<rparr>) path), m')"
      "length (pool_data pool) + length path + 1 \<le> unat c" "unat c < 2 ^ 33"
      "length (pool_data pool) + length path + 1 \<le> UINT32_MAX"
    moreover obtain pool' off where "pool_put (pool\<lparr>pool_capacity := c\<rparr>) path = (pool', off)"
      by fastforce
    ultimately show ?thesis
      using pool_put_wf[OF assms(1) len, of c pool' off] by (simp add: appended_def)
  qed auto
qed

lemma pool_append_step:
  assumes "pool_append k pool path m = Some (OK (pool', off), m')" "pool_wf pool" "storable_path path"
  shows "appended pool path pool' off"
  using pool_append_total[OF assms(2,3), of k m] assms(1) by auto

context inspection
begin

lemma pool_append: "pool_append k pool path m = Some (r, m') \<Longrightarrow> R m0 m \<Longrightarrow> R m0 m'"
  by (auto simp: pool_append_def Let_def refl split: if_splits prod.splits option.splits bind_splits)
    (fastforce intro: bound refl)+

end

end
