(* ===== verification/Maps.thy ===== *)
theory Maps
  imports Config Sys
begin

unbundle bit_operations_syntax

text \<open>
  \<open>include/maps.h\<close> and \<open>src/maps.c\<close>: one line of \<open>/proc/<pid>/maps\<close>, what the engine does with
  the mapping it describes, and the search for a named mapping.
\<close>

section \<open>Parsing\<close>

definition MAPS_LINE_MAX :: nat where "MAPS_LINE_MAX = PATH_MAX + 128"

record maps_line =
  ml_start :: u64
  ml_end :: u64
  ml_file_offset :: u64
  ml_privileges :: string
  ml_path :: string

definition maps_line_format :: "directive list" where
  "maps_line_format =
     [FHexLong, FLit CHR ''-'', FHexLong, FSpace, FWord 4, FSpace, FHexLong, FSpace, FSkipWord,
      FSpace, FSkipWord, FSpace, FWord (PATH_MAX - 1)]"

text \<open>\<open>None\<close> is \<open>false\<close>; the callers read the structure only after \<open>true\<close>.\<close>

definition parse_maps_line :: "bytes \<Rightarrow> maps_line option" where
  "parse_maps_line line =
     (case sscanf maps_line_format line of
        SUlong lo # SUlong hi # SStr privileges # SUlong offset # rest \<Rightarrow>
          (if length privileges \<noteq> 4 then None
           else if hi \<le> lo then None
           else Some \<lparr>ml_start = lo, ml_end = hi, ml_file_offset = offset,
                      ml_privileges = privileges,
                      ml_path = (case rest of [SStr path] \<Rightarrow> path | _ \<Rightarrow> [])\<rparr>)
      | _ \<Rightarrow> None)"

section \<open>Classification\<close>

definition is_kernel_map :: "string \<Rightarrow> bool" where
  "is_kernel_map path \<longleftrightarrow> path = ''[vdso]'' \<or> starts_with path ''[vvar''"

definition is_dumpable_path :: "string \<Rightarrow> bool" where
  "is_dumpable_path path \<longleftrightarrow>
     (if char_at path 0 \<noteq> CHR ''['' then True
      else path = ''[heap]'' \<or> path = ''[stack]'')"

datatype vma_class = VMA_DUMP | VMA_KERNEL | VMA_SKIP_UNREADABLE | VMA_SKIP_SHARED | VMA_SKIP_PSEUDO

definition classify_maps_line :: "maps_line \<Rightarrow> vma_class" where
  "classify_maps_line parsed =
     (if is_kernel_map (ml_path parsed) then VMA_KERNEL
      else if char_at (ml_privileges parsed) 0 \<noteq> CHR ''r'' then VMA_SKIP_UNREADABLE
      else if char_at (ml_privileges parsed) 3 \<noteq> CHR ''p'' then VMA_SKIP_SHARED
      else if \<not> is_dumpable_path (ml_path parsed) then VMA_SKIP_PSEUDO
      else VMA_DUMP)"

definition PROT_READ :: u32 where "PROT_READ = 1"
definition PROT_WRITE :: u32 where "PROT_WRITE = 2"
definition PROT_EXEC :: u32 where "PROT_EXEC = 4"
definition MAP_SHARED :: u32 where "MAP_SHARED = 1"
definition MAP_PRIVATE :: u32 where "MAP_PRIVATE = 2"

lemmas prot_defs = PROT_READ_def PROT_WRITE_def PROT_EXEC_def

definition perms_to_prot :: "string \<Rightarrow> u32" where
  "perms_to_prot privileges =
     (if char_at privileges 0 = CHR ''r'' then PROT_READ else 0) OR
     (if char_at privileges 1 = CHR ''w'' then PROT_WRITE else 0) OR
     (if char_at privileges 2 = CHR ''x'' then PROT_EXEC else 0)"

definition perms_to_map_flags :: "string \<Rightarrow> u32" where
  "perms_to_map_flags privileges =
     (if char_at privileges 3 = CHR ''p'' then MAP_PRIVATE else MAP_SHARED)"

section \<open>Walking over a maps file\<close>

definition proc_path :: "int \<Rightarrow> string \<Rightarrow> string" where
  "proc_path pid name = ''/proc/'' @ dec_int pid @ ''/'' @ name"

text \<open>The parsed lines, in order; a line that does not parse is skipped by every walk.\<close>

definition maps_lines :: "bytes \<Rightarrow> maps_line list" where
  "maps_lines text = List.map_filter parse_maps_line (stream_lines MAPS_LINE_MAX text)"

fun find_path :: "string \<Rightarrow> maps_line list \<Rightarrow> (u64 \<times> u64) rc" where
  "find_path name [] = ERROR"
| "find_path name (parsed # rest) =
     (if ml_path parsed = name then OK (ml_start parsed, ml_end parsed - ml_start parsed)
      else find_path name rest)"

text \<open>Start and size of the first mapping with this name.\<close>

definition find_named_map ::
    "'w kernel \<Rightarrow> int \<Rightarrow> string \<Rightarrow> 'w machine \<Rightarrow> (u64 \<times> u64) rc \<times> 'w machine" where
  "find_named_map k pid name m =
     (case sys_text k (OpenText (proc_path pid ''maps'')) m of
        (Inl e, m') \<Rightarrow> (ERROR, m')
      | (Inr (text, err), m') \<Rightarrow> (find_path name (maps_lines text), m'))"

section \<open>Facts\<close>

lemma parse_maps_line_wf:
  assumes "parse_maps_line line = Some p"
  shows "ml_start p < ml_end p" "length (ml_privileges p) = 4" "length (ml_path p) < PATH_MAX"
proof -
  show "ml_start p < ml_end p" "length (ml_privileges p) = 4"
    using assms by (auto simp: parse_maps_line_def split: list.splits scanned.splits if_splits)
  show "length (ml_path p) < PATH_MAX"
    using assms
    by (auto simp: parse_maps_line_def sscanf_def maps_line_format_def PATH_MAX_def Let_def
        min_less_iff_disj split: list.splits scanned.splits if_splits option.splits)
qed

lemma parse_maps_line_no_NUL: "parse_maps_line line = Some p \<Longrightarrow> NUL \<notin> set (ml_path p)"
proof -
  assume parse: "parse_maps_line line = Some p"
  have "ml_path p = [] \<or> SStr (ml_path p) \<in> set (sscanf maps_line_format line)"
    using parse by (auto simp: parse_maps_line_def split: list.splits scanned.splits if_splits)
  then show ?thesis using sscanf_no_NUL by auto
qed

lemma maps_lines_wf:
  "p \<in> set (maps_lines text) \<Longrightarrow> ml_start p < ml_end p \<and> length (ml_privileges p) = 4 \<and>
     length (ml_path p) < PATH_MAX \<and> NUL \<notin> set (ml_path p)"
  by (auto simp: maps_lines_def List.map_filter_def intro: parse_maps_line_wf dest: parse_maps_line_no_NUL)

text \<open>A line as the kernel prints it: the numbers in hexadecimal, one blank between the fields.\<close>

lemma parse_maps_line_fields:
  assumes hex: "list_all (base_digit 16) (lo @ hi @ offset)"
    and nonempty: "lo \<noteq> []" "hi \<noteq> []" "offset \<noteq> []"
    and range: "digits_value 16 lo < 2 ^ 64" "digits_value 16 hi < 2 ^ 64"
      "digits_value 16 offset < 2 ^ 64"
    and privileges: "length privileges = 4" "list_all (\<lambda>c. \<not> isspace c) privileges"
    and device: "device \<noteq> []" "list_all (\<lambda>c. \<not> isspace c) device"
    and inode: "inode \<noteq> []" "list_all (\<lambda>c. \<not> isspace c) inode"
    and y: "isspace y"
    and nul: "NUL \<notin> set (lo @ hi @ offset @ privileges @ device @ inode @ y # r)"
  shows "parse_maps_line (lo @ ''-'' @ hi @ '' '' @ privileges @ '' '' @ offset @ '' '' @
            device @ '' '' @ inode @ y # r) =
    (if digits_value 16 hi \<le> digits_value 16 lo then None
     else Some \<lparr>ml_start = word_of_nat (digits_value 16 lo),
       ml_end = word_of_nat (digits_value 16 hi),
       ml_file_offset = word_of_nat (digits_value 16 offset), ml_privileges = privileges,
       ml_path = (case scan_word (y # r) of None \<Rightarrow> [] | Some (w, _) \<Rightarrow> take (PATH_MAX - 1) w)\<rparr>)"
proof -
  have sep: "\<not> base_digit 16 CHR ''-''" "\<not> base_digit 16 CHR '' ''" "isspace CHR '' ''"
    by (auto simp: base_digit_def digit_val_def isspace_def)
  obtain p0 ps where p: "privileges = p0 # ps" "\<not> isspace p0"
    using privileges by (cases privileges) auto
  obtain o0 os where o: "offset = o0 # os" "\<not> isspace o0"
    using hex nonempty by (cases offset) (auto dest: base_digit_not_space)
  obtain d0 ds where d: "device = d0 # ds" "\<not> isspace d0"
    using device by (cases device) auto
  obtain i0 is0 where i: "inode = i0 # is0" "\<not> isspace i0"
    using inode by (cases inode) auto
  have skip: "dropWhile isspace (CHR '' '' # privileges @ z) = privileges @ z"
    "dropWhile isspace (CHR '' '' # offset @ z) = offset @ z"
    "dropWhile isspace (CHR '' '' # device @ z) = device @ z"
    "dropWhile isspace (CHR '' '' # inode @ z) = inode @ z" for z
    using p o d i sep by auto
  have word: "scan_word (privileges @ CHR '' '' # z) = Some (privileges, CHR '' '' # z)"
    "scan_word (device @ CHR '' '' # z) = Some (device, CHR '' '' # z)"
    "scan_word (inode @ y # z) = Some (inode, y # z)" for z
    using privileges(2) device inode y sep(3) p(1) by (simp_all add: scan_word_token del: append_Cons)
  have last_word: "scan_word (dropWhile isspace (y # r)) = scan_word (y # r)"
    by (rule scan_word_trim)
  have num: "scan_ulong 16 (lo @ CHR ''-'' # z) = Some (word_of_nat (digits_value 16 lo), CHR ''-'' # z)"
    "scan_ulong 16 (hi @ CHR '' '' # z) = Some (word_of_nat (digits_value 16 hi), CHR '' '' # z)"
    "scan_ulong 16 (offset @ CHR '' '' # z) = Some (word_of_nat (digits_value 16 offset), CHR '' '' # z)"
    for z
    using hex nonempty range sep by (auto intro!: scan_ulong_digits)
  have le: "(word_of_nat (digits_value 16 hi) :: u64) \<le> word_of_nat (digits_value 16 lo)
      \<longleftrightarrow> digits_value 16 hi \<le> digits_value 16 lo"
    using range by (simp add: word_le_nat_alt unat_of_nat_u64)
  show ?thesis
    using nul privileges
    by (simp add: parse_maps_line_def sscanf_def c_str_id maps_line_format_def num skip word sep
        le last_word del: dropWhile.simps split: option.splits)
qed

lemma perms_to_prot_range: "perms_to_prot p AND NOT (PROT_READ OR PROT_WRITE OR PROT_EXEC) = 0"
  by (simp add: perms_to_prot_def prot_defs)

context inspection
begin

lemma find_named_map: "find_named_map k pid name m = (r, m') \<Longrightarrow> R m0 m \<Longrightarrow> R m0 m'"
  by (auto simp: find_named_map_def split: prod.splits sum.splits) (fastforce intro: bound refl)+

end

end
