(* ===== verification/Fds.thy ===== *)
theory Fds
  imports Maps
begin

text \<open>
  \<open>include/fds.h\<close> and \<open>src/fds.c\<close>: what the engine does with one open descriptor, and the
  offset and flags of a descriptor out of \<open>/proc/<pid>/fdinfo\<close>.
\<close>

section \<open>Classification\<close>

datatype fd_class =
    FD_DUMP | FD_SKIP_STDIO | FD_SKIP_VOLATILE | FD_SKIP_UNREACHABLE | FD_SKIP_OTHER | FD_UNREADABLE

definition FD_SOCKET :: string where "FD_SOCKET = ''socket:''"
definition FD_PIPE :: string where "FD_PIPE = ''pipe:''"
definition FD_ANON :: string where "FD_ANON = ''anon_inode:''"
definition DELETED_SUFFIX :: string where "DELETED_SUFFIX = '' (deleted)''"

definition STDERR_FILENO :: int where "STDERR_FILENO = 2"

text \<open>\<open>S_ISREG\<close> of \<open><sys/stat.h>\<close>\<close>

definition S_ISREG :: "u32 \<Rightarrow> bool" where
  "S_ISREG st_mode \<longleftrightarrow> st_mode AND 0xF000 = 0x8000"

definition has_deleted_suffix :: "string \<Rightarrow> bool" where
  "has_deleted_suffix path \<longleftrightarrow>
     length path > length DELETED_SUFFIX \<and>
     drop (length path - length DELETED_SUFFIX) path = DELETED_SUFFIX"

definition fd_link :: "int \<Rightarrow> int \<Rightarrow> string" where
  "fd_link pid fd = proc_path pid (''fd/'' @ dec_int fd)"

text \<open>The class, and the target of the link the caller finds in its \<open>path\<close> buffer.\<close>

definition classify_fd ::
    "'w kernel \<Rightarrow> int \<Rightarrow> int \<Rightarrow> 'w machine \<Rightarrow> (fd_class \<times> string) \<times> 'w machine" where
  "classify_fd k pid fd m =
     (if fd \<le> STDERR_FILENO then ((FD_SKIP_STDIO, []), m)
      else (case sys_readlink k (fd_link pid fd) (PATH_MAX - 1) m of
        (Inl e, m1) \<Rightarrow> ((FD_UNREADABLE, []), m1)
      | (Inr path, m1) \<Rightarrow>
          if starts_with path FD_SOCKET \<or> starts_with path FD_PIPE \<or> starts_with path FD_ANON
          then ((FD_SKIP_VOLATILE, path), m1)
          else (case sys_stat k (Stat (fd_link pid fd)) m1 of
            (Inl e, m2) \<Rightarrow> ((FD_UNREADABLE, path), m2)
          | (Inr (st_mode, st_dev, st_ino), m2) \<Rightarrow>
              if \<not> S_ISREG st_mode then ((FD_SKIP_OTHER, path), m2)
              else if has_deleted_suffix path then ((FD_SKIP_UNREACHABLE, path), m2)
              else (case sys_stat k (Stat path) m2 of
                (Inl e, m3) \<Rightarrow> ((FD_SKIP_UNREACHABLE, path), m3)
              | (Inr (by_mode, by_dev, by_ino), m3) \<Rightarrow>
                  if by_dev \<noteq> st_dev \<or> by_ino \<noteq> st_ino then ((FD_SKIP_UNREACHABLE, path), m3)
                  else ((FD_DUMP, path), m3)))))"

section \<open>Offset and flags\<close>

text \<open>One turn of the loop: a later line of the same kind replaces an earlier one.\<close>

definition fdinfo_step :: "u64 option \<times> u32 option \<Rightarrow> bytes \<Rightarrow> u64 option \<times> u32 option" where
  "fdinfo_step st line =
     (case sscanf (fmt_text ''pos: '' @ [FDecLong]) line of
        [SUlong position] \<Rightarrow> (Some position, snd st)
      | _ \<Rightarrow> (case sscanf (fmt_text ''flags: '' @ [FOctUint]) line of
          [SUint flags] \<Rightarrow> (fst st, Some flags)
        | _ \<Rightarrow> st))"

definition parse_fdinfo :: "bytes \<Rightarrow> (u64 \<times> u32) rc" where
  "parse_fdinfo text =
     (case foldl fdinfo_step (None, None) (stream_lines 256 text) of
        (Some position, Some flags) \<Rightarrow> OK (position, flags)
      | _ \<Rightarrow> ERROR)"

definition read_fd_state ::
    "'w kernel \<Rightarrow> int \<Rightarrow> int \<Rightarrow> 'w machine \<Rightarrow> (u64 \<times> u32) rc \<times> 'w machine" where
  "read_fd_state k pid fd m =
     (case sys_text k (OpenText (proc_path pid (''fdinfo/'' @ dec_int fd))) m of
        (Inl e, m') \<Rightarrow> (ERROR, m')
      | (Inr (text, err), m') \<Rightarrow> (parse_fdinfo text, m'))"

section \<open>Facts\<close>

lemma classify_fd_dump:
  assumes "classify_fd k pid fd m = ((FD_DUMP, path), m')"
  shows "2 < fd" "length path < PATH_MAX" "NUL \<notin> set path"
  using assms sys_readlink_result[of k "fd_link pid fd" "PATH_MAX - 1" m path]
  by (auto simp: classify_fd_def STDERR_FILENO_def PATH_MAX_def
      split: if_splits prod.splits sum.splits)

text \<open>The two lines of interest as the kernel prints them, and any other line.\<close>

lemma isspace_newline: "isspace CHR 0x0A" "\<not> base_digit b CHR 0x0A" if "b \<le> 16"
  using that by (auto simp: isspace_def base_digit_def digit_val_def)

lemma dropWhile_digits:
  "list_all (base_digit b) ds \<Longrightarrow> ds \<noteq> [] \<Longrightarrow> b \<le> 16 \<Longrightarrow> dropWhile isspace (ds @ z) = ds @ z"
  by (cases ds) (auto dest: base_digit_not_space)

lemma fdinfo_formats:
  "fmt_text ''pos: '' = [FLit CHR ''p'', FLit CHR ''o'', FLit CHR ''s'', FLit CHR '':'', FSpace]"
  "fmt_text ''flags: '' = [FLit CHR ''f'', FLit CHR ''l'', FLit CHR ''a'', FLit CHR ''g'',
     FLit CHR ''s'', FLit CHR '':'', FSpace]"
  by (simp_all add: fmt_text_def isspace_def)

lemma fdinfo_step_pos:
  assumes "list_all (base_digit 10) ds" "ds \<noteq> []" "digits_value 10 ds < 2 ^ 64" "isspace b"
    and "NUL \<notin> set ds" "b \<noteq> NUL"
  shows "fdinfo_step st (''pos:'' @ b # ds @ [CHR 0x0A]) =
    (Some (word_of_nat (digits_value 10 ds)), snd st)"
proof -
  have "scan_ulong 10 (dropWhile isspace (b # ds @ [CHR 0x0A])) =
      Some (word_of_nat (digits_value 10 ds), [CHR 0x0A])"
    using assms isspace_newline(2)[of 10] by (simp add: dropWhile_digits scan_ulong_digits)
  moreover have "c_str (''pos:'' @ b # ds @ [CHR 0x0A]) = ''pos:'' @ b # ds @ [CHR 0x0A]"
    using assms by (intro c_str_id) auto
  ultimately show ?thesis
    by (simp add: fdinfo_step_def sscanf_def fdinfo_formats del: dropWhile.simps)
qed

lemma fdinfo_step_flags:
  assumes "list_all (base_digit 8) ds" "ds \<noteq> []" "digits_value 8 ds < 2 ^ 32" "isspace b"
    and "NUL \<notin> set ds" "b \<noteq> NUL"
  shows "fdinfo_step st (''flags:'' @ b # ds @ [CHR 0x0A]) =
    (fst st, Some (word_of_nat (digits_value 8 ds)))"
proof -
  have "scan_ulong 8 (dropWhile isspace (b # ds @ [CHR 0x0A])) =
      Some (word_of_nat (digits_value 8 ds), [CHR 0x0A])"
    using assms isspace_newline(2)[of 8] by (simp add: dropWhile_digits scan_ulong_digits)
  moreover have "c_str (''flags:'' @ b # ds @ [CHR 0x0A]) = ''flags:'' @ b # ds @ [CHR 0x0A]"
    using assms by (intro c_str_id) auto
  moreover have "ucast (word_of_nat (digits_value 8 ds) :: u64) = (word_of_nat (digits_value 8 ds) :: u32)"
    by transfer (simp add: take_bit_of_nat)
  ultimately show ?thesis
    by (simp add: fdinfo_step_def sscanf_def fdinfo_formats del: dropWhile.simps)
qed

lemma fdinfo_step_other:
  "c \<noteq> CHR ''p'' \<Longrightarrow> c \<noteq> CHR ''f'' \<Longrightarrow> fdinfo_step st (c # cs) = st"
  by (simp add: fdinfo_step_def fdinfo_formats sscanf_mismatch)

text \<open>A number as the kernel prints it, and a line that is neither of the two.\<close>

definition printed_number :: "nat \<Rightarrow> nat \<Rightarrow> string \<Rightarrow> bool" where
  "printed_number base bits ds \<longleftrightarrow> list_all (base_digit base) ds \<and> ds \<noteq> [] \<and> NUL \<notin> set ds \<and> length ds < 200 \<and>
     digits_value base ds < 2 ^ bits"

definition other_line :: "bytes \<Rightarrow> bool" where
  "other_line l \<longleftrightarrow> l \<noteq> [] \<and> hd l \<noteq> CHR ''p'' \<and> hd l \<noteq> CHR ''f'' \<and> CHR 0x0A \<notin> set l \<and> length l < 255"

lemma fdinfo_others:
  "list_all other_line others \<Longrightarrow>
   foldl fdinfo_step st (stream_lines 256 (concat (List.map (\<lambda>l. l @ [CHR 0x0A]) others))) = st"
proof (induction others)
  case (Cons l others)
  then have l: "CHR 0x0A \<notin> set l" "length l + 1 < 256" "fdinfo_step st (l @ [CHR 0x0A]) = st"
    by (auto simp: other_line_def neq_Nil_conv fdinfo_step_other)
  show ?case using Cons stream_lines_Cons[OF l(1,2)] l(3) by simp
qed simp

lemma parse_fdinfo_text:
  assumes pos: "printed_number 10 64 ds" and flags: "printed_number 8 32 fs" and b: "isspace b" "b \<noteq> CHR 0x0A" "b \<noteq> NUL"
    and others: "list_all other_line others"
  shows "parse_fdinfo ((''pos:'' @ b # ds) @ CHR 0x0A # (''flags:'' @ b # fs) @ CHR 0x0A #
      concat (List.map (\<lambda>l. l @ [CHR 0x0A]) others)) =
    OK (word_of_nat (digits_value 10 ds), word_of_nat (digits_value 8 fs))"
proof -
  have digits: "CHR 0x0A \<notin> set xs" if "list_all (base_digit i) xs" "i \<le> 16" for i xs
    using that isspace_newline(2)[of i] by (auto simp: list_all_iff)
  have newline: "CHR 0x0A \<notin> set (''pos:'' @ b # ds)" "CHR 0x0A \<notin> set (''flags:'' @ b # fs)"
    using b(2) digits[of 10 ds] digits[of 8 fs] pos flags by (auto simp: printed_number_def)
  have len: "length (''pos:'' @ b # ds) + 1 < 256" "length (''flags:'' @ b # fs) + 1 < 256"
    using pos flags by (simp_all add: printed_number_def)
  have "fdinfo_step (None, None) ((''pos:'' @ b # ds) @ [CHR 0x0A]) = (Some (word_of_nat (digits_value 10 ds)), None)"
    using fdinfo_step_pos[of ds b "(None, None)"] pos b(1,3) by (simp add: printed_number_def)
  moreover have "fdinfo_step (p, None) ((''flags:'' @ b # fs) @ [CHR 0x0A]) = (p, Some (word_of_nat (digits_value 8 fs)))" for p
    using fdinfo_step_flags[of fs b "(p, None)"] flags b(1,3) by (simp add: printed_number_def)
  ultimately show ?thesis
    unfolding parse_fdinfo_def
    by (simp only: stream_lines_Cons[OF newline(1) len(1)] stream_lines_Cons[OF newline(2) len(2)] foldl.simps
        fdinfo_others[OF others] prod.case option.case)
qed

context inspection
begin

lemma classify_fd: "classify_fd k pid fd m = (r, m') \<Longrightarrow> R m0 m \<Longrightarrow> R m0 m'"
  by (auto simp: classify_fd_def refl split: prod.splits sum.splits if_splits)
    (fastforce intro: bound refl)+

lemma read_fd_state: "read_fd_state k pid fd m = (r, m') \<Longrightarrow> R m0 m \<Longrightarrow> R m0 m'"
  by (auto simp: read_fd_state_def split: prod.splits sum.splits) (fastforce intro: bound refl)+

end

end
