(* ===== verification/Collect.thy ===== *)
theory Collect
  imports PathPool Fds
begin

text \<open>
  The collecting half of \<open>src/dumper.c\<close>: registers, extended state, executable path, the table of
  mappings and the table of descriptors of the stopped process. Nothing here touches the snapshot
  file. A function whose loops may not end returns an option, \<open>None\<close> for a run that never ends.
\<close>

section \<open>Registers, extended state, executable\<close>

definition read_regs :: "'w kernel \<Rightarrow> int \<Rightarrow> 'w machine \<Rightarrow> user_regs rc \<times> 'w machine" where
  "read_regs k pid m =
     (case sys_regs k (GetRegs pid) m of
        (Inl e, m') \<Rightarrow> (ERROR, m')
      | (Inr regs, m') \<Rightarrow> (OK regs, m'))"

definition read_xstate :: "'w kernel \<Rightarrow> int \<Rightarrow> 'w machine \<Rightarrow> bytes rc \<times> 'w machine" where
  "read_xstate k pid m =
     (case sys_alloc k KSNAP_XSTATE_MAX_SIZE m of
        (False, m1) \<Rightarrow> (ERROR, m1)
      | (True, m1) \<Rightarrow>
          (case sys_bytes k (GetXstate pid KSNAP_XSTATE_MAX_SIZE) KSNAP_XSTATE_MAX_SIZE m1 of
             (Inl e, m2) \<Rightarrow> (ERROR, m2)
           | (Inr xstate, m2) \<Rightarrow>
               if length xstate < KSNAP_XSTATE_MIN_SIZE \<or> length xstate \<ge> KSNAP_XSTATE_MAX_SIZE
               then (ERROR, m2) else (OK xstate, m2)))"

definition read_exe_path :: "'w kernel \<Rightarrow> int \<Rightarrow> 'w machine \<Rightarrow> string rc \<times> 'w machine" where
  "read_exe_path k pid m =
     (case sys_readlink k (proc_path pid ''exe'') (PATH_MAX - 1) m of
        (Inl e, m') \<Rightarrow> (ERROR, m')
      | (Inr path, m') \<Rightarrow> if length path \<le> MIN_LEN_PATH then (ERROR, m') else (OK path, m'))"

section \<open>Growing a table\<close>

text \<open>
  Before an entry is stored: room for one more, the capacity doubled when it is used up. The
  result is the capacity; \<open>realloc\<close> is asked for \<open>(size_t) new_capacity * sizeof (entry)\<close> bytes.
\<close>

definition VMA_TABLE_INITIAL_CAPACITY :: u32 where "VMA_TABLE_INITIAL_CAPACITY = 64"
definition FD_TABLE_INITIAL_CAPACITY :: u32 where "FD_TABLE_INITIAL_CAPACITY = 16"

definition reserve_entry ::
    "'w kernel \<Rightarrow> u32 \<Rightarrow> nat \<Rightarrow> nat \<Rightarrow> u32 \<Rightarrow> 'w machine \<Rightarrow> u32 rc \<times> 'w machine" where
  "reserve_entry k initial width count capacity m =
     (if word_of_nat count = capacity then
        (let new_capacity = (if capacity = 0 then initial else capacity * 2);
             (grown, m') = sys_alloc k (unat new_capacity * width) m
         in (if grown then OK new_capacity else ERROR, m'))
      else (OK capacity, m))"

section \<open>Mappings\<close>

record vma_collection =
  vc_vmas :: "vma_descriptor list"
  vc_capacity :: u32
  vc_kernel_maps :: "kernel_map list"
  vc_pool :: path_pool

definition kernel_map_of_line :: "maps_line \<Rightarrow> kernel_map" where
  "kernel_map_of_line parsed =
     \<lparr>km_start_address = ml_start parsed, km_size = ml_end parsed - ml_start parsed,
      km_name = ml_path parsed @ replicate (KSNAP_KERNEL_MAP_NAME_LEN - length (ml_path parsed)) NUL\<rparr>"

definition vma_of_line :: "maps_line \<Rightarrow> u32 \<Rightarrow> vma_descriptor" where
  "vma_of_line parsed path_offset =
     \<lparr>vma_start_address = ml_start parsed, vma_size = ml_end parsed - ml_start parsed,
      vma_file_offset = ml_file_offset parsed, vma_data_offset = 0,
      vma_prot = perms_to_prot (ml_privileges parsed),
      vma_map_flags = perms_to_map_flags (ml_privileges parsed),
      vma_path_offset = path_offset, vma_path_len = word_of_nat (length (ml_path parsed))\<rparr>"

definition collect_kernel_map :: "maps_line \<Rightarrow> vma_collection \<Rightarrow> vma_collection rc" where
  "collect_kernel_map parsed c =
     (if length (vc_kernel_maps c) = KSNAP_MAX_KERNEL_MAPS then ERROR
      else if length (ml_path parsed) \<ge> KSNAP_KERNEL_MAP_NAME_LEN then ERROR
      else OK (c\<lparr>vc_kernel_maps := vc_kernel_maps c @ [kernel_map_of_line parsed]\<rparr>))"

definition collect_vma ::
    "'w kernel \<Rightarrow> maps_line \<Rightarrow> vma_collection \<Rightarrow> 'w machine \<Rightarrow> (vma_collection rc \<times> 'w machine) option"
  where
  "collect_vma k parsed c m =
     (case reserve_entry k VMA_TABLE_INITIAL_CAPACITY vma_width (length (vc_vmas c)) (vc_capacity c) m of
        (ERROR, m1) \<Rightarrow> Some (ERROR, m1)
      | (OK capacity, m1) \<Rightarrow>
          if length (ml_path parsed) > 0 then
            do { (r, m2) \<leftarrow> pool_append k (vc_pool c) (ml_path parsed) m1;
                 Some (case r of
                   ERROR \<Rightarrow> (ERROR, m2)
                 | OK (pool, path_offset) \<Rightarrow>
                     (OK (c\<lparr>vc_vmas := vc_vmas c @ [vma_of_line parsed path_offset],
                            vc_capacity := capacity, vc_pool := pool\<rparr>), m2)) }
          else Some (OK (c\<lparr>vc_vmas := vc_vmas c @ [vma_of_line parsed 0],
                           vc_capacity := capacity\<rparr>), m1))"

fun collect_lines ::
    "'w kernel \<Rightarrow> maps_line list \<Rightarrow> vma_collection \<Rightarrow> 'w machine \<Rightarrow> (vma_collection rc \<times> 'w machine) option"
  where
  "collect_lines k [] c m = Some (OK c, m)"
| "collect_lines k (parsed # rest) c m =
     (case classify_maps_line parsed of
        VMA_KERNEL \<Rightarrow>
          (case collect_kernel_map parsed c of
             ERROR \<Rightarrow> Some (ERROR, m)
           | OK c' \<Rightarrow> collect_lines k rest c' m)
      | VMA_DUMP \<Rightarrow>
          do { (r, m') \<leftarrow> collect_vma k parsed c m;
               case r of ERROR \<Rightarrow> Some (ERROR, m') | OK c' \<Rightarrow> collect_lines k rest c' m' }
      | _ \<Rightarrow> collect_lines k rest c m)"

definition collect_vmas ::
    "'w kernel \<Rightarrow> int \<Rightarrow> path_pool \<Rightarrow> 'w machine \<Rightarrow>
      ((vma_descriptor list \<times> path_pool \<times> kernel_map list) rc \<times> 'w machine) option" where
  "collect_vmas k pid pool m =
     (case sys_text k (OpenText (proc_path pid ''maps'')) m of
        (Inl e, m1) \<Rightarrow> Some (ERROR, m1)
      | (Inr (text, err), m1) \<Rightarrow>
          do { (r, m2) \<leftarrow> collect_lines k (maps_lines text)
                 \<lparr>vc_vmas = [], vc_capacity = 0, vc_kernel_maps = [], vc_pool = pool\<rparr> m1;
               Some (case r of
                 ERROR \<Rightarrow> (ERROR, m2)
               | OK c \<Rightarrow>
                   if err then (ERROR, m2)
                   else if vc_vmas c = [] then (ERROR, m2)
                   else (OK (vc_vmas c, vc_pool c, vc_kernel_maps c), m2)) })"

section \<open>Descriptors\<close>

record fd_collection =
  fc_fds :: "fd_descriptor list"
  fc_capacity :: u32
  fc_pool :: path_pool

definition fd_of_entry :: "int \<Rightarrow> string \<Rightarrow> u64 \<times> u32 \<Rightarrow> u32 \<Rightarrow> fd_descriptor" where
  "fd_of_entry fd path st path_offset =
     \<lparr>fdd_fd = word_of_int fd, fdd_dup_of = -1, fdd_flags = snd st, fdd_path_offset = path_offset,
      fdd_path_len = word_of_nat (length path), fdd_reserved = 0, fdd_position = fst st\<rparr>"

text \<open>One descriptor whose class is \<open>FD_DUMP\<close>.\<close>

definition collect_fd ::
    "'w kernel \<Rightarrow> int \<Rightarrow> int \<Rightarrow> string \<Rightarrow> fd_collection \<Rightarrow> 'w machine \<Rightarrow>
      (fd_collection rc \<times> 'w machine) option" where
  "collect_fd k pid fd path c m =
     (case reserve_entry k FD_TABLE_INITIAL_CAPACITY fd_width (length (fc_fds c)) (fc_capacity c) m of
        (ERROR, m1) \<Rightarrow> Some (ERROR, m1)
      | (OK capacity, m1) \<Rightarrow>
          (case read_fd_state k pid fd m1 of
             (ERROR, m2) \<Rightarrow> Some (ERROR, m2)
           | (OK st, m2) \<Rightarrow>
               do { (r, m3) \<leftarrow> pool_append k (fc_pool c) path m2;
                    Some (case r of
                      ERROR \<Rightarrow> (ERROR, m3)
                    | OK (pool, path_offset) \<Rightarrow>
                        (OK (c\<lparr>fc_fds := fc_fds c @ [fd_of_entry fd path st path_offset],
                               fc_capacity := capacity, fc_pool := pool\<rparr>), m3)) }))"

fun collect_entries ::
    "'w kernel \<Rightarrow> int \<Rightarrow> string list \<Rightarrow> fd_collection \<Rightarrow> 'w machine \<Rightarrow>
      (fd_collection rc \<times> 'w machine) option" where
  "collect_entries k pid [] c m = Some (OK c, m)"
| "collect_entries k pid (d_name # rest) c m =
     (if \<not> isdigit (char_at d_name 0) then collect_entries k pid rest c m
      else (case classify_fd k pid (atoi d_name) m of
          ((fd_class, path), m1) \<Rightarrow>
            if fd_class = FD_SKIP_STDIO then collect_entries k pid rest c m1
            else if fd_class = FD_UNREADABLE then Some (ERROR, m1)
            else if fd_class \<noteq> FD_DUMP then collect_entries k pid rest c m1
            else do { (r, m2) \<leftarrow> collect_fd k pid (atoi d_name) path c m1;
                      case r of
                        ERROR \<Rightarrow> Some (ERROR, m2)
                      | OK c' \<Rightarrow> collect_entries k pid rest c' m2 }))"

subsection \<open>Descriptors that share an open file\<close>

datatype kcmp_search = KcmpFailed | SharesWith u32 | SharesNothing

text \<open>The inner loop: the entries before \<open>fds[i]\<close>, in order.\<close>

fun find_twin ::
    "'w kernel \<Rightarrow> int \<Rightarrow> path_pool \<Rightarrow> fd_descriptor \<Rightarrow> fd_descriptor list \<Rightarrow> 'w machine \<Rightarrow>
      kcmp_search \<times> 'w machine" where
  "find_twin k pid pool d [] m = (SharesNothing, m)"
| "find_twin k pid pool d (e # rest) m =
     (if fdd_dup_of e \<noteq> -1 \<or> pool_path pool (fdd_path_offset d) \<noteq> pool_path pool (fdd_path_offset e)
      then find_twin k pid pool d rest m
      else (case sys_int k (Kcmp pid (sint (fdd_fd e)) (sint (fdd_fd d))) m of
          (Inl err, m') \<Rightarrow> (KcmpFailed, m')
        | (Inr order, m') \<Rightarrow>
            if order = -1 then (KcmpFailed, m')
            else if order = 0 then (SharesWith (fdd_fd e), m')
            else find_twin k pid pool d rest m'))"

text \<open>The outer loop: \<open>front\<close> are the entries already visited.\<close>

fun share_files ::
    "'w kernel \<Rightarrow> int \<Rightarrow> path_pool \<Rightarrow> fd_descriptor list \<Rightarrow> fd_descriptor list \<Rightarrow> 'w machine \<Rightarrow>
      fd_descriptor list \<times> 'w machine" where
  "share_files k pid pool front [] m = (front, m)"
| "share_files k pid pool front (d # rest) m =
     (case find_twin k pid pool d front m of
        (KcmpFailed, m') \<Rightarrow> (front @ d # rest, m')
      | (SharesWith fd, m') \<Rightarrow> share_files k pid pool (front @ [d\<lparr>fdd_dup_of := fd\<rparr>]) rest m'
      | (SharesNothing, m') \<Rightarrow> share_files k pid pool (front @ [d]) rest m')"

definition find_shared_files ::
    "'w kernel \<Rightarrow> int \<Rightarrow> fd_descriptor list \<Rightarrow> path_pool \<Rightarrow> 'w machine \<Rightarrow> fd_descriptor list \<times> 'w machine"
  where
  "find_shared_files k pid fds pool m = share_files k pid pool [] fds m"

text \<open>\<open>qsort\<close> with \<open>compare_fd_descriptors\<close>\<close>

definition sort_fds :: "fd_descriptor list \<Rightarrow> fd_descriptor list" where
  "sort_fds fds = sort_key fd_number fds"

definition collect_fds ::
    "'w kernel \<Rightarrow> int \<Rightarrow> path_pool \<Rightarrow> 'w machine \<Rightarrow>
      ((fd_descriptor list \<times> path_pool) rc \<times> 'w machine) option" where
  "collect_fds k pid pool m =
     (case sys_names k (ListDir (proc_path pid ''fd'')) m of
        (Inl e, m1) \<Rightarrow> Some (ERROR, m1)
      | (Inr names, m1) \<Rightarrow>
          do { (r, m2) \<leftarrow> collect_entries k pid names
                 \<lparr>fc_fds = [], fc_capacity = 0, fc_pool = pool\<rparr> m1;
               Some (case r of
                 ERROR \<Rightarrow> (ERROR, m2)
               | OK c \<Rightarrow>
                   (case find_shared_files k pid (sort_fds (fc_fds c)) (fc_pool c) m2 of
                      (fds, m3) \<Rightarrow> (OK (fds, fc_pool c), m3))) })"

section \<open>The tables never overflow their buffers\<close>

text \<open>A capacity is 0 or a power of two; one that would wrap around to 0 is never granted.\<close>

definition capacity_ok :: "nat \<Rightarrow> u32 \<Rightarrow> bool" where
  "capacity_ok count capacity \<longleftrightarrow> count \<le> unat capacity \<and> (capacity = 0 \<or> (\<exists>i. unat capacity = 2 ^ i))"

lemma capacity_ok_0 [simp]: "capacity_ok 0 0"
  by (simp add: capacity_ok_def)

lemma capacity_ok_bound: "capacity_ok count capacity \<Longrightarrow> count < 2 ^ 32"
  using unat_u32_bound[of capacity] by (simp add: capacity_ok_def)

lemma unat_double_capacity:
  assumes "unat (c :: u32) = 2 ^ i"
  shows "c * 2 = 0 \<or> unat (c * 2) = 2 ^ Suc i"
proof (cases "2 ^ Suc i < (2 :: nat) ^ 32")
  case True
  then have "unat (c * 2) = 2 ^ Suc i"
    using assms by (simp add: unat_word_ariths mult.commute)
  then show ?thesis ..
next
  case False
  have "(2 :: nat) ^ i < 2 ^ 32" using unat_u32_bound[of c] assms by simp
  then have "i < 32" by (rule power_less_imp_less_exp[rotated]) simp
  moreover have "\<not> Suc i < 32" using False by (metis power_strict_increasing_iff one_less_numeral_iff semiring_norm(76))
  ultimately have "i = 31" by simp
  then have "unat (c * 2) = 0" using assms by (simp add: unat_word_ariths)
  then show ?thesis by (simp add: unat_eq_zero)
qed

lemma reserve_entry_room:
  assumes "reserve_entry k initial width count capacity m = (OK capacity', m')"
    and ok: "capacity_ok count capacity" and init: "unat initial = 2 ^ j"
  shows "count < unat capacity'" "capacity_ok (Suc count) capacity'"
proof -
  have count: "unat (word_of_nat count :: u32) = count"
    using capacity_ok_bound[OF ok] by (rule unat_of_nat_u32)
  have "count < unat capacity' \<and> (\<exists>i. unat capacity' = 2 ^ i)"
  proof (cases "word_of_nat count = capacity")
    case False
    then have "capacity' = capacity" "count \<noteq> unat capacity"
      using assms(1) count by (auto simp: reserve_entry_def)
    then show ?thesis using ok by (auto simp: capacity_ok_def)
  next
    case True
    then have full: "count = unat capacity" using count by simp
    define new where "new = (if capacity = 0 then initial else capacity * 2)"
    have cap': "capacity' = new" and alloc: "sys_alloc k (unat new * width) m = (True, m')"
      using assms(1) True by (auto simp: reserve_entry_def new_def Let_def split: prod.splits if_splits)
    have "unat new \<noteq> 0"
      using alloc by (auto simp: sys_alloc_def split: prod.splits)
    then have new0: "new \<noteq> 0" by auto
    show ?thesis
    proof (cases "capacity = 0")
      case True
      then show ?thesis using init full cap' by (auto simp: new_def)
    next
      case False
      then obtain i where i: "unat capacity = 2 ^ i" using ok by (auto simp: capacity_ok_def)
      then have "unat new = 2 ^ Suc i"
        using unat_double_capacity[OF i] new0 False by (simp add: new_def)
      then show ?thesis using i full cap' by (intro conjI exI[of _ "Suc i"]) auto
    qed
  qed
  then show "count < unat capacity'" "capacity_ok (Suc count) capacity'"
    by (auto simp: capacity_ok_def)
qed

section \<open>What the table of mappings holds\<close>

text \<open>One descriptor describes one line: every field but the offsets, and its path in the pool.\<close>

definition vma_describes :: "path_pool \<Rightarrow> maps_line \<Rightarrow> vma_descriptor \<Rightarrow> bool" where
  "vma_describes pool parsed v \<longleftrightarrow> v = vma_of_line parsed (vma_path_offset v) \<and>
     (ml_path parsed \<noteq> [] \<longrightarrow> pool_holds pool (vma_path_offset v) (ml_path parsed))"

lemma vma_describes_fields:
  assumes "vma_describes pool p v"
  shows "vma_start_address v = ml_start p" "vma_size v = ml_end p - ml_start p"
    "vma_prot v = perms_to_prot (ml_privileges p)"
proof -
  have "v = vma_of_line p (vma_path_offset v)" using assms by (simp add: vma_describes_def)
  then show "vma_start_address v = ml_start p" "vma_size v = ml_end p - ml_start p"
    "vma_prot v = perms_to_prot (ml_privileges p)"
    by (metis vma_of_line_def vma_descriptor.select_convs)+
qed

definition dumped_lines :: "maps_line list \<Rightarrow> maps_line list" where
  "dumped_lines ps = filter (\<lambda>p. classify_maps_line p = VMA_DUMP) ps"

definition kernel_lines :: "maps_line list \<Rightarrow> maps_line list" where
  "kernel_lines ps = filter (\<lambda>p. classify_maps_line p = VMA_KERNEL) ps"

definition vma_collection_inv :: "maps_line list \<Rightarrow> vma_collection \<Rightarrow> bool" where
  "vma_collection_inv ps c \<longleftrightarrow>
     capacity_ok (length (vc_vmas c)) (vc_capacity c) \<and> pool_wf (vc_pool c) \<and>
     list_all2 (vma_describes (vc_pool c)) (dumped_lines ps) (vc_vmas c) \<and>
     vc_kernel_maps c = map kernel_map_of_line (kernel_lines ps) \<and>
     length (vc_kernel_maps c) \<le> KSNAP_MAX_KERNEL_MAPS \<and>
     list_all (\<lambda>p. length (ml_path p) < KSNAP_KERNEL_MAP_NAME_LEN) (kernel_lines ps)"

lemma vma_describes_keeps:
  assumes "appended pool s pool' off" "pool_wf pool" "storable_path s" "vma_describes pool p v"
  shows "vma_describes pool' p v"
  using assms pool_store.append_keeps by (auto simp: vma_describes_def)

lemma list_all2_snocI: "list_all2 P xs ys \<Longrightarrow> P x y \<Longrightarrow> list_all2 P (xs @ [x]) (ys @ [y])"
  by (rule list_all2_appendI) auto

lemma collect_vma_inv:
  assumes run: "collect_vma k parsed c m = Some (OK c', m')"
    and inv: "vma_collection_inv ps c" and cls: "classify_maps_line parsed = VMA_DUMP"
    and path: "storable_path (ml_path parsed)"
  shows "vma_collection_inv (ps @ [parsed]) c'"
proof -
  obtain capacity m1 where res:
    "reserve_entry k VMA_TABLE_INITIAL_CAPACITY vma_width (length (vc_vmas c)) (vc_capacity c) m
      = (OK capacity, m1)"
    using run by (auto simp: collect_vma_def split: prod.splits rc.splits)
  have cap: "capacity_ok (Suc (length (vc_vmas c))) capacity"
    using reserve_entry_room(2)[OF res, of 6] inv
    by (simp add: vma_collection_inv_def VMA_TABLE_INITIAL_CAPACITY_def)
  have lines: "dumped_lines (ps @ [parsed]) = dumped_lines ps @ [parsed]"
    "kernel_lines (ps @ [parsed]) = kernel_lines ps"
    using cls by (simp_all add: dumped_lines_def kernel_lines_def)
  show ?thesis
  proof (cases "ml_path parsed = []")
    case True
    then have "c' = c\<lparr>vc_vmas := vc_vmas c @ [vma_of_line parsed 0], vc_capacity := capacity\<rparr>"
      using run res by (simp add: collect_vma_def)
    moreover have "vma_describes (vc_pool c) parsed (vma_of_line parsed 0)"
      using True by (simp add: vma_describes_def vma_of_line_def)
    ultimately show ?thesis
      using inv cap lines by (auto simp: vma_collection_inv_def intro: list_all2_snocI)
  next
    case False
    then obtain r m2 where "pool_append k (vc_pool c) (ml_path parsed) m1 = Some (r, m2)"
      using run res by (auto simp: collect_vma_def bind_eq_Some_conv)
    with False obtain pool off where
      app: "pool_append k (vc_pool c) (ml_path parsed) m1 = Some (OK (pool, off), m2)" and
      c': "c' = c\<lparr>vc_vmas := vc_vmas c @ [vma_of_line parsed off], vc_capacity := capacity, vc_pool := pool\<rparr>"
      using run res by (cases r) (auto simp: collect_vma_def)
    have wf: "pool_wf (vc_pool c)" using inv by (simp add: vma_collection_inv_def)
    note step = pool_append_step[OF app wf path]
    have "vma_describes pool parsed (vma_of_line parsed off)"
      using pool_store.append_holds[OF wf path step] by (simp add: vma_describes_def vma_of_line_def)
    moreover have "list_all2 (vma_describes pool) (dumped_lines ps) (vc_vmas c)"
      using inv vma_describes_keeps[OF step wf path]
      by (auto simp: vma_collection_inv_def elim: list_all2_mono)
    moreover have "pool_wf pool" using pool_store.append_wf[OF wf path step] .
    ultimately show ?thesis
      using inv cap lines c' by (auto simp: vma_collection_inv_def intro: list_all2_snocI)
  qed
qed

lemma collect_kernel_map_inv:
  assumes "collect_kernel_map parsed c = OK c'" "vma_collection_inv ps c"
    and "classify_maps_line parsed = VMA_KERNEL"
  shows "vma_collection_inv (ps @ [parsed]) c'"
  using assms by (auto simp: collect_kernel_map_def vma_collection_inv_def dumped_lines_def
      kernel_lines_def split: if_splits)

lemma collect_lines_inv:
  assumes "collect_lines k rest c m = Some (OK c', m')" "vma_collection_inv ps c"
    and "\<forall>p \<in> set rest. storable_path (ml_path p)"
  shows "vma_collection_inv (ps @ rest) c'"
  using assms
proof (induction rest arbitrary: ps c m)
  case Nil
  then show ?case by simp
next
  case (Cons p rest)
  have skip: "vma_collection_inv (ps @ [p]) c"
    if "classify_maps_line p \<noteq> VMA_DUMP" "classify_maps_line p \<noteq> VMA_KERNEL"
    using that Cons.prems(2) by (auto simp: vma_collection_inv_def dumped_lines_def kernel_lines_def)
  obtain c1 m1 where "vma_collection_inv (ps @ [p]) c1" "collect_lines k rest c1 m1 = Some (OK c', m')"
    using Cons.prems skip
    by (cases "classify_maps_line p")
      (auto simp: bind_eq_Some_conv dest!: collect_vma_inv dest: collect_kernel_map_inv
        split: rc.splits)
  then show ?case
    using Cons.IH[of c1 m1 "ps @ [p]"] Cons.prems(3) by simp
qed

lemma collect_vmas_spec:
  assumes "collect_vmas k pid pool m = Some (OK (vmas, pool', kernel_maps), m')" "pool_wf pool"
  obtains content err m1 where "sys_text k (OpenText (proc_path pid ''maps'')) m = (Inr (content, err), m1)"
    "list_all2 (vma_describes pool') (dumped_lines (maps_lines content)) vmas" "vmas \<noteq> []"
    "kernel_maps = map kernel_map_of_line (kernel_lines (maps_lines content))"
    "length kernel_maps \<le> KSNAP_MAX_KERNEL_MAPS" "list_all kernel_map_wf kernel_maps"
    "pool_wf pool'" "length vmas < 2 ^ 32"
proof -
  obtain content err m1 r m2 where
    content: "sys_text k (OpenText (proc_path pid ''maps'')) m = (Inr (content, err), m1)"
    and "collect_lines k (maps_lines content)
        \<lparr>vc_vmas = [], vc_capacity = 0, vc_kernel_maps = [], vc_pool = pool\<rparr> m1 = Some (r, m2)"
    using assms(1)
    by (auto simp: collect_vmas_def bind_eq_Some_conv split: prod.splits sum.splits)
  then obtain c where run: "collect_lines k (maps_lines content)
        \<lparr>vc_vmas = [], vc_capacity = 0, vc_kernel_maps = [], vc_pool = pool\<rparr> m1 = Some (OK c, m')"
    and c: "vmas = vc_vmas c" "pool' = vc_pool c" "kernel_maps = vc_kernel_maps c" "vmas \<noteq> []"
    using assms(1) by (cases r) (auto simp: collect_vmas_def split: if_splits)
  have "vma_collection_inv ([] @ maps_lines content) c"
    using assms(2) by (intro collect_lines_inv[OF run])
      (auto simp: vma_collection_inv_def dumped_lines_def kernel_lines_def storable_path_def
        dest: maps_lines_wf)
  moreover have "kernel_map_wf (kernel_map_of_line p)" if "length (ml_path p) < KSNAP_KERNEL_MAP_NAME_LEN" for p
    using that by (simp add: kernel_map_wf_def kernel_map_of_line_def)
  ultimately show ?thesis
    using that[OF content] c
    by (auto simp: vma_collection_inv_def list_all_iff dest: capacity_ok_bound)
qed

section \<open>What the table of descriptors holds\<close>

lemma int_of_long_range: "- (2 ^ 31) \<le> int_of_long v \<and> int_of_long v < 2 ^ 31"
  unfolding int_of_long_def
  using sint_greater_eq[of "word_of_int v :: u32"] sint_less[of "word_of_int v :: u32"] by simp

lemma atoi_range: "- (2 ^ 31) \<le> atoi s \<and> atoi s < 2 ^ 31"
  using int_of_long_range by (auto simp only: atoi_def split: option.splits prod.splits) simp_all

lemma sint_atoi [simp]: "sint (word_of_int (atoi s) :: u32) = atoi s"
  using atoi_range[of s] by (subst signed_of_int, subst signed_take_bit_int_eq_self) auto

text \<open>Entries whose name is a number, as the numbers they stand for.\<close>

definition listed_fds :: "string list \<Rightarrow> int list" where
  "listed_fds names = map atoi (filter (\<lambda>n. isdigit (char_at n 0)) names)"

text \<open>
  What the engine relies on about \<open>/proc/<pid>/fd\<close> and \<open>fdinfo\<close>, for the process \<open>pid\<close>: a
  number is listed once, the flags shown of a regular file that still has its name never hold
  those the kernel drops after \<open>open\<close> (\<open>forbidden\<close>), and the empty path leads nowhere.
\<close>

definition procfs_fd_laws :: "'w kernel \<Rightarrow> int \<Rightarrow> u32 \<Rightarrow> bool" where
  "procfs_fd_laws k pid forbidden \<longleftrightarrow>
     (\<forall>w names. fst (k (ListDir (proc_path pid ''fd'')) w) = RNames names \<longrightarrow>
        distinct (listed_fds names)) \<and>
     (\<forall>w fd content err position flags m path m'.
        classify_fd k pid fd m = ((FD_DUMP, path), m') \<longrightarrow>
        fst (k (OpenText (proc_path pid (''fdinfo/'' @ dec_int fd))) w) = RText content err \<longrightarrow>
        parse_fdinfo content = OK (position, flags) \<longrightarrow> flags AND forbidden = 0) \<and>
     (\<forall>w mode dev ino. fst (k (Stat []) w) \<noteq> RStat mode dev ino)"

definition pool_extends :: "path_pool \<Rightarrow> path_pool \<Rightarrow> bool" where
  "pool_extends pool pool' \<longleftrightarrow> (\<exists>post. pool_data pool' = pool_data pool @ post)"

lemma pool_extends_refl [simp]: "pool_extends pool pool"
  by (simp add: pool_extends_def)

lemma pool_extends_appended:
  "pool_extends pool0 pool \<Longrightarrow> appended pool s pool' off \<Longrightarrow> pool_extends pool0 pool'"
  by (auto simp: pool_extends_def appended_def)

lemma pool_extends_holds: "pool_extends pool pool' \<Longrightarrow> pool_holds pool off s \<Longrightarrow> pool_holds pool' off s"
  by (auto simp: pool_extends_def pool_holds_def string_at_prefix)

lemma pool_extends_describes: "pool_extends pool pool' \<Longrightarrow> vma_describes pool p v \<Longrightarrow> vma_describes pool' p v"
  by (auto simp: vma_describes_def dest: pool_extends_holds)

text \<open>One entry: a number past stdio, no forbidden flag, a path in the pool.\<close>

definition fd_entry_ok :: "u32 \<Rightarrow> path_pool \<Rightarrow> fd_descriptor \<Rightarrow> bool" where
  "fd_entry_ok forbidden pool d \<longleftrightarrow> 2 < fd_number d \<and> fdd_flags d AND forbidden = 0 \<and>
     (\<exists>path. path \<noteq> [] \<and> storable_path path \<and> pool_holds pool (fdd_path_offset d) path \<and>
       fdd_path_len d = word_of_nat (length path))"

definition fd_collection_inv :: "u32 \<Rightarrow> path_pool \<Rightarrow> string list \<Rightarrow> fd_collection \<Rightarrow> bool" where
  "fd_collection_inv forbidden pool names c \<longleftrightarrow>
     capacity_ok (length (fc_fds c)) (fc_capacity c) \<and> pool_wf (fc_pool c) \<and>
     pool_extends pool (fc_pool c) \<and>
     list_all (\<lambda>d. fd_entry_ok forbidden (fc_pool c) d \<and> fdd_dup_of d = -1) (fc_fds c) \<and>
     distinct (map fd_number (fc_fds c)) \<and> fd_number ` set (fc_fds c) \<subseteq> set (listed_fds names)"

lemma fd_entry_ok_keeps:
  "appended pool s pool' off \<Longrightarrow> pool_wf pool \<Longrightarrow> storable_path s \<Longrightarrow> fd_entry_ok forbidden pool d \<Longrightarrow>
   fd_entry_ok forbidden pool' d"
  using pool_store.append_keeps by (fastforce simp: fd_entry_ok_def)

lemma classify_fd_nonempty:
  assumes "classify_fd k pid fd m = ((FD_DUMP, path), m')" "procfs_fd_laws k pid forbidden"
  shows "path \<noteq> []"
proof
  assume "path = []"
  then obtain m1 mode dev ino m2 where "sys_stat k (Stat []) m1 = (Inr (mode, dev, ino), m2)"
    using assms(1) by (auto simp: classify_fd_def split: if_splits prod.splits sum.splits)
  then obtain w where "as_stat (fst (k (Stat []) w)) = Inr (mode, dev, ino)"
    by (auto simp: sys_stat_def call_def split: prod.splits intro: that[of "world m1"])
  then have "fst (k (Stat []) w) = RStat mode dev ino"
    by (cases "fst (k (Stat []) w)") auto
  with assms(2) show False by (auto simp: procfs_fd_laws_def)
qed

lemma read_fd_state_flags:
  assumes "read_fd_state k pid fd m = (OK st, m')" "procfs_fd_laws k pid forbidden"
    and "classify_fd k pid fd m0 = ((FD_DUMP, path), m1)"
  shows "snd st AND forbidden = 0"
proof -
  obtain content err where shown: "as_text (fst (k (OpenText (proc_path pid (''fdinfo/'' @ dec_int fd))) (world m)))
      = Inr (content, err)" and parse: "parse_fdinfo content = OK st"
    using assms(1)
    by (auto simp: read_fd_state_def sys_text_def call_def split: prod.splits sum.splits)
  then have "fst (k (OpenText (proc_path pid (''fdinfo/'' @ dec_int fd))) (world m)) = RText content err"
    by (cases "fst (k (OpenText (proc_path pid (''fdinfo/'' @ dec_int fd))) (world m))") auto
  with parse assms(2,3) show ?thesis
    unfolding procfs_fd_laws_def by (cases st) (metis snd_conv)
qed

lemma collect_fd_inv:
  assumes run: "collect_fd k pid (atoi d_name) path c m = Some (OK c', m')"
    and inv: "fd_collection_inv forbidden pool0 names c"
    and laws: "procfs_fd_laws k pid forbidden"
    and path: "storable_path path" "path \<noteq> []" and fd: "2 < atoi d_name"
    and cls: "classify_fd k pid (atoi d_name) m0 = ((FD_DUMP, path), m01)"
    and fresh: "isdigit (char_at d_name 0)" "atoi d_name \<notin> set (listed_fds names)"
  shows "fd_collection_inv forbidden pool0 (names @ [d_name]) c'"
proof -
  obtain r1 m1 where res1:
    "reserve_entry k FD_TABLE_INITIAL_CAPACITY fd_width (length (fc_fds c)) (fc_capacity c) m = (r1, m1)"
    by fastforce
  with run obtain capacity where r1: "r1 = OK capacity" by (cases r1) (auto simp: collect_fd_def)
  note res = res1[unfolded r1]
  obtain r2 m2 where st1: "read_fd_state k pid (atoi d_name) m1 = (r2, m2)" by fastforce
  with run res obtain st where r2: "r2 = OK st" by (cases r2) (auto simp: collect_fd_def)
  note st = st1[unfolded r2]
  obtain r3 m3 where "pool_append k (fc_pool c) path m2 = Some (r3, m3)"
    using run res st by (auto simp: collect_fd_def bind_eq_Some_conv)
  then obtain pool off where app: "pool_append k (fc_pool c) path m2 = Some (OK (pool, off), m3)"
    and c': "c' = c\<lparr>fc_fds := fc_fds c @ [fd_of_entry (atoi d_name) path st off],
                   fc_capacity := capacity, fc_pool := pool\<rparr>"
    using run res st by (cases r3) (auto simp: collect_fd_def)
  have wf: "pool_wf (fc_pool c)" using inv by (simp add: fd_collection_inv_def)
  note step = pool_append_step[OF app wf path(1)]
  have entry: "fd_entry_ok forbidden pool (fd_of_entry (atoi d_name) path st off)"
    using pool_store.append_holds[OF wf path(1) step] path fd read_fd_state_flags[OF st laws cls]
    by (auto simp: fd_entry_ok_def fd_of_entry_def fd_number_def)
  have num: "fd_number (fd_of_entry (atoi d_name) path st off) = atoi d_name"
    by (simp add: fd_number_def fd_of_entry_def)
  have "capacity_ok (Suc (length (fc_fds c))) capacity"
    using reserve_entry_room(2)[OF res, of 4] inv
    by (simp add: fd_collection_inv_def FD_TABLE_INITIAL_CAPACITY_def)
  moreover have "list_all (\<lambda>d. fd_entry_ok forbidden pool d \<and> fdd_dup_of d = -1) (fc_fds c)"
    using inv fd_entry_ok_keeps[OF step wf path(1)] by (auto simp: fd_collection_inv_def list_all_iff)
  moreover have "pool_extends pool0 pool" "pool_wf pool"
    using inv pool_extends_appended[OF _ step] pool_store.append_wf[OF wf path(1) step]
    by (auto simp: fd_collection_inv_def)
  moreover have "listed_fds (names @ [d_name]) = listed_fds names @ [atoi d_name]"
    using fresh by (simp add: listed_fds_def)
  ultimately show ?thesis
    using inv entry num fresh by (auto simp: fd_collection_inv_def c' fd_of_entry_def)
qed

lemma collect_entries_inv:
  assumes "collect_entries k pid rest c m = Some (OK c', m')"
    and "fd_collection_inv forbidden pool0 names c" "procfs_fd_laws k pid forbidden"
    and "distinct (listed_fds (names @ rest))"
  shows "fd_collection_inv forbidden pool0 (names @ rest) c'"
  using assms
proof (induction rest arbitrary: names c m)
  case Nil
  then show ?case by simp
next
  case (Cons d_name rest)
  have skip: "fd_collection_inv forbidden pool0 (names @ [d_name]) c"
    using Cons.prems(2) by (auto simp: fd_collection_inv_def listed_fds_def)
  obtain c1 m1 where "fd_collection_inv forbidden pool0 (names @ [d_name]) c1"
    "collect_entries k pid rest c1 m1 = Some (OK c', m')"
  proof (cases "isdigit (char_at d_name 0)")
    case False
    then show ?thesis using that skip Cons.prems(1) by auto
  next
    case True
    obtain fd_class path m1 where cls: "classify_fd k pid (atoi d_name) m = ((fd_class, path), m1)"
      by (cases "classify_fd k pid (atoi d_name) m") auto
    show ?thesis
    proof (cases "fd_class = FD_DUMP")
      case False
      then show ?thesis using that skip Cons.prems(1) True cls by (auto split: if_splits)
    next
      case dump: True
      then obtain c1 m2 where run: "collect_fd k pid (atoi d_name) path c m1 = Some (OK c1, m2)"
        "collect_entries k pid rest c1 m2 = Some (OK c', m')"
        using Cons.prems(1) True cls by (auto simp: bind_eq_Some_conv)
      note fd = classify_fd_dump[OF cls[unfolded dump]]
      have "atoi d_name \<notin> set (listed_fds names)"
        using Cons.prems(4) True by (auto simp: listed_fds_def)
      then have "fd_collection_inv forbidden pool0 (names @ [d_name]) c1"
        using collect_fd_inv[OF run(1) Cons.prems(2,3) _ _ _ cls[unfolded dump]] True fd
          classify_fd_nonempty[OF cls[unfolded dump] Cons.prems(3)]
        by (simp add: storable_path_def)
      then show ?thesis using that run by blast
    qed
  qed
  then show ?case
    using Cons.IH[of c1 m1 "names @ [d_name]"] Cons.prems(3,4) by simp
qed

subsection \<open>Shared open files\<close>

text \<open>Every copy names an entry in front of it.\<close>

definition dups_ok :: "fd_descriptor list \<Rightarrow> bool" where
  "dups_ok ds \<longleftrightarrow> (\<forall>i < length ds. fdd_dup_of (ds ! i) = -1 \<or>
     (\<exists>j < i. fdd_dup_of (ds ! i) = fdd_fd (ds ! j) \<and> fdd_dup_of (ds ! j) = -1))"

definition forget_dup :: "fd_descriptor \<Rightarrow> fd_descriptor" where
  "forget_dup d = d\<lparr>fdd_dup_of := -1\<rparr>"

lemma dups_ok_snoc:
  "dups_ok ds \<Longrightarrow> fdd_dup_of d = -1 \<or> (\<exists>e \<in> set ds. fdd_dup_of d = fdd_fd e \<and> fdd_dup_of e = -1) \<Longrightarrow>
   dups_ok (ds @ [d])"
  by (fastforce simp: dups_ok_def nth_append less_Suc_eq in_set_conv_nth)

lemma dups_ok_append_plain:
  "dups_ok ds \<Longrightarrow> list_all (\<lambda>d. fdd_dup_of d = -1) rest \<Longrightarrow> dups_ok (ds @ rest)"
proof (induction rest arbitrary: ds)
  case (Cons d rest)
  then show ?case using dups_ok_snoc[of ds d] Cons.IH[of "ds @ [d]"] by simp
qed simp

lemma find_twin_found:
  "find_twin k pid pool d es m = (SharesWith fd, m') \<Longrightarrow>
   \<exists>e \<in> set es. fd = fdd_fd e \<and> fdd_dup_of e = -1 \<and>
     pool_path pool (fdd_path_offset d) = pool_path pool (fdd_path_offset e)"
  by (induction es arbitrary: m) (auto split: if_splits prod.splits sum.splits)

lemma share_files_spec:
  assumes "share_files k pid pool front rest m = (ds, m')"
    and "dups_ok front" "list_all (\<lambda>d. fdd_dup_of d = -1) rest"
  shows "dups_ok ds" "map forget_dup ds = map forget_dup (front @ rest)"
proof -
  have "dups_ok ds \<and> map forget_dup ds = map forget_dup (front @ rest)"
    using assms
  proof (induction rest arbitrary: front m)
    case (Cons d rest)
    obtain s m1 where twin: "find_twin k pid pool d front m = (s, m1)" by fastforce
    show ?case
    proof (cases s)
      case KcmpFailed
      then show ?thesis
        using Cons.prems twin dups_ok_append_plain[of front "d # rest"] by auto
    next
      case (SharesWith fd)
      then have "dups_ok (front @ [d\<lparr>fdd_dup_of := fd\<rparr>])"
        using Cons.prems find_twin_found[of k pid pool d front m fd m1] twin
        by (intro dups_ok_snoc) auto
      then show ?thesis
        using Cons.IH[of "front @ [d\<lparr>fdd_dup_of := fd\<rparr>]" m1] Cons.prems twin SharesWith
        by (simp add: forget_dup_def)
    next
      case SharesNothing
      then show ?thesis
        using Cons.IH[of "front @ [d]" m1] Cons.prems twin dups_ok_snoc[of front d] by simp
    qed
  qed simp
  then show "dups_ok ds" "map forget_dup ds = map forget_dup (front @ rest)" by auto
qed

lemma map_forget_dup:
  assumes "map forget_dup ds = map forget_dup es"
  shows "map fdd_fd ds = map fdd_fd es" "map fd_number ds = map fd_number es" "length ds = length es"
    "list_all (fd_entry_ok forbidden pool) es \<Longrightarrow> list_all (fd_entry_ok forbidden pool) ds"
proof -
  have nth: "forget_dup (ds ! i) = forget_dup (es ! i)" if "i < length es" for i
    using assms that by (metis length_map nth_map)
  show len: "length ds = length es" using assms by (metis length_map)
  have eq: "fdd_fd (ds ! i) = fdd_fd (es ! i)" "fdd_flags (ds ! i) = fdd_flags (es ! i)"
    "fdd_path_offset (ds ! i) = fdd_path_offset (es ! i)" "fdd_path_len (ds ! i) = fdd_path_len (es ! i)"
    if "i < length es" for i
    using nth[OF that] by (cases "ds ! i"; cases "es ! i"; simp add: forget_dup_def)+
  show "map fdd_fd ds = map fdd_fd es" "map fd_number ds = map fd_number es"
    using len eq by (auto intro!: nth_equalityI simp: fd_number_def)
  show "list_all (fd_entry_ok forbidden pool) ds" if "list_all (fd_entry_ok forbidden pool) es"
    using that len eq by (auto simp: list_all_length fd_entry_ok_def fd_number_def)
qed

lemma sort_fds_spec: "set (sort_fds fds) = set fds" "length (sort_fds fds) = length fds"
  "sorted (map fd_number (sort_fds fds))"
  by (simp_all add: sort_fds_def)

lemma collect_fds_spec:
  assumes "collect_fds k pid pool m = Some (OK (fds, pool'), m')" "pool_wf pool"
    and laws: "procfs_fd_laws k pid forbidden"
  shows "pool_wf pool'" "pool_extends pool pool'" "length fds < 2 ^ 32" "dups_ok fds"
    "sorted_wrt (<) (map fd_number fds)" "list_all (fd_entry_ok forbidden pool') fds"
proof -
  obtain names m1 r m2 where names: "sys_names k (ListDir (proc_path pid ''fd'')) m = (Inr names, m1)"
    and "collect_entries k pid names \<lparr>fc_fds = [], fc_capacity = 0, fc_pool = pool\<rparr> m1 = Some (r, m2)"
    using assms(1) by (auto simp: collect_fds_def bind_eq_Some_conv split: prod.splits sum.splits)
  then obtain c where run: "collect_entries k pid names \<lparr>fc_fds = [], fc_capacity = 0, fc_pool = pool\<rparr> m1
      = Some (OK c, m2)" and shared: "find_shared_files k pid (sort_fds (fc_fds c)) (fc_pool c) m2 = (fds, m')"
    and pool': "pool' = fc_pool c"
    using assms(1) by (cases r) (auto simp: collect_fds_def split: prod.splits)
  have "fst (k (ListDir (proc_path pid ''fd'')) (world m)) = RNames names"
    using names by (cases "fst (k (ListDir (proc_path pid ''fd'')) (world m))")
      (auto simp: sys_names_def call_def split: prod.splits)
  then have "distinct (listed_fds ([] @ names))"
    using laws by (auto simp: procfs_fd_laws_def)
  then have inv: "fd_collection_inv forbidden pool ([] @ names) c"
    using assms(2) laws by (intro collect_entries_inv[OF run]) (simp_all add: fd_collection_inv_def)
  let ?s = "sort_fds (fc_fds c)"
  have set: "set ?s = set (fc_fds c)" "length ?s = length (fc_fds c)"
    by (simp_all add: sort_fds_def)
  have plain: "list_all (\<lambda>d. fdd_dup_of d = -1) ?s" "list_all (fd_entry_ok forbidden pool') ?s"
    using inv set by (auto simp: fd_collection_inv_def list_all_iff pool')
  have spec: "dups_ok fds" "map forget_dup fds = map forget_dup ?s"
    using share_files_spec[of k pid "fc_pool c" "[]" ?s m2 fds m'] shared plain
    by (simp_all add: find_shared_files_def dups_ok_def)
  note forget = map_forget_dup[OF spec(2)]
  show "dups_ok fds" by (rule spec)
  show "list_all (fd_entry_ok forbidden pool') fds" using forget(4) plain by blast
  show "pool_wf pool'" "pool_extends pool pool'" using inv by (simp_all add: fd_collection_inv_def pool')
  show "length fds < 2 ^ 32" using inv forget(3) set by (auto simp: fd_collection_inv_def dest: capacity_ok_bound)
  have "distinct (map fd_number ?s)"
    using inv set by (simp add: fd_collection_inv_def distinct_map sort_fds_def)
  then show "sorted_wrt (<) (map fd_number fds)"
    using sort_fds_spec(3)[of "fc_fds c"] by (simp add: forget(2) strict_sorted_iff)
qed

section \<open>Collecting only looks\<close>

context inspection
begin

lemma read_regs: "read_regs k pid m = (r, m') \<Longrightarrow> R m0 m \<Longrightarrow> R m0 m'"
  by (auto simp: read_regs_def split: sum.splits prod.splits) (fastforce intro: bound)+

lemma read_xstate: "read_xstate k pid m = (r, m') \<Longrightarrow> R m0 m \<Longrightarrow> R m0 m'"
  by (auto simp: read_xstate_def split: sum.splits prod.splits bool.splits if_splits)
    (fastforce intro: bound)+

lemma read_exe_path: "read_exe_path k pid m = (r, m') \<Longrightarrow> R m0 m \<Longrightarrow> R m0 m'"
  by (auto simp: read_exe_path_def split: sum.splits prod.splits if_splits)
    (fastforce intro: bound)+

lemma reserve_entry: "reserve_entry k i w n c m = (r, m') \<Longrightarrow> R m0 m \<Longrightarrow> R m0 m'"
  by (auto simp: reserve_entry_def Let_def split: prod.splits if_splits) (fastforce intro: bound)+

lemma collect_vma: "collect_vma k parsed c m = Some (r, m') \<Longrightarrow> R m0 m \<Longrightarrow> R m0 m'"
  by (auto simp: collect_vma_def bind_eq_Some_conv rc_not_ERROR split: prod.splits rc.splits if_splits
      dest!: reserve_entry pool_append)

lemma collect_lines: "collect_lines k ps c m = Some (r, m') \<Longrightarrow> R m0 m \<Longrightarrow> R m0 m'"
proof (induction ps arbitrary: c m)
  case (Cons p ps)
  show ?case
  proof (cases "classify_maps_line p = VMA_DUMP")
    case True
    with Cons.prems(1) obtain r1 m1 where one: "collect_vma k p c m = Some (r1, m1)"
      by (auto simp: bind_eq_Some_conv)
    then have "R m0 m1" using Cons.prems(2) by (rule collect_vma)
    then show ?thesis using Cons True one by (cases r1) auto
  next
    case False
    then show ?thesis using Cons by (cases "classify_maps_line p") (auto split: rc.splits)
  qed
qed simp

lemma collect_vmas: "collect_vmas k pid pool m = Some (r, m') \<Longrightarrow> R m0 m \<Longrightarrow> R m0 m'"
  by (cases "sys_text k (OpenText (proc_path pid ''maps'')) m")
    (auto simp: collect_vmas_def bind_eq_Some_conv rc_not_ERROR split: sum.splits rc.splits
      if_splits dest!: bound(4) collect_lines)

lemma collect_fd: "collect_fd k pid fd path c m = Some (r, m') \<Longrightarrow> R m0 m \<Longrightarrow> R m0 m'"
  by (auto simp: collect_fd_def bind_eq_Some_conv rc_not_ERROR split: prod.splits rc.splits if_splits
      dest!: reserve_entry read_fd_state pool_append)

lemma collect_entries: "collect_entries k pid names c m = Some (r, m') \<Longrightarrow> R m0 m \<Longrightarrow> R m0 m'"
proof (induction names arbitrary: c m)
  case (Cons d_name names)
  obtain cls path m1 where cls: "classify_fd k pid (atoi d_name) m = ((cls, path), m1)"
    by (metis surj_pair)
  then have m1: "R m0 m1" using Cons.prems(2) by (rule classify_fd)
  show ?case
  proof (cases "isdigit (char_at d_name 0) \<and> cls = FD_DUMP")
    case True
    with Cons.prems(1) cls obtain r2 m2 where one: "collect_fd k pid (atoi d_name) path c m1 = Some (r2, m2)"
      by (auto simp: bind_eq_Some_conv)
    then have "R m0 m2" using m1 by (rule collect_fd)
    then show ?thesis using Cons True cls one by (cases r2) auto
  next
    case False
    then show ?thesis using Cons cls m1 by (auto split: if_splits)
  qed
qed simp

lemma find_twin: "find_twin k pid pool d es m = (r, m') \<Longrightarrow> R m0 m \<Longrightarrow> R m0 m'"
proof (induction es arbitrary: m)
  case (Cons e es)
  obtain s m1 where kcmp: "sys_int k (Kcmp pid (sint (fdd_fd e)) (sint (fdd_fd d))) m = (s, m1)"
    by fastforce
  then have "R m0 m1" using Cons.prems(2) by (auto dest: bound(2))
  then show ?case using Cons kcmp by (auto split: if_splits sum.splits)
qed simp

lemma share_files: "share_files k pid pool front rest m = (r, m') \<Longrightarrow> R m0 m \<Longrightarrow> R m0 m'"
proof (induction rest arbitrary: front m)
  case (Cons d rest)
  obtain s m1 where twin: "find_twin k pid pool d front m = (s, m1)" by fastforce
  then have "R m0 m1" using Cons.prems(2) by (rule find_twin)
  then show ?case using Cons twin by (cases s) auto
qed simp

lemma collect_fds:
  assumes "collect_fds k pid pool m = Some (r, m')" "R m0 m"
  shows "R m0 m'"
proof (cases "sys_names k (ListDir (proc_path pid ''fd'')) m")
  case (Pair s m1)
  then have m1: "R m0 m1" using assms(2) by (auto dest: bound(5))
  show ?thesis
  proof (cases s)
    case (Inr names)
    with Pair assms(1) obtain c m2 where entries:
      "collect_entries k pid names \<lparr>fc_fds = [], fc_capacity = 0, fc_pool = pool\<rparr> m1 = Some (c, m2)"
      by (auto simp: collect_fds_def bind_eq_Some_conv)
    then have "R m0 m2" using m1 by (rule collect_entries)
    then show ?thesis
      using assms(1) Pair Inr entries
      by (cases c) (auto simp: collect_fds_def find_shared_files_def split: prod.splits dest: share_files)
  qed (use Pair m1 assms(1) in \<open>auto simp: collect_fds_def\<close>)
qed

end

end
