(* ===== verification/Writer.thy ===== *)
theory Writer
  imports Collect
begin

text \<open>
  The writing half of \<open>src/dumper.c\<close>: the layout of the file, \<open>write_snapshot\<close> and the loop that
  copies the memory of one mapping.
\<close>

section \<open>Layout\<close>

definition empty_kernel_map :: kernel_map where
  "empty_kernel_map = \<lparr>km_start_address = 0, km_size = 0,
     km_name = replicate KSNAP_KERNEL_MAP_NAME_LEN NUL\<rparr>"

text \<open>The header, from a \<open>memset\<close> of zeros; \<open>exe_path\<close> is copied without its terminator.\<close>

definition make_header ::
    "user_regs \<Rightarrow> bytes \<Rightarrow> string \<Rightarrow> vma_descriptor list \<Rightarrow> fd_descriptor list \<Rightarrow> path_pool \<Rightarrow>
      kernel_map list \<Rightarrow> ksnap_dump_header" where
  "make_header regs xstate exe_path vmas fds pool kernel_maps =
     (let vma_count = word_of_nat (length vmas) :: u32;
          fd_count = word_of_nat (length fds) :: u32;
          xstate_size = word_of_nat (length xstate) :: u32;
          vma_table_offset = word_of_nat header_width :: u64;
          fd_table_offset = vma_table_offset + ucast vma_count * word_of_nat vma_width;
          path_pool_offset = fd_table_offset + ucast fd_count * word_of_nat fd_width;
          xstate_offset = path_pool_offset + pool_size pool
      in \<lparr>dh_magic = KSNAP_MAGIC, dh_version = KSNAP_FORMAT_VERSION, dh_vma_count = vma_count,
          dh_vma_table_offset = vma_table_offset, dh_path_pool_offset = path_pool_offset,
          dh_path_pool_size = pool_size pool, dh_data_offset = xstate_offset + ucast xstate_size,
          dh_exe_path_len = word_of_nat (length exe_path),
          dh_exe_path = exe_path @ replicate (PATH_MAX - length exe_path) NUL,
          dh_kernel_map_count = word_of_nat (length kernel_maps),
          dh_kernel_maps =
            kernel_maps @ replicate (KSNAP_MAX_KERNEL_MAPS - length kernel_maps) empty_kernel_map,
          dh_regs = regs, dh_xstate_offset = xstate_offset, dh_xstate_size = xstate_size,
          dh_xstate_reserved = 0, dh_fd_table_offset = fd_table_offset, dh_fd_count = fd_count,
          dh_fd_reserved = 0\<rparr>)"

text \<open>Payloads follow each other in table order.\<close>

fun assign_offsets :: "u64 \<Rightarrow> vma_descriptor list \<Rightarrow> vma_descriptor list" where
  "assign_offsets payload_offset [] = []"
| "assign_offsets payload_offset (v # vs) =
     v\<lparr>vma_data_offset := payload_offset\<rparr> # assign_offsets (payload_offset + vma_size v) vs"

section \<open>Writing\<close>

text \<open>\<open>fwrite (items, width, count) == count\<close>\<close>

definition sys_fwrite :: "'w kernel \<Rightarrow> bytes \<Rightarrow> nat \<Rightarrow> nat \<Rightarrow> 'w machine \<Rightarrow> bool \<times> 'w machine" where
  "sys_fwrite k items width count m =
     (case sys_int k (Fwrite items width) m of (r, m') \<Rightarrow> (r = Inr (int count), m'))"

definition PAGE_SIZE :: u64 where "PAGE_SIZE = 4096"

text \<open>One turn of the loop of \<open>write_vma_payload\<close>: the new \<open>curr_send\<close>, or \<open>None\<close> for
  \<open>return ERROR\<close>. An interrupted read leaves it where it was.\<close>

definition copy_turn ::
    "'w kernel \<Rightarrow> vma_descriptor \<Rightarrow> u64 \<Rightarrow> 'w machine \<Rightarrow> u64 option \<times> 'w machine" where
  "copy_turn k vma curr_send m =
     (let rest = vma_size vma - curr_send;
          bytes_size = (if rest > PAGE_SIZE then PAGE_SIZE else rest)
      in (case sys_bytes k (Pread (vma_start_address vma + curr_send) (unat bytes_size))
                 (unat bytes_size) m of
            (Inl e, m1) \<Rightarrow> (if e = EINTR then Some curr_send else None, m1)
          | (Inr buff, m1) \<Rightarrow>
              if length buff = 0 then (None, m1)
              else (case sys_fwrite k buff 1 (length buff) m1 of
                  (False, m2) \<Rightarrow> (None, m2)
                | (True, m2) \<Rightarrow> (Some (curr_send + word_of_nat (length buff)), m2))))"

text \<open>The loop; interrupted reads are retried without limit, so it need not end.\<close>

partial_function (option) copy_payload ::
    "'w kernel \<Rightarrow> vma_descriptor \<Rightarrow> u64 \<Rightarrow> 'w machine \<Rightarrow> (unit rc \<times> 'w machine) option" where
  "copy_payload k vma curr_send m =
     (if curr_send < vma_size vma then
        (let (r, m') = copy_turn k vma curr_send m
         in (case r of None \<Rightarrow> Some (ERROR, m') | Some next \<Rightarrow> copy_payload k vma next m'))
      else Some (OK (), m))"

declare copy_payload.simps [code]

definition write_vma_payload ::
    "'w kernel \<Rightarrow> vma_descriptor \<Rightarrow> 'w machine \<Rightarrow> (unit rc \<times> 'w machine) option" where
  "write_vma_payload k vma m = copy_payload k vma 0 m"

fun write_payloads ::
    "'w kernel \<Rightarrow> vma_descriptor list \<Rightarrow> 'w machine \<Rightarrow> (unit rc \<times> 'w machine) option" where
  "write_payloads k [] m = Some (OK (), m)"
| "write_payloads k (vma # vmas) m =
     do { (r, m') \<leftarrow> write_vma_payload k vma m;
          case r of ERROR \<Rightarrow> Some (ERROR, m') | OK _ \<Rightarrow> write_payloads k vmas m' }"

text \<open>Everything in front of the payloads: header, tables, pool, extended state.\<close>

definition write_metadata ::
    "'w kernel \<Rightarrow> ksnap_dump_header \<Rightarrow> vma_descriptor list \<Rightarrow> fd_descriptor list \<Rightarrow> path_pool \<Rightarrow> bytes \<Rightarrow>
      'w machine \<Rightarrow> bool \<times> 'w machine" where
  "write_metadata k header vmas fds pool xstate m =
     (let (ok, m) = sys_fwrite k (encode_header header) header_width 1 m in
      if \<not> ok then (False, m) else
      let (ok, m) = sys_fwrite k (encode_items encode_vma vmas) vma_width (length vmas) m in
      if \<not> ok then (False, m) else
      let (ok, m) = (if length fds > 0
                     then sys_fwrite k (encode_items encode_fd fds) fd_width (length fds) m
                     else (True, m)) in
      if \<not> ok then (False, m) else
      let (ok, m) = (if pool_size pool > 0
                     then sys_fwrite k (pool_data pool) 1 (unat (pool_size pool)) m
                     else (True, m)) in
      if \<not> ok then (False, m) else
      sys_fwrite k xstate 1 (length xstate) m)"

text \<open>Between opening the file and closing it: the position has to be where the descriptors say
  the first payload is before any memory is copied.\<close>

definition write_contents ::
    "'w kernel \<Rightarrow> ksnap_dump_header \<Rightarrow> vma_descriptor list \<Rightarrow> fd_descriptor list \<Rightarrow> path_pool \<Rightarrow> bytes \<Rightarrow>
      'w machine \<Rightarrow> (unit rc \<times> 'w machine) option" where
  "write_contents k header vmas fds pool xstate m =
     (case write_metadata k header vmas fds pool xstate m of
        (False, m1) \<Rightarrow> Some (ERROR, m1)
      | (True, m1) \<Rightarrow>
          (case sys_int k Ftell m1 of
             (Inl e, m2) \<Rightarrow> Some (ERROR, m2)
           | (Inr position, m2) \<Rightarrow>
               if position < 0 \<or> word_of_int position \<noteq> dh_data_offset header
               then Some (ERROR, m2) else write_payloads k vmas m2))"

text \<open>\<open>fflush\<close> and \<open>fsync\<close> when everything was written, then \<open>fclose\<close>.\<close>

definition finish_file :: "'w kernel \<Rightarrow> unit rc \<Rightarrow> 'w machine \<Rightarrow> unit rc \<times> 'w machine" where
  "finish_file k result m =
     (let (result, m) =
        (case result of
           ERROR \<Rightarrow> (ERROR, m)
         | OK _ \<Rightarrow>
             (case sys_unit k Fflush m of
                (Inl e, m1) \<Rightarrow> (ERROR, m1)
              | (Inr _, m1) \<Rightarrow>
                  (case sys_unit k Fsync m1 of
                     (Inl e, m2) \<Rightarrow> (ERROR, m2)
                   | (Inr _, m2) \<Rightarrow> (OK (), m2))));
          (r, m) = sys_unit k Fclose m
      in (case r of Inl e \<Rightarrow> (ERROR, m) | Inr _ \<Rightarrow> (result, m)))"

definition write_snapshot ::
    "'w kernel \<Rightarrow> int \<Rightarrow> string \<Rightarrow> user_regs \<Rightarrow> bytes \<Rightarrow> string \<Rightarrow> vma_descriptor list \<Rightarrow>
      fd_descriptor list \<Rightarrow> path_pool \<Rightarrow> kernel_map list \<Rightarrow> 'w machine \<Rightarrow> (unit rc \<times> 'w machine) option"
  where
  "write_snapshot k pid snapshot_path regs xstate exe_path vmas fds pool kernel_maps m =
     (case sys_int k (OpenMem (proc_path pid ''mem'') False) m of
        (Inl e, m1) \<Rightarrow> Some (ERROR, m1)
      | (Inr _, m1) \<Rightarrow>
          (case sys_unit k (FopenWrite snapshot_path) m1 of
             (Inl e, m2) \<Rightarrow> Some (ERROR, snd (sys_unit k CloseMem m2))
           | (Inr _, m2) \<Rightarrow>
               (let header = make_header regs xstate exe_path vmas fds pool kernel_maps;
                    vmas = assign_offsets (dh_data_offset header) vmas
                in do { (result, m3) \<leftarrow> write_contents k header vmas fds pool xstate m2;
                        Some (finish_file k result (snd (sys_unit k CloseMem m3))) })))"

section \<open>The copying loop\<close>

text \<open>The rule of the loop: an invariant of its turns, and what holds at its two exits.\<close>

lemma copy_payload_rule:
  assumes run: "copy_payload k vma curr_send m = Some (r, m')" and start: "I curr_send m"
    and step: "\<And>c m c' m'. c < vma_size vma \<Longrightarrow> I c m \<Longrightarrow> copy_turn k vma c m = (Some c', m') \<Longrightarrow> I c' m'"
    and fail: "\<And>c m m'. c < vma_size vma \<Longrightarrow> I c m \<Longrightarrow> copy_turn k vma c m = (None, m') \<Longrightarrow> Q ERROR m'"
    and finish: "\<And>c m. \<not> c < vma_size vma \<Longrightarrow> I c m \<Longrightarrow> Q (OK ()) m"
  shows "Q r m'"
proof -
  have "k' = k \<longrightarrow> v = vma \<longrightarrow> I c m \<longrightarrow> Q (fst y) (snd y)" if "copy_payload k' v c m = Some y" for k' v c m y
  proof (rule copy_payload.raw_induct[OF _ that,
        where P = "\<lambda>k' v c m y. k' = k \<longrightarrow> v = vma \<longrightarrow> I c m \<longrightarrow> Q (fst y) (snd y)"], intro impI)
    fix loop k' v c m y
    assume IH: "\<And>k' v c m y. loop k' v c m = Some y \<Longrightarrow>
        k' = k \<longrightarrow> v = vma \<longrightarrow> I c m \<longrightarrow> Q (fst y) (snd y)"
      and body: "(if c < vma_size v
         then let (r, m') = copy_turn k' v c m
              in case r of None \<Rightarrow> Some (ERROR, m') | Some next \<Rightarrow> loop k' v next m'
         else Some (OK (), m)) = Some y"
      and eq: "k' = k" "v = vma" and I: "I c m"
    obtain x m1 where turn: "copy_turn k vma c m = (x, m1)" by fastforce
    show "Q (fst y) (snd y)"
    proof (cases "c < vma_size vma")
      case False
      then show ?thesis using body finish[OF False I] eq by auto
    next
      case True
      show ?thesis
      proof (cases x)
        case None
        then show ?thesis using body fail[OF True I] turn eq True by auto
      next
        case (Some c')
        then have "loop k vma c' m1 = Some y" using body turn eq True by auto
        from IH[OF this] show ?thesis using step[OF True I] turn Some by simp
      qed
    qed
  qed
  from this[OF run] start show ?thesis by simp
qed

section \<open>Writing only looks at the process\<close>

context inspection
begin

lemma fwrite: "sys_fwrite k items width count m = (x, m') \<Longrightarrow> R m0 m \<Longrightarrow> R m0 m'"
  by (auto simp: sys_fwrite_def split: prod.splits dest!: bound(2))

lemma copy_turn: "copy_turn k vma c m = (x, m') \<Longrightarrow> R m0 m \<Longrightarrow> R m0 m'"
  by (auto simp: copy_turn_def Let_def split: prod.splits sum.splits if_splits bool.splits
      dest!: fwrite bound(8))

lemma write_vma_payload: "write_vma_payload k vma m = Some (r, m') \<Longrightarrow> R m0 m \<Longrightarrow> R m0 m'"
  unfolding write_vma_payload_def
  by (erule copy_payload_rule[where I = "\<lambda>_. R m0"]) (auto intro: copy_turn)

lemma write_payloads: "write_payloads k vmas m = Some (r, m') \<Longrightarrow> R m0 m \<Longrightarrow> R m0 m'"
proof (induction vmas arbitrary: m)
  case (Cons vma vmas)
  then obtain r1 m1 where one: "write_vma_payload k vma m = Some (r1, m1)"
    by (auto simp: bind_eq_Some_conv)
  then have "R m0 m1" using Cons.prems(2) by (rule write_vma_payload)
  then show ?case using Cons one by (cases r1) auto
qed simp

lemma write_metadata: "write_metadata k h vs ds pool xs m = (ok, m') \<Longrightarrow> R m0 m \<Longrightarrow> R m0 m'"
  by (auto simp: write_metadata_def Let_def split: prod.splits if_splits dest!: fwrite)

lemma write_contents: "write_contents k h vs ds pool xs m = Some (r, m') \<Longrightarrow> R m0 m \<Longrightarrow> R m0 m'"
  by (auto simp: write_contents_def split: prod.splits bool.splits sum.splits if_splits
      dest!: write_metadata bound(2) write_payloads)

lemma finish_file: "finish_file k r0 m = (r, m') \<Longrightarrow> R m0 m \<Longrightarrow> R m0 m'"
  by (auto simp: finish_file_def Let_def split: prod.splits rc.splits sum.splits dest!: bound(1))

lemma write_snapshot:
  assumes "write_snapshot k pid path regs xs exe vs ds pool ks m = Some (r, m')" "R m0 m"
  shows "R m0 m'"
proof -
  obtain mem m1 where 1: "sys_int k (OpenMem (proc_path pid ''mem'') False) m = (mem, m1)" by fastforce
  then have R1: "R m0 m1" using assms(2) by (auto dest: bound(2))
  obtain f m2 where 2: "sys_unit k (FopenWrite path) m1 = (f, m2)" by fastforce
  then have R2: "R m0 m2" using R1 by (auto dest: bound(1))
  show ?thesis
  proof (cases mem)
    case (Inl e)
    then show ?thesis using assms(1) 1 R1 by (auto simp: write_snapshot_def)
  next
    case mem: (Inr fd)
    let ?h = "make_header regs xs exe vs ds pool ks"
    show ?thesis
    proof (cases f)
      case (Inl e)
      then have "m' = snd (sys_unit k CloseMem m2)"
        using assms(1) 1 2 mem by (simp add: write_snapshot_def)
      then show ?thesis using typed(1)[of CloseMem m2] R2 by (auto intro: trans)
    next
      case (Inr u)
      then obtain r3 m3 where c: "write_contents k ?h (assign_offsets (dh_data_offset ?h) vs) ds pool xs m2
          = Some (r3, m3)" and f: "finish_file k r3 (snd (sys_unit k CloseMem m3)) = (r, m')"
        using assms(1) 1 2 mem by (auto simp: write_snapshot_def Let_def bind_eq_Some_conv)
      have "R m0 m3" using c R2 by (rule write_contents)
      then have "R m0 (snd (sys_unit k CloseMem m3))" using typed(1)[of CloseMem m3] by (auto intro: trans)
      with f show ?thesis by (rule finish_file)
    qed
  qed
qed

end

end
