(* ===== verification/Layout.thy ===== *)
theory Layout
  imports Reader Writer
begin

unbundle bit_operations_syntax

text \<open>
  The file between its writer and its reader: the bytes of one snapshot as the writer lays them
  out, where each part starts, and that the reader accepts them and reads back what was written.
\<close>

section \<open>The bytes of a snapshot\<close>

definition metadata_bytes ::
    "ksnap_dump_header \<Rightarrow> vma_descriptor list \<Rightarrow> fd_descriptor list \<Rightarrow> path_pool \<Rightarrow> bytes \<Rightarrow> bytes" where
  "metadata_bytes header vmas fds pool xstate =
     encode_header header @ encode_items encode_vma vmas @ encode_items encode_fd fds @
     pool_data pool @ xstate"

text \<open>What the collection hands to the writer, and what the reader will ask of it.\<close>

definition storable ::
    "bytes \<Rightarrow> string \<Rightarrow> vma_descriptor list \<Rightarrow> fd_descriptor list \<Rightarrow> path_pool \<Rightarrow> kernel_map list \<Rightarrow> bool" where
  "storable xstate exe_path vmas fds pool kernel_maps \<longleftrightarrow>
     KSNAP_XSTATE_MIN_SIZE \<le> length xstate \<and> length xstate < KSNAP_XSTATE_MAX_SIZE \<and>
     0 < length exe_path \<and> length exe_path < PATH_MAX \<and>
     vmas \<noteq> [] \<and> length vmas < 2 ^ 32 \<and> length fds < 2 ^ 32 \<and> pool_wf pool \<and>
     list_all (\<lambda>v. vma_prot v AND NOT PROT_ALL = 0) vmas \<and>
     length kernel_maps \<le> KSNAP_MAX_KERNEL_MAPS \<and> list_all kernel_map_wf kernel_maps \<and>
     fd_table_valid (pool_data pool) fds"

definition payload_size :: "vma_descriptor list \<Rightarrow> nat" where
  "payload_size vmas = (\<Sum>v\<leftarrow>vmas. unat (vma_size v))"

definition metadata_size :: "vma_descriptor list \<Rightarrow> fd_descriptor list \<Rightarrow> path_pool \<Rightarrow> bytes \<Rightarrow> nat" where
  "metadata_size vmas fds pool xstate =
     header_width + vma_width * length vmas + fd_width * length fds + length (pool_data pool) +
     length xstate"

lemma length_metadata_bytes:
  "header_wf header \<Longrightarrow> length (metadata_bytes header vmas fds pool xstate) = metadata_size vmas fds pool xstate"
  by (simp add: metadata_bytes_def metadata_size_def header_codec.enc_length
      vma_codec.length_encode_items fd_codec.length_encode_items)

lemmas widths = header_width_def vma_width_def fd_width_def

section \<open>Where the parts start\<close>

lemma make_header_wf:
  assumes "storable xstate exe_path vmas fds pool kernel_maps"
  shows "header_wf (make_header regs xstate exe_path vmas' fds pool kernel_maps)"
proof -
  have "kernel_map_wf empty_kernel_map" by (simp add: kernel_map_wf_def empty_kernel_map_def)
  then show ?thesis
    using assms
    by (auto simp: make_header_def header_wf_def Let_def storable_def KSNAP_MAGIC_def
        KSNAP_MAGIC_LEN_def list_all_iff)
qed

lemma make_header_offsets:
  fixes regs :: user_regs
  assumes "storable xstate exe_path vmas fds pool kernel_maps"
  defines "h \<equiv> make_header regs xstate exe_path vmas fds pool kernel_maps"
  shows "unat (dh_vma_count h) = length vmas" "unat (dh_fd_count h) = length fds"
    "unat (dh_xstate_size h) = length xstate" "unat (dh_exe_path_len h) = length exe_path"
    "unat (dh_path_pool_size h) = length (pool_data pool)"
    "unat (dh_kernel_map_count h) = length kernel_maps"
    "unat (dh_vma_table_offset h) = header_width"
    "unat (dh_fd_table_offset h) = header_width + vma_width * length vmas"
    "unat (dh_path_pool_offset h) = header_width + vma_width * length vmas + fd_width * length fds"
    "unat (dh_xstate_offset h) =
       header_width + vma_width * length vmas + fd_width * length fds + length (pool_data pool)"
    "unat (dh_data_offset h) = metadata_size vmas fds pool xstate"
proof -
  have n: "length vmas < 2 ^ 32" "length fds < 2 ^ 32" "length xstate < 2 ^ 16"
    "length exe_path < 2 ^ 12" "length kernel_maps \<le> 4"
    "unat (pool_size pool) = length (pool_data pool)" "length (pool_data pool) < 2 ^ 32"
    using assms(1)
    by (auto simp: storable_def pool_wf_def UINT32_MAX_def KSNAP_XSTATE_MAX_SIZE_def PATH_MAX_def
        KSNAP_MAX_KERNEL_MAPS_def)
  show counts: "unat (dh_vma_count h) = length vmas" "unat (dh_fd_count h) = length fds"
    "unat (dh_xstate_size h) = length xstate" "unat (dh_exe_path_len h) = length exe_path"
    "unat (dh_path_pool_size h) = length (pool_data pool)"
    "unat (dh_kernel_map_count h) = length kernel_maps"
    using n by (simp_all add: h_def make_header_def Let_def unat_of_nat_u32)
  show off1: "unat (dh_vma_table_offset h) = header_width"
    by (simp add: h_def make_header_def Let_def header_width_def)
  have "dh_fd_table_offset h = dh_vma_table_offset h + ucast (dh_vma_count h) * word_of_nat vma_width"
    by (simp add: h_def make_header_def Let_def)
  then show off2: "unat (dh_fd_table_offset h) = header_width + vma_width * length vmas"
    using n by (simp add: unat_word_ariths off1 counts unat_ucast_u32 widths)
  have "dh_path_pool_offset h = dh_fd_table_offset h + ucast (dh_fd_count h) * word_of_nat fd_width"
    by (simp add: h_def make_header_def Let_def)
  then show off3: "unat (dh_path_pool_offset h) =
      header_width + vma_width * length vmas + fd_width * length fds"
    using n by (simp add: unat_word_ariths off2 counts unat_ucast_u32 widths)
  have "dh_xstate_offset h = dh_path_pool_offset h + dh_path_pool_size h"
    by (simp add: h_def make_header_def Let_def)
  then show off4: "unat (dh_xstate_offset h) =
      header_width + vma_width * length vmas + fd_width * length fds + length (pool_data pool)"
    using n by (simp add: unat_word_ariths off3 counts widths)
  have "dh_data_offset h = dh_xstate_offset h + ucast (dh_xstate_size h)"
    by (simp add: h_def make_header_def Let_def)
  then show "unat (dh_data_offset h) = metadata_size vmas fds pool xstate"
    using n by (simp add: unat_word_ariths off4 counts unat_ucast_u32 widths metadata_size_def)
qed

section \<open>Where the payloads are\<close>

lemma length_assign_offsets [simp]: "length (assign_offsets off vs) = length vs"
  by (induction vs arbitrary: off) auto

lemma assign_offsets_fields:
  "map vma_size (assign_offsets off vs) = map vma_size vs"
  "map vma_start_address (assign_offsets off vs) = map vma_start_address vs"
  "map vma_prot (assign_offsets off vs) = map vma_prot vs"
  by (induction vs arbitrary: off) auto

lemma assign_offsets_nth:
  "i < length vs \<Longrightarrow> unat off + payload_size vs < 2 ^ 64 \<Longrightarrow>
   unat (vma_data_offset (assign_offsets off vs ! i)) = unat off + payload_size (take i vs) \<and>
   vma_size (assign_offsets off vs ! i) = vma_size (vs ! i)"
proof (induction vs arbitrary: off i)
  case (Cons v vs)
  have "unat (off + vma_size v) = unat off + unat (vma_size v)"
    using Cons.prems(2) by (simp add: payload_size_def unat_word_ariths)
  then show ?case
    using Cons.prems Cons.IH[of "i - 1" "off + vma_size v"]
    by (cases i) (auto simp: payload_size_def)
qed simp

lemma payload_size_take:
  assumes "i < length vs"
  shows "payload_size (take i vs) + unat (vma_size (vs ! i)) \<le> payload_size vs"
proof -
  have "vs = take i vs @ vs ! i # drop (Suc i) vs" using assms by (simp add: id_take_nth_drop)
  then have "payload_size vs = payload_size (take i vs @ vs ! i # drop (Suc i) vs)" by simp
  then show ?thesis by (simp add: payload_size_def)
qed

section \<open>The reader accepts what the writer lays out\<close>

text \<open>The kernel while the snapshot is read: \<open>fstat\<close> tells the size of the file and memory is
  granted.\<close>

definition serves_file :: "'w kernel \<Rightarrow> bytes \<Rightarrow> bool" where
  "serves_file k content \<longleftrightarrow> (\<forall>w. fst (k Fstat w) = RInt (int (length content))) \<and>
     (\<forall>n w e. fst (k (Realloc n) w) \<noteq> RErr e)"

lemma serves_alloc:
  assumes "serves_file k content" "0 < n"
  obtains m' where "sys_alloc k n m = (True, m')"
proof -
  obtain r w where "k (Realloc n) (world m) = (r, w)" by fastforce
  moreover from this have "\<forall>e. r \<noteq> RErr e" using assms(1) by (metis serves_file_def fst_conv)
  then have "as_unit r = Inr ()" by (cases r) auto
  ultimately show ?thesis
    using that assms(2) by (simp add: sys_alloc_def sys_unit_def call_def)
qed

lemma serves_fstat:
  assumes "serves_file k content"
  obtains m' where "sys_int k Fstat m = (Inr (int (length content)), m')"
proof -
  obtain r w where "k Fstat (world m) = (r, w)" by fastforce
  moreover from this have "r = RInt (int (length content))" using assms by (metis serves_file_def fst_conv)
  ultimately show ?thesis
    using that by (simp add: sys_int_def call_def)
qed

lemma sint_nonneg:
  assumes "unat (x :: u64) < 2 ^ 63"
  shows "0 \<le> sint x"
proof -
  have "uint x = int (unat x)" by simp
  moreover have "int (unat x) < int (2 ^ 63)" using assms by (simp only: of_nat_less_iff)
  ultimately have "uint x < 2 ^ 63" by simp
  then have "sint (word_of_int (uint x) :: u64) = uint x"
    by (subst signed_of_int, subst signed_take_bit_int_eq_self) (auto intro: order.trans[of _ 0])
  then show ?thesis by simp
qed

lemma read_at_part:
  assumes "content = pre @ part @ post" "unat offset = length pre" "length content < 2 ^ 63" "n = length part"
  shows "read_at content offset n = Some part"
  using assms by (simp add: read_at_def Let_def sint_nonneg[THEN leD])

text \<open>The header passes its own checks, and terminating its path changes nothing.\<close>

lemma make_header_checks:
  fixes regs :: user_regs
  assumes "storable xstate exe_path vmas fds pool kernel_maps"
  defines "h \<equiv> make_header regs xstate exe_path vmas fds pool kernel_maps"
  shows "check_header h" "terminate_exe_path h = h"
proof -
  note off = make_header_offsets[OF assms(1), of regs, folded h_def]
  have "dh_vma_count h \<noteq> 0" using off(1) assms(1) by (auto simp: storable_def)
  moreover have "dh_exe_path_len h \<noteq> 0" using off(4) assms(1) by (auto simp: storable_def)
  moreover have "dh_magic h = KSNAP_MAGIC" "dh_version h = KSNAP_FORMAT_VERSION"
    by (simp_all add: h_def make_header_def Let_def)
  ultimately show "check_header h"
    using off(4,6) assms(1) by (simp add: check_header_def storable_def)
  have path: "dh_exe_path h = exe_path @ replicate (PATH_MAX - length exe_path) NUL"
    by (simp add: h_def make_header_def Let_def)
  have "(exe_path @ replicate n NUL)[length exe_path := NUL] = exe_path @ replicate n NUL" for n
    by (cases n) (simp_all add: list_update_beyond)
  then have "(dh_exe_path h)[unat (dh_exe_path_len h) := NUL] = dh_exe_path h"
    by (simp only: off(4) path)
  then show "terminate_exe_path h = h" by (simp add: terminate_exe_path_def)
qed

text \<open>A run of the writer, as its inputs and the bytes it leaves behind.\<close>

definition snapshot_layout ::
    "user_regs \<Rightarrow> bytes \<Rightarrow> string \<Rightarrow> vma_descriptor list \<Rightarrow> fd_descriptor list \<Rightarrow> path_pool \<Rightarrow>
      kernel_map list \<Rightarrow> bytes \<Rightarrow> bytes" where
  "snapshot_layout regs xstate exe_path vmas fds pool kernel_maps payload =
     (let header = make_header regs xstate exe_path vmas fds pool kernel_maps
      in metadata_bytes header (assign_offsets (dh_data_offset header) vmas) fds pool xstate @ payload)"

definition layout_metadata ::
    "user_regs \<Rightarrow> bytes \<Rightarrow> string \<Rightarrow> vma_descriptor list \<Rightarrow> fd_descriptor list \<Rightarrow> path_pool \<Rightarrow>
      kernel_map list \<Rightarrow> snapshot_metadata" where
  "layout_metadata regs xstate exe_path vmas fds pool kernel_maps =
     (let header = make_header regs xstate exe_path vmas fds pool kernel_maps
      in \<lparr>sm_header = header, sm_vmas = assign_offsets (dh_data_offset header) vmas,
          sm_xstate = xstate, sm_fds = fds, sm_pool = (if fds = [] then [] else pool_data pool)\<rparr>)"

text \<open>The parts of such a file.\<close>

lemma layout_parts:
  fixes regs :: user_regs
  assumes st: "storable xstate exe_path vmas fds pool kernel_maps"
    and len: "length content < 2 ^ 63"
    and content: "content = snapshot_layout regs xstate exe_path vmas fds pool kernel_maps payload"
  defines "h \<equiv> make_header regs xstate exe_path vmas fds pool kernel_maps"
  shows "take header_width content = encode_header h" "header_width \<le> length content"
    "read_at content (dh_vma_table_offset h) (length vmas * vma_width) =
       Some (encode_items encode_vma (assign_offsets (dh_data_offset h) vmas))"
    "read_at content (dh_fd_table_offset h) (length fds * fd_width) = Some (encode_items encode_fd fds)"
    "read_at content (dh_path_pool_offset h) (length (pool_data pool)) = Some (pool_data pool)"
    "read_at content (dh_xstate_offset h) (length xstate) = Some xstate"
    "length content = metadata_size vmas fds pool xstate + length payload"
proof -
  note off = make_header_offsets[OF st, of regs, folded h_def]
  let ?vs = "assign_offsets (dh_data_offset h) vmas"
  let ?H = "encode_header h" and ?V = "encode_items encode_vma ?vs" and ?F = "encode_items encode_fd fds"
  have wf: "header_wf h" using make_header_wf[OF st, of regs vmas] by (simp add: h_def)
  have H: "length ?H = header_width" using wf by (rule header_codec.enc_length)
  have V: "length ?V = vma_width * length vmas" using vma_codec.length_encode_items[of ?vs] by simp
  have F: "length ?F = fd_width * length fds" using fd_codec.length_encode_items[of fds] by simp
  have c: "content = ?H @ ?V @ ?F @ pool_data pool @ xstate @ payload"
    by (simp add: content snapshot_layout_def metadata_bytes_def h_def Let_def)
  show "take header_width content = ?H" "header_width \<le> length content" using c H by simp_all
  show "read_at content (dh_vma_table_offset h) (length vmas * vma_width) = Some ?V"
    by (rule read_at_part[OF _ _ len, of ?H ?V]) (use c H V off in simp_all)
  show "read_at content (dh_fd_table_offset h) (length fds * fd_width) = Some ?F"
    by (rule read_at_part[OF _ _ len, of "?H @ ?V" ?F]) (use c H V F off in simp_all)
  show "read_at content (dh_path_pool_offset h) (length (pool_data pool)) = Some (pool_data pool)"
    by (rule read_at_part[OF _ _ len, of "?H @ ?V @ ?F" "pool_data pool"]) (use c H V F off in simp_all)
  show "read_at content (dh_xstate_offset h) (length xstate) = Some xstate"
    by (rule read_at_part[OF _ _ len, of "?H @ ?V @ ?F @ pool_data pool" xstate])
      (use c H V F off in simp_all)
  show "length content = metadata_size vmas fds pool xstate + length payload"
    using c H V F by (simp add: metadata_size_def)
qed

lemma read_fd_table_layout:
  fixes regs :: user_regs
  assumes st: "storable xstate exe_path vmas fds pool kernel_maps"
    and len: "length content < 2 ^ 63" and serves: "serves_file k content"
    and content: "content = snapshot_layout regs xstate exe_path vmas fds pool kernel_maps payload"
    and st_size: "unat st_size = length content"
  defines "h \<equiv> make_header regs xstate exe_path vmas fds pool kernel_maps"
  shows "\<exists>m'. read_fd_table k content h st_size m =
    (OK (fds, if fds = [] then [] else pool_data pool), m')"
proof (cases "fds = []")
  case True
  then have "dh_fd_count h = 0" by (simp add: h_def make_header_def Let_def)
  then show ?thesis using True by (simp add: read_fd_table_def)
next
  case False
  note off = make_header_offsets[OF st, of regs, folded h_def]
  note parts = layout_parts[OF st len content, folded h_def]
  have valid: "fd_table_valid (pool_data pool) fds" using st by (simp add: storable_def)
  then have "pool_data pool \<noteq> []"
    using False by (cases fds) (auto simp: fd_table_valid_def fd_entry_valid_def string_at_def)
  then have ne: "dh_path_pool_size h \<noteq> 0" "dh_fd_count h \<noteq> 0"
    using off(2,5) False by auto
  have n: "length fds < 2 ^ 32" using st by (simp add: storable_def)
  have table_size: "unat (ucast (dh_fd_count h) * word_of_nat fd_width :: u64) = fd_width * length fds"
    using n by (simp add: unat_word_ariths off unat_ucast_u32 fd_width_def)
  have fits: "fits_in_file (dh_fd_table_offset h) (ucast (dh_fd_count h) * word_of_nat fd_width) st_size"
    "fits_in_file (dh_path_pool_offset h) (dh_path_pool_size h) st_size"
    unfolding fits_in_file_nat table_size st_size parts(7) off by (simp_all add: metadata_size_def)
  obtain m1 where a1: "sys_alloc k (fd_width * length fds) m = (True, m1)"
    using serves_alloc[OF serves, of "fd_width * length fds" m] False by (auto simp: fd_width_def)
  obtain m2 where a2: "sys_alloc k (length (pool_data pool)) m1 = (True, m2)"
    using serves_alloc[OF serves, of "length (pool_data pool)" m1] \<open>pool_data pool \<noteq> []\<close> by auto
  have dec: "decode_items decode_fd fd_width (length fds) (encode_items encode_fd fds) = fds"
    using fd_codec.decode_encode_items[of fds "[]"] by simp
  have "check_fd_table (pool_data pool) (dh_path_pool_size h) [] fds"
    using check_fd_table_iff[OF off(5), of "[]" fds] valid by simp
  then have "read_fd_table k content h st_size m = (OK (fds, pool_data pool), m2)"
    unfolding read_fd_table_def Let_def table_size off
    using ne fits a1 a2 parts(4,5) dec by simp
  then show ?thesis using False by simp
qed

lemma check_vmas_layout:
  assumes "list_all (\<lambda>v. vma_prot v AND NOT PROT_ALL = 0) vmas"
    and "unat off + payload_size vmas \<le> unat st_size" "unat st_size < 2 ^ 63"
  shows "list_all (check_vma st_size) (assign_offsets off vmas)"
  unfolding list_all_length length_assign_offsets
proof (intro allI impI)
  fix i assume i: "i < length vmas"
  let ?v = "assign_offsets off vmas ! i"
  have "unat (vma_data_offset ?v) + unat (vma_size ?v) \<le> unat st_size"
    using assign_offsets_nth[of i vmas off] payload_size_take[OF i] i assms(2,3) by auto
  moreover from this have "unat (vma_data_offset ?v + vma_size ?v) = unat (vma_data_offset ?v) + unat (vma_size ?v)"
    using assms(3) by (simp add: unat_word_ariths)
  moreover have "vma_prot ?v = vma_prot (vmas ! i)"
    using assign_offsets_fields(3)[of off vmas] i by (metis length_assign_offsets nth_map)
  ultimately show "check_vma st_size ?v"
    using assms(1) i by (simp add: check_vma_def word_le_nat_alt list_all_length)
qed

theorem layout_accepted:
  fixes regs :: user_regs
  assumes st: "storable xstate exe_path vmas fds pool kernel_maps"
    and len: "length content < 2 ^ 63" and serves: "serves_file k content"
    and content: "content = snapshot_layout regs xstate exe_path vmas fds pool kernel_maps payload"
    and payload: "length payload = payload_size vmas"
  shows "\<exists>m'. read_snapshot_metadata k content m =
    (OK (layout_metadata regs xstate exe_path vmas fds pool kernel_maps), m')"
proof -
  let ?h = "make_header regs xstate exe_path vmas fds pool kernel_maps"
  let ?vs = "assign_offsets (dh_data_offset ?h) vmas"
  note off = make_header_offsets[OF st, of regs]
  note parts = layout_parts[OF st len content]
  note checks = make_header_checks[OF st, of regs]
  have dec: "decode_header (encode_header ?h) = ?h"
    by (rule header_codec.dec_enc[OF make_header_wf[OF st]])
  obtain m1 where fstat: "sys_int k Fstat m = (Inr (int (length content)), m1)"
    by (rule serves_fstat[OF serves])
  let ?st = "word_of_int (int (length content)) :: u64"
  have st_size: "unat ?st = length content" using len by (simp add: unat_of_nat_u64)
  have counts: "0 < length vmas" "0 < length xstate"
    using st by (auto simp: storable_def KSNAP_XSTATE_MIN_SIZE_def)
  obtain m2 where a1: "sys_alloc k (length vmas * vma_width) m1 = (True, m2)"
    using serves_alloc[OF serves, of "length vmas * vma_width" m1] counts by (auto simp: vma_width_def)
  obtain m3 where a2: "sys_alloc k (length xstate) m2 = (True, m3)"
    using serves_alloc[OF serves, of "length xstate" m2] counts by auto
  obtain m4 where fds: "read_fd_table k content ?h ?st m3 =
      (OK (fds, if fds = [] then [] else pool_data pool), m4)"
    using read_fd_table_layout[OF st len serves content st_size] by blast
  have "check_extent ?h ?st"
  proof -
    have small: "length vmas < 2 ^ 32" "length xstate < 2 ^ 32" using st
      by (auto simp: storable_def KSNAP_XSTATE_MAX_SIZE_def)
    have "unat (dh_xstate_offset ?h + ucast (dh_xstate_size ?h)) \<le> length content"
      using len small parts(7) by (simp add: unat_word_ariths off unat_ucast_u32 metadata_size_def)
    moreover have "unat (dh_vma_table_offset ?h + ucast (dh_vma_count ?h) * word_of_nat vma_width)
        \<le> length content"
      using len small parts(7)
      by (simp add: unat_word_ariths off unat_ucast_u32 metadata_size_def vma_width_def)
    moreover have "unat (dh_data_offset ?h) \<le> length content" using parts(7) off by simp
    ultimately show ?thesis
      using st by (simp add: check_extent_def word_le_nat_alt off st_size storable_def del: of_int_of_nat_eq)
  qed
  moreover have "list_all (check_vma ?st) ?vs"
  proof (rule check_vmas_layout)
    show "unat (dh_data_offset ?h) + payload_size vmas \<le> unat ?st"
      by (rule eq_imp_le) (metis st_size off(11) parts(7) payload)
    show "unat ?st < 2 ^ 63" unfolding st_size by (rule len)
  qed (use st in \<open>simp add: storable_def\<close>)
  moreover have "decode_items decode_vma vma_width (length vmas) (encode_items encode_vma ?vs) = ?vs"
    using vma_codec.decode_encode_items[of ?vs "[]"] by simp
  ultimately show ?thesis
    using parts(1-6) dec checks fstat a1 a2 fds
    by (simp add: read_snapshot_metadata_def layout_metadata_def Let_def off)
qed

end
