(* ===== verification/Written.thy ===== *)
theory Written
  imports Layout
begin

text \<open>
  What \<open>write_snapshot\<close> leaves in the file, read off the log of calls, and that it ends. The
  memory of the stopped process is a function of the kernel's state that inspecting calls keep.
\<close>

section \<open>The bytes that were written\<close>

definition file_step :: "bytes \<Rightarrow> syscall \<times> reply \<Rightarrow> bytes" where
  "file_step f ev =
     (case fst ev of
        FopenWrite p \<Rightarrow> (case snd ev of RErr e \<Rightarrow> f | _ \<Rightarrow> [])
      | Fwrite items width \<Rightarrow> (case snd ev of RInt n \<Rightarrow> f @ take (nat n * width) items | _ \<Rightarrow> f)
      | _ \<Rightarrow> f)"

definition written :: "'w machine \<Rightarrow> bytes" where
  "written m = foldl file_step [] (log m)"

text \<open>The calls that do not touch the file.\<close>

definition leaves_file :: "syscall \<Rightarrow> bool" where
  "leaves_file c = (case c of FopenWrite p \<Rightarrow> False | Fwrite items width \<Rightarrow> False | _ \<Rightarrow> True)"

lemma written_call: "written (snd (call k c m)) = file_step (written m) (c, fst (call k c m))"
  by (simp add: written_def log_call)

lemma file_step_leaves: "leaves_file c \<Longrightarrow> file_step f (c, r) = f"
  by (cases c) (auto simp: leaves_file_def file_step_def)

interpretation file_frame: frame k "\<lambda>m m'. written m' = written m" leaves_file for k
  by unfold_locales (auto simp: written_call file_step_leaves)

lemma written_fwrite:
  assumes "sys_fwrite k items width count m = (True, m')" "length items = width * count"
  shows "written m' = written m @ items"
proof -
  obtain r where c: "call k (Fwrite items width) m = (r, m')" "as_int r = Inr (int count)"
    using assms(1) by (auto simp: sys_fwrite_def sys_int_def map_prod_def split: prod.splits)
  then have "r = RInt (int count)" by (cases r) auto
  then show ?thesis
    using c(1) written_call[of k "Fwrite items width" m] assms(2) by (simp add: file_step_def mult.commute)
qed

lemma written_fopen:
  assumes "sys_unit k (FopenWrite p) m = (Inr (), m')"
  shows "written m' = []"
proof -
  obtain r where c: "call k (FopenWrite p) m = (r, m')" "as_unit r = Inr ()"
    using assms by (auto simp: sys_unit_def map_prod_def split: prod.splits)
  then show ?thesis
    using written_call[of k "FopenWrite p" m] by (cases r) (auto simp: file_step_def)
qed

section \<open>The memory of the stopped process\<close>

definition mem_bytes :: "(u64 \<Rightarrow> char) \<Rightarrow> u64 \<Rightarrow> nat \<Rightarrow> bytes" where
  "mem_bytes mem a n = map (\<lambda>i. mem (a + word_of_nat i)) [0..<n]"

text \<open>\<open>tmem w\<close> is the memory of the traced process in the state \<open>w\<close>: a read delivers a part of
  it, and no call that only looks at the process changes it.\<close>

definition frozen_memory :: "'w kernel \<Rightarrow> ('w \<Rightarrow> u64 \<Rightarrow> char) \<Rightarrow> bool" where
  "frozen_memory k tmem \<longleftrightarrow>
     (\<forall>c w. inspects c \<longrightarrow> tmem (snd (k c w)) = tmem w) \<and>
     (\<forall>w a n b. fst (k (Pread a n) w) = RBytes b \<longrightarrow> take n b = mem_bytes (tmem w) a (length (take n b)))"

definition same_memory :: "('w \<Rightarrow> u64 \<Rightarrow> char) \<Rightarrow> 'w machine \<Rightarrow> 'w machine \<Rightarrow> bool" where
  "same_memory tmem m m' \<longleftrightarrow> tmem (world m') = tmem (world m)"

lemma same_memory_inspection: "frozen_memory k tmem \<Longrightarrow> inspection k (same_memory tmem)"
  by unfold_locales (auto simp: same_memory_def frozen_memory_def call_def split: prod.splits, metis snd_conv)

lemma mem_bytes_append: "mem_bytes mem a i @ mem_bytes mem (a + word_of_nat i) j = mem_bytes mem a (i + j)"
proof -
  have "[0..<i + j] = [0..<i] @ map (\<lambda>x. x + i) [0..<j]"
    using upt_add_eq_append[of 0 i j] map_add_upt[of i j] by (simp add: add.commute)
  moreover have "a + word_of_nat (x + i) = (a + word_of_nat i) + word_of_nat x" for x
    by (simp only: of_nat_add ac_simps)
  ultimately show ?thesis by (simp only: mem_bytes_def map_append map_map comp_def)
qed

lemma length_mem_bytes [simp]: "length (mem_bytes mem a n) = n"
  by (simp add: mem_bytes_def)

lemma pread_frozen:
  assumes "sys_bytes k (Pread a n) n m = (Inr b, m')" "frozen_memory k tmem"
  shows "b = mem_bytes (tmem (world m)) a (length b)" "length b \<le> n"
proof -
  obtain r where c: "call k (Pread a n) m = (r, m')" "map_sum id (take n) (as_bytes r) = Inr b"
    using assms(1) by (auto simp: sys_bytes_def map_prod_def split: prod.splits)
  then obtain b' where "r = RBytes b'" "b = take n b'" by (cases r) auto
  moreover have "fst (k (Pread a n) (world m)) = r"
    using c(1) by (auto simp: call_def split: prod.splits)
  ultimately show "b = mem_bytes (tmem (world m)) a (length b)"
    using assms(2) unfolding frozen_memory_def by metis
  show "length b \<le> n" using assms(1) by (rule sys_bytes_length)
qed

section \<open>Copying one mapping\<close>

text \<open>One turn copies what lies at the position and moves past it, or was interrupted.\<close>

lemma copy_turn_cases:
  assumes run: "copy_turn k vma c m = (Some c', m')" and c: "c < vma_size vma"
  obtains (interrupted) n where "c' = c" "sys_bytes k (Pread (vma_start_address vma + c) n) n m = (Inl EINTR, m')"
  | (moved) n buff m1 where
      "sys_bytes k (Pread (vma_start_address vma + c) n) n m = (Inr buff, m1)" "buff \<noteq> []"
      "sys_fwrite k buff 1 (length buff) m1 = (True, m')"
      "unat c' = unat c + length buff" "unat c' \<le> unat (vma_size vma)"
proof -
  define bytes_size where
    "bytes_size = (if vma_size vma - c > PAGE_SIZE then PAGE_SIZE else vma_size vma - c)"
  let ?n = "unat bytes_size"
  have n: "?n \<le> unat (vma_size vma) - unat c"
    using c by (auto simp: bytes_size_def unat_sub word_less_nat_alt word_le_nat_alt)
  obtain x m1 where read: "sys_bytes k (Pread (vma_start_address vma + c) ?n) ?n m = (x, m1)" by fastforce
  show ?thesis
  proof (cases x)
    case (Inl e)
    then have "e = EINTR \<and> c' = c \<and> m' = m1"
      using run read by (auto simp: copy_turn_def Let_def bytes_size_def[symmetric] split: if_splits)
    then show ?thesis using interrupted read Inl by blast
  next
    case (Inr buff)
    have ne: "buff \<noteq> []" and fw: "sys_fwrite k buff 1 (length buff) m1 = (True, m')"
      and c': "c' = c + word_of_nat (length buff)"
      using run read Inr
      by (auto simp: copy_turn_def Let_def bytes_size_def[symmetric] split: if_splits prod.splits bool.splits)
    have len: "unat c + length buff \<le> unat (vma_size vma)"
      using sys_bytes_length[OF read[unfolded Inr]] n c by (simp add: word_less_nat_alt)
    moreover have "length buff < 2 ^ 64" using len unat_u64_bound[of "vma_size vma"] by simp
    ultimately have "unat c' = unat c + length buff"
      using unat_u64_bound[of "vma_size vma"] by (simp add: c' unat_word_ariths unat_of_nat_u64)
    then show ?thesis using moved[OF read[unfolded Inr] ne fw] len by simp
  qed
qed

lemma copy_turn_copies:
  assumes run: "copy_turn k vma c m = (Some c', m')" and frozen: "frozen_memory k tmem"
    and c: "c < vma_size vma"
  shows "(c' = c \<and> written m' = written m) \<or>
    (\<exists>n. 0 < n \<and> unat c' = unat c + n \<and> unat c' \<le> unat (vma_size vma) \<and>
       written m' = written m @ mem_bytes (tmem (world m)) (vma_start_address vma + c) n)"
  using run c
proof (cases rule: copy_turn_cases)
  case (interrupted n)
  then show ?thesis by (auto dest!: file_frame.bound(8) simp: leaves_file_def)
next
  case (moved n buff m1)
  then have "written m' = written m @ buff"
    using written_fwrite[OF moved(3)] by (auto dest!: file_frame.bound(8) simp: leaves_file_def)
  then show ?thesis
    using moved pread_frozen[OF moved(1) frozen] by (auto intro!: exI[of _ "length buff"])
qed

definition copied :: "('w \<Rightarrow> u64 \<Rightarrow> char) \<Rightarrow> vma_descriptor \<Rightarrow> 'w machine \<Rightarrow> u64 \<Rightarrow> 'w machine \<Rightarrow> bool" where
  "copied tmem vma m0 c m \<longleftrightarrow> same_memory tmem m0 m \<and> c \<le> vma_size vma \<and>
     written m = written m0 @ mem_bytes (tmem (world m0)) (vma_start_address vma) (unat c)"

lemma copied_turn:
  assumes "copied tmem vma m0 c m" "copy_turn k vma c m = (Some c', m')" "frozen_memory k tmem"
    and "c < vma_size vma"
  shows "copied tmem vma m0 c' m'"
proof -
  have "same_memory tmem m0 m'"
    using inspection.copy_turn[OF same_memory_inspection[OF assms(3)] assms(2)] assms(1)
    by (simp add: copied_def)
  moreover have "tmem (world m) = tmem (world m0)"
    using assms(1) by (simp add: copied_def same_memory_def)
  moreover have "c = word_of_nat (unat c)" by simp
  ultimately show ?thesis
    using copy_turn_copies[OF assms(2,3,4)] assms(1)
      mem_bytes_append[of "tmem (world m0)" "vma_start_address vma" "unat c"]
    by (auto simp: copied_def word_le_nat_alt)
qed

lemma write_vma_payload_written:
  assumes "write_vma_payload k vma m = Some (OK (), m')" "frozen_memory k tmem"
  shows "written m' = written m @ mem_bytes (tmem (world m)) (vma_start_address vma) (unat (vma_size vma))"
proof -
  have "OK () = OK () \<longrightarrow> copied tmem vma m (vma_size vma) m'"
    using assms(1) unfolding write_vma_payload_def
  proof (rule copy_payload_rule[where I = "copied tmem vma m"
        and Q = "\<lambda>r m1. r = OK () \<longrightarrow> copied tmem vma m (vma_size vma) m1"])
    show "copied tmem vma m 0 m" by (simp add: copied_def same_memory_def mem_bytes_def)
    show "copied tmem vma m c' m'" if "c < vma_size vma" "copied tmem vma m c m1"
      "copy_turn k vma c m1 = (Some c', m')" for c m1 c' m'
      using copied_turn[OF that(2,3) assms(2) that(1)] .
    show "OK () = OK () \<longrightarrow> copied tmem vma m (vma_size vma) m1"
      if "\<not> c < vma_size vma" "copied tmem vma m c m1" for c m1
      using that by (auto simp: copied_def)
  qed simp
  then show ?thesis by (simp add: copied_def)
qed

section \<open>The whole file\<close>

definition payload_bytes :: "(u64 \<Rightarrow> char) \<Rightarrow> vma_descriptor list \<Rightarrow> bytes" where
  "payload_bytes mem vmas =
     concat (map (\<lambda>v. mem_bytes mem (vma_start_address v) (unat (vma_size v))) vmas)"

lemma length_payload_bytes [simp]: "length (payload_bytes mem vmas) = payload_size vmas"
  by (simp add: payload_bytes_def payload_size_def length_concat comp_def)

lemma payload_bytes_assign_offsets [simp]:
  "payload_bytes mem (assign_offsets off vmas) = payload_bytes mem vmas"
  by (induction vmas arbitrary: off) (auto simp: payload_bytes_def)

lemma write_payloads_written:
  "write_payloads k vmas m = Some (OK (), m') \<Longrightarrow> frozen_memory k tmem \<Longrightarrow>
   written m' = written m @ payload_bytes (tmem (world m)) vmas"
proof (induction vmas arbitrary: m)
  case (Cons vma vmas)
  then obtain m1 where one: "write_vma_payload k vma m = Some (OK (), m1)"
    and rest: "write_payloads k vmas m1 = Some (OK (), m')"
    by (auto simp: bind_eq_Some_conv split: rc.splits)
  have "same_memory tmem m m1"
    by (rule inspection.write_vma_payload[OF same_memory_inspection[OF Cons.prems(2)] one])
      (simp add: same_memory_def)
  then show ?case
    using Cons.IH[OF rest Cons.prems(2)] write_vma_payload_written[OF one Cons.prems(2)]
    by (simp add: payload_bytes_def same_memory_def)
qed (simp add: payload_bytes_def)

lemma write_metadata_written:
  assumes "write_metadata k h vmas fds pool xstate m = (True, m')" "header_wf h"
    and "unat (pool_size pool) = length (pool_data pool)"
  shows "written m' = written m @ metadata_bytes h vmas fds pool xstate"
proof -
  have "length (encode_header h) = header_width * 1" using assms(2) by (simp add: header_codec.enc_length)
  moreover have "length (encode_items encode_vma vmas) = vma_width * length vmas"
    using vma_codec.length_encode_items[of vmas] by simp
  moreover have "length (encode_items encode_fd fds) = fd_width * length fds"
    using fd_codec.length_encode_items[of fds] by simp
  moreover have "pool_size pool > 0 \<longleftrightarrow> pool_data pool \<noteq> []"
    using assms(3) by (metis length_greater_0_conv unat_gt_0 word_gt_0 word_neq_0_conv)
  ultimately show ?thesis
    using assms(1,3)
    by (auto simp: write_metadata_def metadata_bytes_def Let_def encode_items_def[where xs = "[]"]
        split: prod.splits if_splits dest!: written_fwrite)
qed

text \<open>A run that succeeds leaves the layout of its inputs, with the memory as it was.\<close>

lemma leaves_unit: "sys_unit k c m = (x, m') \<Longrightarrow> leaves_file c \<Longrightarrow> written m' = written m"
  by (rule file_frame.bound(1)) auto

lemma finish_file_written: "finish_file k r0 m = (r, m') \<Longrightarrow> written m' = written m"
  by (auto simp: finish_file_def Let_def leaves_file_def split: prod.splits rc.splits sum.splits
      dest!: leaves_unit)

lemma finish_file_OK: "finish_file k r0 m = (OK (), m') \<Longrightarrow> r0 = OK ()"
  by (auto simp: finish_file_def Let_def split: prod.splits rc.splits sum.splits)

lemma write_contents_written:
  assumes run: "write_contents k h vmas fds pool xstate m = Some (OK (), m')" and frozen: "frozen_memory k tmem"
    and "header_wf h" "unat (pool_size pool) = length (pool_data pool)"
  shows "written m' = written m @ metadata_bytes h vmas fds pool xstate @ payload_bytes (tmem (world m)) vmas"
proof -
  obtain m1 m2 position where meta: "write_metadata k h vmas fds pool xstate m = (True, m1)"
    and tell: "sys_int k Ftell m1 = (Inr position, m2)" and pay: "write_payloads k vmas m2 = Some (OK (), m')"
    using run by (auto simp: write_contents_def split: prod.splits bool.splits sum.splits if_splits)
  note look = same_memory_inspection[OF frozen]
  have "same_memory tmem m m1"
    by (rule inspection.write_metadata[OF look meta]) (simp add: same_memory_def)
  then have "same_memory tmem m m2"
    using frame.bound(2)[OF look[unfolded inspection_def] tell] by simp
  moreover have "written m2 = written m1" using tell by (auto dest!: file_frame.bound(2) simp: leaves_file_def)
  ultimately show ?thesis
    using write_metadata_written[OF meta assms(3,4)] write_payloads_written[OF pay frozen]
    by (simp add: same_memory_def)
qed

lemma write_snapshot_written:
  assumes run: "write_snapshot k pid path regs xstate exe_path vmas fds pool kernel_maps m = Some (OK (), m')"
    and frozen: "frozen_memory k tmem" and st: "storable xstate exe_path vmas fds pool kernel_maps"
  shows "written m' = snapshot_layout regs xstate exe_path vmas fds pool kernel_maps
    (payload_bytes (tmem (world m)) vmas)"
proof -
  let ?h = "make_header regs xstate exe_path vmas fds pool kernel_maps"
  let ?vs = "assign_offsets (dh_data_offset ?h) vmas"
  obtain fd m1 m2 r m3 where
    mem: "sys_int k (OpenMem (proc_path pid ''mem'') False) m = (Inr fd, m1)"
    and open1: "sys_unit k (FopenWrite path) m1 = (Inr (), m2)"
    and c: "write_contents k ?h ?vs fds pool xstate m2 = Some (r, m3)"
    and f: "finish_file k r (snd (sys_unit k CloseMem m3)) = (OK (), m')"
    using run by (auto simp: write_snapshot_def Let_def bind_eq_Some_conv split: prod.splits sum.splits)
  note look = same_memory_inspection[OF frozen]
  have "same_memory tmem m m1"
    using frame.bound(2)[OF look[unfolded inspection_def] mem] by (simp add: same_memory_def)
  then have "same_memory tmem m m2"
    using frame.bound(1)[OF look[unfolded inspection_def] open1] by simp
  moreover have "written m2 = []" by (rule written_fopen[OF open1])
  moreover have "written m' = written m3"
    using finish_file_written[OF f] file_frame.typed(1)[of CloseMem k m3] by (simp add: leaves_file_def)
  moreover have "header_wf ?h" using make_header_wf[OF st] .
  moreover have "unat (pool_size pool) = length (pool_data pool)"
    using st by (simp add: storable_def pool_wf_def)
  ultimately show ?thesis
    using write_contents_written[OF c[unfolded finish_file_OK[OF f]] frozen]
    by (simp add: snapshot_layout_def Let_def same_memory_def)
qed

section \<open>The loop ends\<close>

text \<open>\<open>EINTR\<close> is retried without limit, so the loop ends because interruptions do: \<open>fuel w\<close>
  bounds how many reads are still interrupted after the state \<open>w\<close>.\<close>

definition interrupts_bounded :: "'w kernel \<Rightarrow> ('w \<Rightarrow> nat) \<Rightarrow> bool" where
  "interrupts_bounded k fuel \<longleftrightarrow> (\<forall>c w. fuel (snd (k c w)) \<le> fuel w) \<and>
     (\<forall>a n w. fst (k (Pread a n) w) = RErr EINTR \<longrightarrow> fuel (snd (k (Pread a n) w)) < fuel w)"

lemma fuel_frame:
  "interrupts_bounded k fuel \<Longrightarrow> frame k (\<lambda>m m'. fuel (world m') \<le> fuel (world m)) (\<lambda>_. True)"
  by unfold_locales
    (auto simp: interrupts_bounded_def call_def split: prod.splits, metis snd_conv)

lemma interrupted_fuel:
  assumes "sys_bytes k (Pread a n) l m = (Inl EINTR, m')" "interrupts_bounded k fuel"
  shows "fuel (world m') < fuel (world m)"
proof -
  obtain r w where k: "k (Pread a n) (world m) = (r, w)" by fastforce
  then have "r = RErr EINTR" "world m' = w"
    using assms(1) by (cases r; auto simp: sys_bytes_def call_def)+
  then show ?thesis using assms(2) k unfolding interrupts_bounded_def by (metis fst_conv snd_conv)
qed

lemma copy_payload_total:
  assumes fuel: "interrupts_bounded k fuel"
  shows "\<exists>r m'. copy_payload k vma c m = Some (r, m')"
proof (induction "(fuel (world m), unat (vma_size vma) - unat c)" arbitrary: c m
    rule: wf_induct_rule[OF wf_lex_prod[OF wf_less_than wf_less_than]])
  case (1 c m)
  obtain x m1 where turn: "copy_turn k vma c m = (x, m1)" by fastforce
  show ?case
  proof (cases "c < vma_size vma \<and> x \<noteq> None")
    case False
    then show ?thesis using turn by (cases x) (subst copy_payload.simps, auto)+
  next
    case True
    then obtain c' where c': "x = Some c'" by auto
    have "((fuel (world m1), unat (vma_size vma) - unat c'), (fuel (world m), unat (vma_size vma) - unat c))
        \<in> less_than <*lex*> less_than"
      using turn[unfolded c'] conjunct1[OF True]
    proof (cases rule: copy_turn_cases)
      case (interrupted n)
      then show ?thesis using interrupted_fuel[OF _ fuel] by auto
    next
      case (moved n buff m2)
      have "fuel (world m2) \<le> fuel (world m)" using frame.bound(8)[OF fuel_frame[OF fuel] moved(1)] by simp
      then have "fuel (world m1) \<le> fuel (world m)"
        using moved(3) frame.bound(2)[OF fuel_frame[OF fuel]]
        by (fastforce simp: sys_fwrite_def split: prod.splits)
      moreover have "0 < length buff" using moved(2) by simp
      then have "unat (vma_size vma) - unat c' < unat (vma_size vma) - unat c"
        using moved(4,5) by linarith
      ultimately show ?thesis by auto
    qed
    then obtain r m' where "copy_payload k vma c' m1 = Some (r, m')" using 1 by blast
    then show ?thesis using turn c' True by (subst copy_payload.simps) auto
  qed
qed

lemma write_payloads_total:
  "interrupts_bounded k fuel \<Longrightarrow> \<exists>r m'. write_payloads k vmas m = Some (r, m')"
proof (induction vmas arbitrary: m)
  case (Cons v vmas)
  obtain r1 m1 where "write_vma_payload k v m = Some (r1, m1)"
    using copy_payload_total[OF Cons.prems, of v 0 m] by (auto simp: write_vma_payload_def)
  then show ?case using Cons by (cases r1) auto
qed simp

lemma write_snapshot_total:
  assumes "interrupts_bounded k fuel"
  shows "\<exists>r m'. write_snapshot k pid path regs xstate exe vmas fds pool ks m = Some (r, m')"
proof -
  have "\<exists>r m'. write_contents k h vs fds pool xstate m = Some (r, m')" for h vs m
    using write_payloads_total[OF assms]
    by (auto simp: write_contents_def split: prod.splits bool.splits sum.splits)
  note contents = this
  obtain mem m1 where mem: "sys_int k (OpenMem (proc_path pid ''mem'') False) m = (mem, m1)" by fastforce
  obtain f m2 where f: "sys_unit k (FopenWrite path) m1 = (f, m2)" by fastforce
  let ?h = "make_header regs xstate exe vmas fds pool ks"
  obtain r m3 where "write_contents k ?h (assign_offsets (dh_data_offset ?h) vmas) fds pool xstate m2 = Some (r, m3)"
    using contents by blast
  with mem f show ?thesis by (cases mem; cases f) (simp_all add: write_snapshot_def Let_def)
qed

end
