(* ===== verification/Dump.thy ===== *)
theory Dump
  imports Writer
begin

text \<open>
  \<open>dump\<close> of \<open>src/dumper.c\<close>: seizing and stopping the process, collecting and writing its
  snapshot, and letting it go again.
\<close>

text \<open>From \<open>PTRACE_INTERRUPT\<close> to the label \<open>detach\<close>; \<open>ERROR\<close> is a \<open>goto detach\<close>.\<close>

definition dump_stopped ::
    "'w kernel \<Rightarrow> int \<Rightarrow> string \<Rightarrow> 'w machine \<Rightarrow> (unit rc \<times> 'w machine) option" where
  "dump_stopped k pid snapshot_path m =
     (case read_regs k pid m of (ERROR, m) \<Rightarrow> Some (ERROR, m) | (OK regs, m) \<Rightarrow>
     (case read_xstate k pid m of (ERROR, m) \<Rightarrow> Some (ERROR, m) | (OK xstate, m) \<Rightarrow>
     (case read_exe_path k pid m of (ERROR, m) \<Rightarrow> Some (ERROR, m) | (OK exe_path, m) \<Rightarrow>
      do { (r, m) \<leftarrow> collect_vmas k pid empty_pool m;
           case r of ERROR \<Rightarrow> Some (ERROR, m) | OK (vmas, pool, kernel_maps) \<Rightarrow>
           do { (r, m) \<leftarrow> collect_fds k pid pool m;
                case r of ERROR \<Rightarrow> Some (ERROR, m) | OK (fds, pool) \<Rightarrow>
                write_snapshot k pid snapshot_path regs xstate exe_path vmas fds pool kernel_maps m }})))"

definition dump_seized ::
    "'w kernel \<Rightarrow> int \<Rightarrow> string \<Rightarrow> 'w machine \<Rightarrow> (unit rc \<times> 'w machine) option" where
  "dump_seized k pid snapshot_path m =
     (case sys_unit k (Interrupt pid) m of
        (Inl e, m1) \<Rightarrow> Some (ERROR, m1)
      | (Inr _, m1) \<Rightarrow>
          (case sys_int k (Waitpid pid) m1 of
             (Inl e, m2) \<Rightarrow> Some (ERROR, m2)
           | (Inr status, m2) \<Rightarrow>
               if \<not> WIFSTOPPED status then Some (ERROR, m2)
               else dump_stopped k pid snapshot_path m2))"

text \<open>After the label \<open>detach\<close>.\<close>

definition dump_detach ::
    "'w kernel \<Rightarrow> ksnap_config \<Rightarrow> unit rc \<Rightarrow> 'w machine \<Rightarrow> unit rc \<times> 'w machine" where
  "dump_detach k config result m =
     (let release = (\<lambda>result m.
        (case sys_unit k (Detach (cfg_pid config)) m of
           (Inl e, m') \<Rightarrow> (ERROR, m')
         | (Inr _, m') \<Rightarrow> (result, m')))
      in if result = OK () \<and> cfg_kill_after_dump config then
           (case sys_unit k (Kill (cfg_pid config)) m of
              (Inr _, m1) \<Rightarrow> (OK (), snd (sys_int k (Waitpid (cfg_pid config)) m1))
            | (Inl e, m1) \<Rightarrow> release ERROR m1)
         else release result m)"

definition dump :: "'w kernel \<Rightarrow> ksnap_config \<Rightarrow> 'w machine \<Rightarrow> (unit rc \<times> 'w machine) option" where
  "dump k config m =
     (case build_snapshot_path config of
        ERROR \<Rightarrow> Some (ERROR, m)
      | OK snapshot_path \<Rightarrow>
          (case sys_unit k (Seize (cfg_pid config)) m of
             (Inl e, m1) \<Rightarrow> Some (ERROR, m1)
           | (Inr _, m1) \<Rightarrow>
               do { (result, m2) \<leftarrow> dump_seized k (cfg_pid config) snapshot_path m1;
                    Some (dump_detach k config result m2) }))"

end
