(* ===== verification/Checkpoint.thy ===== *)
theory Checkpoint
  imports Written Dump
begin

unbundle bit_operations_syntax

text \<open>
  What \<open>dump\<close> promises: whatever it collected can be stored, the file it leaves behind is read
  back by the restorer, the process is let go on every path, and the call returns.
\<close>

section \<open>What is collected can be stored\<close>

lemma read_xstate_OK:
  "read_xstate k pid m = (OK xstate, m') \<Longrightarrow>
   KSNAP_XSTATE_MIN_SIZE \<le> length xstate \<and> length xstate < KSNAP_XSTATE_MAX_SIZE"
  by (auto simp: read_xstate_def split: prod.splits bool.splits sum.splits if_splits)

lemma read_exe_path_OK:
  assumes "read_exe_path k pid m = (OK path, m')"
  shows "0 < length path" "length path < PATH_MAX" "NUL \<notin> set path"
proof -
  have "sys_readlink k (proc_path pid ''exe'') (PATH_MAX - 1) m = (Inr path, m')" "0 < length path"
    using assms by (auto simp: read_exe_path_def MIN_LEN_PATH_def split: prod.splits sum.splits if_splits)
  then show "0 < length path" "length path < PATH_MAX" "NUL \<notin> set path"
    using sys_readlink_result by (fastforce simp: PATH_MAX_def)+
qed

lemma vma_describes_prot: "vma_describes pool p v \<Longrightarrow> vma_prot v AND NOT PROT_ALL = 0"
  using perms_to_prot_range[of "ml_privileges p"]
  by (simp add: vma_describes_fields(3) PROT_ALL_def PROT_READ_def PROT_WRITE_def PROT_EXEC_def)

lemma fd_entry_ok_valid:
  "fd_entry_ok KSNAP_FD_FORBIDDEN_FLAGS pool d \<Longrightarrow> fd_entry_valid (pool_data pool) d"
  by (fastforce simp: fd_entry_ok_def fd_entry_valid_def pool_holds_def storable_path_def PATH_MAX_def
      intro: unat_of_nat_u32)

lemma collected_table_valid:
  assumes "sorted_wrt (<) (map fd_number fds)" "dups_ok fds"
    and "list_all (fd_entry_ok KSNAP_FD_FORBIDDEN_FLAGS pool) fds"
  shows "fd_table_valid (pool_data pool) fds"
proof -
  have "fdd_dup_of (fds ! i) = -1 \<or> fdd_dup_of (fds ! i) \<in> fdd_fd ` set (take i fds)" if i: "i < length fds" for i
  proof (cases "fdd_dup_of (fds ! i) = -1")
    case False
    then obtain j where "j < i" "fdd_dup_of (fds ! i) = fdd_fd (fds ! j)"
      using assms(2) i by (auto simp: dups_ok_def)
    moreover have "fds ! j \<in> set (take i fds)"
      using \<open>j < i\<close> i by (auto simp: in_set_conv_nth intro!: exI[of _ j])
    ultimately show ?thesis by auto
  qed simp
  then show ?thesis
    using assms(1,3) fd_entry_ok_valid by (auto simp: fd_table_valid_def list_all_iff)
qed

lemma pool_extends_wf_describes:
  "list_all2 (vma_describes pool) ps vs \<Longrightarrow> pool_extends pool pool' \<Longrightarrow> list_all2 (vma_describes pool') ps vs"
  by (auto elim: list_all2_mono intro: pool_extends_describes)

section \<open>The snapshot of a stopped process\<close>

lemma extends_log: "extends P m m' \<Longrightarrow> ev \<in> set (log m) \<Longrightarrow> ev \<in> set (log m')"
  by (auto simp: extends_def)

text \<open>A call and its answer: in the log, and given by the kernel.\<close>

definition answered :: "'w kernel \<Rightarrow> syscall \<Rightarrow> reply \<Rightarrow> 'w machine \<Rightarrow> bool" where
  "answered k c r m \<longleftrightarrow> (c, r) \<in> set (log m) \<and> (\<exists>w. fst (k c w) = r)"

lemma answered_call: "call k c m = (r, m') \<Longrightarrow> answered k c r m'"
  by (auto simp: answered_def call_def split: prod.splits) (metis fst_conv)

lemma answered_extends: "extends P m m' \<Longrightarrow> answered k c r m \<Longrightarrow> answered k c r m'"
  by (auto simp: answered_def intro: extends_log)

lemma collect_vmas_log:
  assumes "collect_vmas k pid pool m = Some (r, m')"
    and "sys_text k (OpenText (proc_path pid ''maps'')) m = (Inr (content, err), m1)"
  shows "answered k (OpenText (proc_path pid ''maps'')) (RText content err) m'"
proof -
  obtain rep where c: "call k (OpenText (proc_path pid ''maps'')) m = (rep, m1)" "as_text rep = Inr (content, err)"
    using assms(2) by (auto simp: sys_text_def map_prod_def split: prod.splits)
  then have "rep = RText content err" by (cases rep) auto
  then have ev: "answered k (OpenText (proc_path pid ''maps'')) (RText content err) m1"
    using answered_call[OF c(1)] by simp
  obtain r1 m2 where lines: "collect_lines k (maps_lines content)
      \<lparr>vc_vmas = [], vc_capacity = 0, vc_kernel_maps = [], vc_pool = pool\<rparr> m1 = Some (r1, m2)"
    using assms by (auto simp: collect_vmas_def bind_eq_Some_conv)
  moreover from this have "m' = m2"
    using assms by (cases r1) (auto simp: collect_vmas_def split: if_splits)
  ultimately have "extends inspects m1 m'" using quiet_log.collect_lines by fastforce
  then show ?thesis using ev by (rule answered_extends)
qed

lemma read_regs_log:
  assumes "read_regs k pid m = (OK regs, m')"
  shows "(GetRegs pid, RRegs regs) \<in> set (log m')"
proof -
  have "sys_regs k (GetRegs pid) m = (Inr regs, m')"
    using assms by (auto simp: read_regs_def split: prod.splits sum.splits)
  then show ?thesis
    by (cases "fst (k (GetRegs pid) (world m))") (auto simp: typed_turn)
qed

text \<open>The extended state that a run has read, as the log shows it.\<close>

definition logged_xstate :: "int \<Rightarrow> bytes \<Rightarrow> (syscall \<times> reply) list \<Rightarrow> bool" where
  "logged_xstate pid xstate evs \<longleftrightarrow>
     (\<exists>b. (GetXstate pid KSNAP_XSTATE_MAX_SIZE, RBytes b) \<in> set evs \<and> xstate = take KSNAP_XSTATE_MAX_SIZE b)"

lemma read_xstate_log:
  assumes "read_xstate k pid m = (OK xstate, m')"
  shows "logged_xstate pid xstate (log m')"
proof -
  obtain m1 where "sys_bytes k (GetXstate pid KSNAP_XSTATE_MAX_SIZE) KSNAP_XSTATE_MAX_SIZE m1 = (Inr xstate, m')"
    using assms by (auto simp: read_xstate_def split: prod.splits sum.splits bool.splits if_splits)
  then show ?thesis
    by (cases "fst (k (GetXstate pid KSNAP_XSTATE_MAX_SIZE) (world m1))")
      (auto simp: sys_bytes_def call_def logged_xstate_def split: prod.splits)
qed

text \<open>What a run that succeeds has collected, and the file it leaves behind.\<close>

lemma dump_stopped_steps:
  assumes "dump_stopped k pid path m = Some (OK (), m')"
  obtains regs m1 xstate m2 exe_path m3 vmas pool kernel_maps m4 fds pool' m5 where
    "read_regs k pid m = (OK regs, m1)" "read_xstate k pid m1 = (OK xstate, m2)"
    "read_exe_path k pid m2 = (OK exe_path, m3)"
    "collect_vmas k pid empty_pool m3 = Some (OK (vmas, pool, kernel_maps), m4)"
    "collect_fds k pid pool m4 = Some (OK (fds, pool'), m5)"
    "write_snapshot k pid path regs xstate exe_path vmas fds pool' kernel_maps m5 = Some (OK (), m')"
proof -
  obtain a m1 where 1: "read_regs k pid m = (a, m1)" by fastforce
  obtain b m2 where 2: "read_xstate k pid m1 = (b, m2)" by fastforce
  obtain c m3 where 3: "read_exe_path k pid m2 = (c, m3)" by fastforce
  obtain regs xstate exe_path where ok: "a = OK regs" "b = OK xstate" "c = OK exe_path"
    using assms 1 2 3 by (cases a; cases b; cases c) (auto simp: dump_stopped_def)
  then show ?thesis
    using assms 1 2 3 by (auto simp: dump_stopped_def bind_eq_Some_conv intro: that)
qed

text \<open>Whatever was collected can be stored.\<close>

lemma collected_storable:
  assumes "read_xstate k pid m1 = (OK xstate, m2)" "read_exe_path k pid m2 = (OK exe_path, m3)"
    and vmas: "collect_vmas k pid empty_pool m3 = Some (OK (vmas, pool, kernel_maps), m4)"
    and fds: "collect_fds k pid pool m4 = Some (OK (fds, pool'), m5)"
    and laws: "procfs_fd_laws k pid KSNAP_FD_FORBIDDEN_FLAGS"
  shows "storable xstate exe_path vmas fds pool' kernel_maps"
proof -
  from collect_vmas_spec[OF vmas empty_pool_wf] obtain content where
    v: "list_all2 (vma_describes pool) (dumped_lines (maps_lines content)) vmas" "vmas \<noteq> []"
      "length kernel_maps \<le> KSNAP_MAX_KERNEL_MAPS" "list_all kernel_map_wf kernel_maps"
      "pool_wf pool" "length vmas < 2 ^ 32"
    by blast
  note f = collect_fds_spec[OF fds v(5) laws]
  have table: "fd_table_valid (pool_data pool') fds" using f by (intro collected_table_valid)
  have "list_all (\<lambda>v. vma_prot v AND NOT PROT_ALL = 0) vmas"
    using v(1) vma_describes_prot
    by (fastforce simp: list_all_iff list_all2_conv_all_nth in_set_conv_nth)
  then show ?thesis
    using read_xstate_OK[OF assms(1)] read_exe_path_OK[OF assms(2)] v f table by (simp add: storable_def)
qed

lemma dump_stopped_snapshot:
  assumes run: "dump_stopped k pid path m = Some (OK (), m')"
    and frozen: "frozen_memory k tmem" and laws: "procfs_fd_laws k pid KSNAP_FD_FORBIDDEN_FLAGS"
  obtains regs xstate exe_path vmas fds pool kernel_maps content err pool0 m4 m5 where
    "storable xstate exe_path vmas fds pool kernel_maps"
    "written m' = snapshot_layout regs xstate exe_path vmas fds pool kernel_maps
       (payload_bytes (tmem (world m)) vmas)"
    "answered k (OpenText (proc_path pid ''maps'')) (RText content err) m'"
    "list_all2 (vma_describes pool) (dumped_lines (maps_lines content)) vmas"
    "(GetRegs pid, RRegs regs) \<in> set (log m')" "logged_xstate pid xstate (log m')"
    "kernel_maps = map kernel_map_of_line (kernel_lines (maps_lines content))"
    "collect_fds k pid pool0 m4 = Some (OK (fds, pool), m5)"
proof -
  from run obtain regs m1 xstate m2 exe_path m3 vmas pool kernel_maps m4 fds pool' m5 where
    s: "read_regs k pid m = (OK regs, m1)" "read_xstate k pid m1 = (OK xstate, m2)"
    "read_exe_path k pid m2 = (OK exe_path, m3)"
    "collect_vmas k pid empty_pool m3 = Some (OK (vmas, pool, kernel_maps), m4)"
    "collect_fds k pid pool m4 = Some (OK (fds, pool'), m5)"
    "write_snapshot k pid path regs xstate exe_path vmas fds pool' kernel_maps m5 = Some (OK (), m')"
    by (rule dump_stopped_steps)
  from collect_vmas_spec[OF s(4) empty_pool_wf] obtain content err m31 where
    maps: "sys_text k (OpenText (proc_path pid ''maps'')) m3 = (Inr (content, err), m31)"
    and v: "list_all2 (vma_describes pool) (dumped_lines (maps_lines content)) vmas" "vmas \<noteq> []"
      "kernel_maps = map kernel_map_of_line (kernel_lines (maps_lines content))"
      "length kernel_maps \<le> KSNAP_MAX_KERNEL_MAPS" "list_all kernel_map_wf kernel_maps"
      "pool_wf pool" "length vmas < 2 ^ 32"
    by blast
  note f = collect_fds_spec[OF s(5) v(6) laws]
  note st = collected_storable[OF s(2-5) laws]
  note look = same_memory_inspection[OF frozen]
  have "same_memory tmem m m" by (simp add: same_memory_def)
  from inspection.read_regs[OF look s(1) this] have "same_memory tmem m m1" .
  from inspection.read_xstate[OF look s(2) this] have "same_memory tmem m m2" .
  from inspection.read_exe_path[OF look s(3) this] have "same_memory tmem m m3" .
  from inspection.collect_vmas[OF look s(4) this] have "same_memory tmem m m4" .
  from inspection.collect_fds[OF look s(5) this] have mem: "tmem (world m5) = tmem (world m)"
    by (simp add: same_memory_def)
  have "extends inspects m4 m5" by (rule quiet_log.collect_fds[OF s(5)]) simp
  then have "extends inspects m4 m'" by (rule quiet_log.write_snapshot[OF s(6)])
  then have "answered k (OpenText (proc_path pid ''maps'')) (RText content err) m'"
    by (rule answered_extends) (rule collect_vmas_log[OF s(4) maps])
  moreover have "list_all2 (vma_describes pool') (dumped_lines (maps_lines content)) vmas"
    using v(1) f(2) by (rule pool_extends_wf_describes)
  moreover have "extends inspects m1 m'" "extends inspects m2 m'"
  proof -
    have l2: "extends inspects m1 m2" using quiet_log.read_xstate[OF s(2)] by simp
    have "extends inspects m2 m3" using quiet_log.read_exe_path[OF s(3)] by simp
    then have "extends inspects m2 m4" by (rule quiet_log.collect_vmas[OF s(4)])
    then have "extends inspects m2 m5" by (rule quiet_log.collect_fds[OF s(5)])
    then show "extends inspects m2 m'" by (rule quiet_log.write_snapshot[OF s(6)])
    with l2 show "extends inspects m1 m'" by (rule extends_trans)
  qed
  then have "(GetRegs pid, RRegs regs) \<in> set (log m')" "logged_xstate pid xstate (log m')"
    using read_regs_log[OF s(1)] read_xstate_log[OF s(2)] extends_log
    unfolding logged_xstate_def by blast+
  ultimately show ?thesis
    using that[OF st _ _ _ _ _ v(3) s(5)] write_snapshot_written[OF s(6) frozen st] mem by simp
qed

section \<open>The way back\<close>

text \<open>The payload of every mapping lies where its descriptor says.\<close>

lemma payload_bytes_nth:
  assumes "i < length vmas"
  shows "take (unat (vma_size (vmas ! i))) (drop (payload_size (take i vmas)) (payload_bytes mem vmas)) =
    mem_bytes mem (vma_start_address (vmas ! i)) (unat (vma_size (vmas ! i)))"
proof -
  have "vmas = take i vmas @ vmas ! i # drop (Suc i) vmas" using assms by (simp add: id_take_nth_drop)
  then have "payload_bytes mem vmas = payload_bytes mem (take i vmas) @
      mem_bytes mem (vma_start_address (vmas ! i)) (unat (vma_size (vmas ! i))) @
      payload_bytes mem (drop (Suc i) vmas)"
    by (metis (no_types, lifting) append.assoc concat.simps(2) concat_append list.simps(9) map_append
        payload_bytes_def)
  then show ?thesis by simp
qed

lemma layout_payload:
  fixes regs :: user_regs
  assumes st: "storable xstate exe_path vmas fds pool kernel_maps"
    and len: "length content < 2 ^ 63"
    and content: "content = snapshot_layout regs xstate exe_path vmas fds pool kernel_maps (payload_bytes mem vmas)"
    and v: "v \<in> set (sm_vmas (layout_metadata regs xstate exe_path vmas fds pool kernel_maps))"
  shows "take (unat (vma_size v)) (drop (unat (vma_data_offset v)) content) =
    mem_bytes mem (vma_start_address v) (unat (vma_size v))"
proof -
  let ?h = "make_header regs xstate exe_path vmas fds pool kernel_maps"
  let ?vs = "assign_offsets (dh_data_offset ?h) vmas"
  note parts = layout_parts[OF st len content] and off = make_header_offsets[OF st, of regs]
  obtain i where i: "i < length vmas" "v = ?vs ! i"
    using v by (auto simp: layout_metadata_def Let_def in_set_conv_nth)
  have "unat (dh_data_offset ?h) + payload_size vmas < 2 ^ 64"
    using len parts(7) off(11) by simp
  from assign_offsets_nth[OF i(1) this] have
    at: "unat (vma_data_offset v) = metadata_size vmas fds pool xstate + payload_size (take i vmas)"
    and sz: "vma_size v = vma_size (vmas ! i)"
    by (simp_all add: i(2) off(11))
  have start: "vma_start_address v = vma_start_address (vmas ! i)"
    using assign_offsets_fields(2)[of "dh_data_offset ?h" vmas] i by (metis length_assign_offsets nth_map)
  have "content = metadata_bytes ?h ?vs fds pool xstate @ payload_bytes mem vmas"
    by (simp add: content snapshot_layout_def Let_def)
  moreover have "length (metadata_bytes ?h ?vs fds pool xstate) = metadata_size vmas fds pool xstate"
    using length_metadata_bytes[OF make_header_wf[OF st]] by (simp add: metadata_size_def)
  ultimately have "drop (unat (vma_data_offset v)) content = drop (payload_size (take i vmas)) (payload_bytes mem vmas)"
    by (simp add: at)
  then show ?thesis using payload_bytes_nth[OF i(1)] by (simp add: sz start)
qed

text \<open>A snapshot as the restorer sees it: its metadata is accepted, and describes the memory.\<close>

definition restorable :: "bytes \<Rightarrow> (u64 \<Rightarrow> char) \<Rightarrow> maps_line list \<Rightarrow> snapshot_metadata \<Rightarrow> bool" where
  "restorable content mem ps md \<longleftrightarrow>
     map vma_start_address (sm_vmas md) = map ml_start ps \<and>
     map vma_size (sm_vmas md) = map (\<lambda>p. ml_end p - ml_start p) ps \<and>
     map vma_prot (sm_vmas md) = map (perms_to_prot \<circ> ml_privileges) ps \<and>
     (\<forall>v \<in> set (sm_vmas md). take (unat (vma_size v)) (drop (unat (vma_data_offset v)) content) =
        mem_bytes mem (vma_start_address v) (unat (vma_size v)))"

lemma described_columns:
  "list_all2 (vma_describes pool) ps vs \<Longrightarrow> map vma_start_address vs = map ml_start ps \<and>
   map vma_size vs = map (\<lambda>p. ml_end p - ml_start p) ps \<and>
   map vma_prot vs = map (perms_to_prot \<circ> ml_privileges) ps"
  by (induction rule: list_all2_induct) (auto simp: vma_describes_fields)

lemma dump_stopped_restorable:
  assumes run: "dump_stopped k pid path m = Some (OK (), m')"
    and frozen: "frozen_memory k tmem" and laws: "procfs_fd_laws k pid KSNAP_FD_FORBIDDEN_FLAGS"
    and len: "length (written m') < 2 ^ 63" and serves: "serves_file k' (written m')"
  shows "\<exists>md m1' content err. read_snapshot_metadata k' (written m') m1 = (OK md, m1') \<and>
    answered k (OpenText (proc_path pid ''maps'')) (RText content err) m' \<and>
    (GetRegs pid, RRegs (dh_regs (sm_header md))) \<in> set (log m') \<and>
    logged_xstate pid (sm_xstate md) (log m') \<and>
    restorable (written m') (tmem (world m)) (dumped_lines (maps_lines content)) md"
proof -
  obtain regs xstate exe_path vmas fds pool kernel_maps content err pool0 m4 m5
    where st: "storable xstate exe_path vmas fds pool kernel_maps"
      and w: "written m' = snapshot_layout regs xstate exe_path vmas fds pool kernel_maps
        (payload_bytes (tmem (world m)) vmas)"
      and maps: "answered k (OpenText (proc_path pid ''maps'')) (RText content err) m'"
      and v: "list_all2 (vma_describes pool) (dumped_lines (maps_lines content)) vmas"
      and st_log: "(GetRegs pid, RRegs regs) \<in> set (log m')" "logged_xstate pid xstate (log m')"
      and "kernel_maps = map kernel_map_of_line (kernel_lines (maps_lines content))"
      and "collect_fds k pid pool0 m4 = Some (OK (fds, pool), m5)"
    by (rule dump_stopped_snapshot[OF run frozen laws])
  let ?md = "layout_metadata regs xstate exe_path vmas fds pool kernel_maps"
  have "\<exists>m1'. read_snapshot_metadata k' (written m') m1 = (OK ?md, m1')"
    by (rule layout_accepted[OF st len serves w]) simp
  moreover have "restorable (written m') (tmem (world m)) (dumped_lines (maps_lines content)) ?md"
    unfolding restorable_def
  proof (intro conjI ballI)
    fix v assume "v \<in> set (sm_vmas ?md)"
    then show "take (unat (vma_size v)) (drop (unat (vma_data_offset v)) (written m')) =
        mem_bytes (tmem (world m)) (vma_start_address v) (unat (vma_size v))"
      by (rule layout_payload[OF st len w])
  qed (use described_columns[OF v] in \<open>simp_all add: layout_metadata_def Let_def assign_offsets_fields\<close>)
  moreover have "dh_regs (sm_header ?md) = regs" "sm_xstate ?md = xstate"
    by (simp_all add: layout_metadata_def Let_def make_header_def terminate_exe_path_def)
  ultimately show ?thesis using maps st_log by metis
qed

section \<open>The process is let go\<close>

context inspection
begin

lemma dump_stopped:
  assumes "dump_stopped k pid path m = Some (r, m')" "R m0 m"
  shows "R m0 m'"
proof -
  obtain a m1 where 1: "read_regs k pid m = (a, m1)" by fastforce
  obtain b m2 where 2: "read_xstate k pid m1 = (b, m2)" by fastforce
  obtain c m3 where 3: "read_exe_path k pid m2 = (c, m3)" by fastforce
  have R1: "R m0 m1" using 1 assms(2) by (rule read_regs)
  have R2: "R m0 m2" using 2 R1 by (rule read_xstate)
  have R3: "R m0 m3" using 3 R2 by (rule read_exe_path)
  show ?thesis
  proof (cases "a = ERROR \<or> b = ERROR \<or> c = ERROR")
    case True
    then show ?thesis using assms(1) 1 2 3 R1 R2 R3
      by (cases a; cases b; cases c) (auto simp: dump_stopped_def)
  next
    case False
    then obtain regs xstate exe_path where ok: "a = OK regs" "b = OK xstate" "c = OK exe_path"
      by (auto simp: rc_not_ERROR)
    then obtain d m4 where 4: "collect_vmas k pid empty_pool m3 = Some (d, m4)"
      using assms(1) 1 2 3 by (auto simp: dump_stopped_def bind_eq_Some_conv)
    have R4: "R m0 m4" using 4 R3 by (rule collect_vmas)
    show ?thesis
    proof (cases d)
      case ERROR
      then show ?thesis using assms(1) 1 2 3 4 ok R4 by (simp add: dump_stopped_def)
    next
      case (OK x)
      obtain vmas pool ks where x: "x = (vmas, pool, ks)" by (cases x)
      obtain e m5 where 5: "collect_fds k pid pool m4 = Some (e, m5)"
        using assms(1) 1 2 3 4 ok OK x by (auto simp: dump_stopped_def bind_eq_Some_conv)
      have R5: "R m0 m5" using 5 R4 by (rule collect_fds)
      show ?thesis
        using assms(1) 1 2 3 4 5 ok OK x R5 by (cases e) (auto simp: dump_stopped_def dest: write_snapshot)
    qed
  qed
qed

end

text \<open>The calls between \<open>PTRACE_SEIZE\<close> and the release: they stop the process and look at it.\<close>

definition stops_or_inspects :: "int \<Rightarrow> syscall \<Rightarrow> bool" where
  "stops_or_inspects pid c \<longleftrightarrow> inspects c \<or> c = Interrupt pid \<or> c = Waitpid pid"

lemma stops_or_inspects_inspection: "inspection k (extends (stops_or_inspects pid))"
  by unfold_locales (auto simp: stops_or_inspects_def intro: extends_trans extends_call)

lemma dump_seized_calls:
  assumes "dump_seized k pid path m = Some (r, m')"
  shows "extends (stops_or_inspects pid) m m'"
proof -
  obtain x m1 where 1: "sys_unit k (Interrupt pid) m = (x, m1)" by fastforce
  obtain y m2 where 2: "sys_int k (Waitpid pid) m1 = (y, m2)" by fastforce
  have R1: "extends (stops_or_inspects pid) m m1"
    by (rule log_frame.bound(1)[OF 1]) (simp_all add: stops_or_inspects_def)
  have R2: "extends (stops_or_inspects pid) m m2"
    by (rule log_frame.bound(2)[OF 2 _ R1]) (simp add: stops_or_inspects_def)
  show ?thesis
    using assms 1 2 R1 R2 inspection.dump_stopped[OF stops_or_inspects_inspection _ R2]
    by (auto simp: dump_seized_def split: sum.splits if_splits)
qed

text \<open>The calls that end the engine's hold on the process: it is detached, or, when \<open>-k\<close> was
  given and everything succeeded, killed; a kill that fails is followed by a detach.\<close>

definition lets_go :: "ksnap_config \<Rightarrow> unit rc \<Rightarrow> (syscall \<times> reply) list \<Rightarrow> bool" where
  "lets_go config r evs \<longleftrightarrow>
     (\<exists>d. evs = [(Detach (cfg_pid config), d)] \<and> (r = OK () \<longrightarrow> as_unit d = Inr () \<and> \<not> cfg_kill_after_dump config)) \<or>
     (\<exists>kr w. evs = [(Kill (cfg_pid config), kr), (Waitpid (cfg_pid config), w)] \<and> as_unit kr = Inr () \<and>
        r = OK () \<and> cfg_kill_after_dump config) \<or>
     (\<exists>kr d. evs = [(Kill (cfg_pid config), kr), (Detach (cfg_pid config), d)] \<and> as_unit kr \<noteq> Inr () \<and>
        r = ERROR \<and> cfg_kill_after_dump config)"

lemma sys_log:
  "sys_unit k c m = (x, m') \<Longrightarrow> \<exists>r. log m' = log m @ [(c, r)] \<and> as_unit r = x"
  "sys_int k c m = (y, m') \<Longrightarrow> \<exists>r. log m' = log m @ [(c, r)] \<and> as_int r = y"
  using log_call[of k c m] by (auto simp: sys_unit_def sys_int_def map_prod_def split: prod.splits)

lemma dump_detach_lets_go:
  assumes "dump_detach k config result m = (r, m')"
  shows "\<exists>evs. log m' = log m @ evs \<and> lets_go config r evs \<and> (r = OK () \<longrightarrow> result = OK ())"
proof (cases "result = OK () \<and> cfg_kill_after_dump config")
  case False
  obtain x m1 where d: "sys_unit k (Detach (cfg_pid config)) m = (x, m1)" by fastforce
  show ?thesis
    using assms False d sys_log(1)[OF d]
    by (cases x) (auto simp: dump_detach_def Let_def lets_go_def)
next
  case True
  obtain x m1 where kill: "sys_unit k (Kill (cfg_pid config)) m = (x, m1)" by fastforce
  obtain y m2 where wait: "sys_int k (Waitpid (cfg_pid config)) m1 = (y, m2)" by fastforce
  obtain z m3 where det: "sys_unit k (Detach (cfg_pid config)) m1 = (z, m3)" by fastforce
  show ?thesis
    using assms True kill wait det sys_log(1)[OF kill] sys_log(2)[OF wait] sys_log(1)[OF det]
    by (cases x; cases z) (auto simp: dump_detach_def Let_def lets_go_def)
qed

lemma dump_releases:
  assumes "dump k config m = Some (r, m')"
  obtains (no_path) "m' = m" "r = ERROR" "build_snapshot_path config = ERROR"
  | (not_seized) s where "log m' = log m @ [(Seize (cfg_pid config), s)]" "as_unit s \<noteq> Inr ()" "r = ERROR"
  | (seized) s mid evs where "log m' = log m @ (Seize (cfg_pid config), s) # mid @ evs" "as_unit s = Inr ()"
      "list_all (stops_or_inspects (cfg_pid config) \<circ> fst) mid" "lets_go config r evs"
proof (cases "build_snapshot_path config")
  case ERROR
  then show ?thesis using assms no_path by (simp add: dump_def)
next
  case (OK path)
  obtain x m1 where seize: "sys_unit k (Seize (cfg_pid config)) m = (x, m1)" by fastforce
  from sys_log(1)[OF seize] obtain s where s: "log m1 = log m @ [(Seize (cfg_pid config), s)]" "as_unit s = x"
    by blast
  show ?thesis
  proof (cases x)
    case (Inl e)
    then show ?thesis using assms OK seize s not_seized[of s] by (simp add: dump_def)
  next
    case (Inr u)
    then obtain result m2 where d: "dump_seized k (cfg_pid config) path m1 = Some (result, m2)"
      and det: "dump_detach k config result m2 = (r, m')"
      using assms OK seize by (auto simp: dump_def bind_eq_Some_conv)
    from dump_seized_calls[OF d] dump_detach_lets_go[OF det] s Inr show ?thesis
      by (auto simp: extends_def intro!: seized)
  qed
qed

section \<open>The dump returns\<close>

lemma collect_vma_total:
  assumes "pool_wf (vc_pool c)" "storable_path (ml_path p)"
  shows "\<exists>r m'. collect_vma k p c m = Some (r, m') \<and> (\<forall>c'. r = OK c' \<longrightarrow> pool_wf (vc_pool c'))"
proof -
  obtain cap m1 where res:
    "reserve_entry k VMA_TABLE_INITIAL_CAPACITY vma_width (length (vc_vmas c)) (vc_capacity c) m = (cap, m1)"
    by fastforce
  obtain r m2 where "pool_append k (vc_pool c) (ml_path p) m1 = Some (r, m2)"
    "\<forall>pool' off. r = OK (pool', off) \<longrightarrow> pool_wf pool'"
    using pool_append_total[OF assms, of k m1] by (auto simp: appended_def)
  then show ?thesis
    using assms(1) res by (cases cap; cases r) (auto simp: collect_vma_def)
qed

lemma collect_lines_total:
  "pool_wf (vc_pool c) \<Longrightarrow> \<forall>p \<in> set ps. storable_path (ml_path p) \<Longrightarrow>
   \<exists>r m'. collect_lines k ps c m = Some (r, m') \<and> (\<forall>c'. r = OK c' \<longrightarrow> pool_wf (vc_pool c'))"
proof (induction ps arbitrary: c m)
  case (Cons p ps)
  show ?case
  proof (cases "classify_maps_line p")
    case VMA_DUMP
    obtain r1 m1 where "collect_vma k p c m = Some (r1, m1)" "\<forall>c'. r1 = OK c' \<longrightarrow> pool_wf (vc_pool c')"
      using collect_vma_total[of c p] Cons.prems by fastforce
    then show ?thesis using Cons VMA_DUMP by (cases r1) simp_all
  next
    case VMA_KERNEL
    have "\<forall>c'. collect_kernel_map p c = OK c' \<longrightarrow> pool_wf (vc_pool c')"
      using Cons.prems by (auto simp: collect_kernel_map_def)
    then show ?thesis using Cons VMA_KERNEL by (cases "collect_kernel_map p c") simp_all
  qed (use Cons in simp_all)
qed simp

lemma collect_vmas_total:
  assumes "pool_wf pool"
  shows "\<exists>r m'. collect_vmas k pid pool m = Some (r, m') \<and>
    (\<forall>vmas pool' ks. r = OK (vmas, pool', ks) \<longrightarrow> pool_wf pool')"
proof -
  obtain x m1 where t: "sys_text k (OpenText (proc_path pid ''maps'')) m = (x, m1)" by fastforce
  show ?thesis
  proof (cases x)
    case (Inr y)
    obtain content err where y: "y = (content, err)" by fastforce
    have "\<forall>p \<in> set (maps_lines content). storable_path (ml_path p)"
      by (auto simp: storable_path_def dest: maps_lines_wf)
    then obtain r m2 where "collect_lines k (maps_lines content)
        \<lparr>vc_vmas = [], vc_capacity = 0, vc_kernel_maps = [], vc_pool = pool\<rparr> m1 = Some (r, m2)"
      "\<forall>c'. r = OK c' \<longrightarrow> pool_wf (vc_pool c')"
      using collect_lines_total[of "\<lparr>vc_vmas = [], vc_capacity = 0, vc_kernel_maps = [], vc_pool = pool\<rparr>"] assms
      by fastforce
    then show ?thesis using t Inr y by (cases r) (auto simp: collect_vmas_def)
  qed (use t in \<open>simp add: collect_vmas_def\<close>)
qed

lemma collect_entries_total:
  "pool_wf (fc_pool c) \<Longrightarrow> \<exists>r m'. collect_entries k pid names c m = Some (r, m')"
proof (induction names arbitrary: c m)
  case (Cons d_name names)
  obtain cls path m1 where cls: "classify_fd k pid (atoi d_name) m = ((cls, path), m1)"
    by (metis surj_pair)
  show ?case
  proof (cases "isdigit (char_at d_name 0) \<and> cls = FD_DUMP")
    case True
    then have st: "storable_path path"
      using classify_fd_dump(2,3)[of k pid "atoi d_name" m path m1] cls by (simp add: storable_path_def)
    obtain cap m2 where res:
      "reserve_entry k FD_TABLE_INITIAL_CAPACITY fd_width (length (fc_fds c)) (fc_capacity c) m1 = (cap, m2)"
      by fastforce
    obtain fdst m3 where st1: "read_fd_state k pid (atoi d_name) m2 = (fdst, m3)" by fastforce
    obtain r m4 where "pool_append k (fc_pool c) path m3 = Some (r, m4)"
      "\<forall>pool' off. r = OK (pool', off) \<longrightarrow> pool_wf pool'"
      using pool_append_total[OF Cons.prems st, of k m3] by (auto simp: appended_def)
    then obtain r2 m5 where one: "collect_fd k pid (atoi d_name) path c m1 = Some (r2, m5)"
      and wf: "\<forall>c'. r2 = OK c' \<longrightarrow> pool_wf (fc_pool c')"
      using Cons.prems res st1
      by (cases cap; cases fdst; cases r) (auto simp: collect_fd_def)
    then show ?thesis using Cons.IH cls True by (cases r2) auto
  next
    case False
    then show ?thesis using Cons cls by auto
  qed
qed simp

lemma collect_fds_total:
  assumes "pool_wf pool"
  shows "\<exists>r m'. collect_fds k pid pool m = Some (r, m')"
proof -
  obtain x m1 where n: "sys_names k (ListDir (proc_path pid ''fd'')) m = (x, m1)" by fastforce
  show ?thesis
  proof (cases x)
    case (Inr names)
    obtain r m2 where "collect_entries k pid names \<lparr>fc_fds = [], fc_capacity = 0, fc_pool = pool\<rparr> m1 = Some (r, m2)"
      using collect_entries_total[of "\<lparr>fc_fds = [], fc_capacity = 0, fc_pool = pool\<rparr>" k pid names m1] assms
      by auto
    then show ?thesis using n Inr by (cases r) (auto simp: collect_fds_def split: prod.split)
  qed (use n in \<open>simp add: collect_fds_def\<close>)
qed

lemma dump_stopped_total:
  assumes fuel: "interrupts_bounded k fuel"
  shows "\<exists>r m'. dump_stopped k pid path m = Some (r, m')"
proof -
  obtain a m1 where 1: "read_regs k pid m = (a, m1)" by fastforce
  obtain b m2 where 2: "read_xstate k pid m1 = (b, m2)" by fastforce
  obtain c m3 where 3: "read_exe_path k pid m2 = (c, m3)" by fastforce
  obtain d m4 where 4: "collect_vmas k pid empty_pool m3 = Some (d, m4)"
    and wf: "\<forall>vmas pool' ks. d = OK (vmas, pool', ks) \<longrightarrow> pool_wf pool'"
    using collect_vmas_total[OF empty_pool_wf, of k pid m3] by blast
  have 5: "\<exists>r m'. collect_fds k pid pool m4 = Some (r, m')" if "d = OK (vmas, pool, ks)" for vmas pool ks
    using wf that by (intro collect_fds_total) blast
  show ?thesis
  proof (cases d)
    case ERROR
    then show ?thesis using 1 2 3 4 by (cases a; cases b; cases c) (simp_all add: dump_stopped_def)
  next
    case (OK x)
    obtain vmas pool ks where x: "x = (vmas, pool, ks)" by (cases x)
    obtain e m5 where "collect_fds k pid pool m4 = Some (e, m5)" using 5 OK x by blast
    then show ?thesis
      using 1 2 3 4 OK x write_snapshot_total[OF fuel]
      by (cases a; cases b; cases c; cases e) (auto simp: dump_stopped_def)
  qed
qed

lemma dump_total:
  assumes fuel: "interrupts_bounded k fuel"
  shows "\<exists>r m'. dump k config m = Some (r, m')"
proof (cases "build_snapshot_path config")
  case (OK path)
  obtain x m1 where seize: "sys_unit k (Seize (cfg_pid config)) m = (x, m1)" by fastforce
  have "\<exists>r m2. dump_seized k (cfg_pid config) path m1 = Some (r, m2)"
    using dump_stopped_total[OF fuel] by (auto simp: dump_seized_def split: prod.split sum.split)
  then obtain r m2 where "dump_seized k (cfg_pid config) path m1 = Some (r, m2)" by blast
  then show ?thesis
    using OK seize by (cases x) (simp_all add: dump_def)
qed (simp add: dump_def)

section \<open>The whole dump\<close>

text \<open>A dump that succeeds went through the stop, and did not touch the file afterwards.\<close>

lemma dump_detach_written: "dump_detach k config result m = (r, m') \<Longrightarrow> written m' = written m"
  by (auto simp: dump_detach_def Let_def leaves_file_def split: prod.splits sum.splits if_splits
      dest!: leaves_unit simp: file_frame.typed(2))

lemma dump_OK_stop:
  assumes "dump k config m = Some (OK (), m')"
  obtains path s i w status m0 m1 where "build_snapshot_path config = OK path"
    "log m0 = log m @ [(Seize (cfg_pid config), s), (Interrupt (cfg_pid config), i), (Waitpid (cfg_pid config), w)]"
    "as_int w = Inr status" "WIFSTOPPED status"
    "dump_stopped k (cfg_pid config) path m0 = Some (OK (), m1)"
    "written m' = written m1" "\<exists>evs. log m' = log m1 @ evs"
proof -
  let ?pid = "cfg_pid config"
  obtain path where path: "build_snapshot_path config = OK path"
    using assms by (cases "build_snapshot_path config") (simp_all add: dump_def)
  obtain x ma where seize: "sys_unit k (Seize ?pid) m = (x, ma)" by fastforce
  obtain result m1 where d: "dump_seized k ?pid path ma = Some (result, m1)"
    and det: "dump_detach k config result m1 = (OK (), m')"
    using assms path seize by (cases x) (auto simp: dump_def bind_eq_Some_conv)
  have result: "result = OK ()" using dump_detach_lets_go[OF det] by blast
  obtain y mb where int: "sys_unit k (Interrupt ?pid) ma = (y, mb)" by fastforce
  obtain z m0 where wait: "sys_int k (Waitpid ?pid) mb = (z, m0)" by fastforce
  obtain status where z: "z = Inr status" "WIFSTOPPED status"
    and st: "dump_stopped k ?pid path m0 = Some (OK (), m1)"
    using d[unfolded result] int wait
    by (cases y; cases z) (auto simp: dump_seized_def split: if_splits)
  obtain s where s: "log ma = log m @ [(Seize ?pid, s)]" using sys_log(1)[OF seize] by blast
  obtain i where i: "log mb = log ma @ [(Interrupt ?pid, i)]" using sys_log(1)[OF int] by blast
  obtain w where w: "log m0 = log mb @ [(Waitpid ?pid, w)]" "as_int w = z" using sys_log(2)[OF wait] by blast
  show ?thesis
    using that[OF path _ _ z(2) st dump_detach_written[OF det], of s i w] s i w z dump_detach_lets_go[OF det]
    by auto
qed

theorem dump_restorable:
  fixes m :: "'w machine"
  assumes run: "dump k config m = Some (OK (), m')"
    and frozen: "frozen_memory k tmem"
    and laws: "procfs_fd_laws k (cfg_pid config) KSNAP_FD_FORBIDDEN_FLAGS"
    and len: "length (written m') < 2 ^ 63" and serves: "serves_file k' (written m')"
  shows "\<exists>(m0 :: 'w machine) s i w status md mr' content err.
    log m0 = log m @ [(Seize (cfg_pid config), s), (Interrupt (cfg_pid config), i), (Waitpid (cfg_pid config), w)] \<and>
    as_int w = Inr status \<and> WIFSTOPPED status \<and>
    read_snapshot_metadata k' (written m') mr = (OK md, mr') \<and>
    answered k (OpenText (proc_path (cfg_pid config) ''maps'')) (RText content err) m' \<and>
    (GetRegs (cfg_pid config), RRegs (dh_regs (sm_header md))) \<in> set (log m') \<and>
    logged_xstate (cfg_pid config) (sm_xstate md) (log m') \<and>
    restorable (written m') (tmem (world m0)) (dumped_lines (maps_lines content)) md"
proof -
  obtain path s i w status m0 m1 where
    stop: "log m0 = log m @ [(Seize (cfg_pid config), s), (Interrupt (cfg_pid config), i), (Waitpid (cfg_pid config), w)]"
      "as_int w = Inr status" "WIFSTOPPED status"
    and st: "dump_stopped k (cfg_pid config) path m0 = Some (OK (), m1)"
    and w1: "written m' = written m1" and log: "\<exists>evs. log m' = log m1 @ evs"
    by (rule dump_OK_stop[OF run])
  have "length (written m1) < 2 ^ 63" "serves_file k' (written m1)" using len serves w1 by simp_all
  from dump_stopped_restorable[OF st frozen laws this, of mr] obtain md mr' content err where
    md: "read_snapshot_metadata k' (written m') mr = (OK md, mr')"
    "restorable (written m') (tmem (world m0)) (dumped_lines (maps_lines content)) md"
    and evs: "answered k (OpenText (proc_path (cfg_pid config) ''maps'')) (RText content err) m1"
    "(GetRegs (cfg_pid config), RRegs (dh_regs (sm_header md))) \<in> set (log m1)"
    "logged_xstate (cfg_pid config) (sm_xstate md) (log m1)"
    unfolding w1 by blast
  have evs': "answered k (OpenText (proc_path (cfg_pid config) ''maps'')) (RText content err) m'"
    "(GetRegs (cfg_pid config), RRegs (dh_regs (sm_header md))) \<in> set (log m')"
    "logged_xstate (cfg_pid config) (sm_xstate md) (log m')"
    using evs log by (auto simp: logged_xstate_def answered_def)
  show ?thesis by (intro exI conjI) (rule stop md evs')+
qed

end
