(* ===== verification/Sample.thy ===== *)
theory Sample
  imports Checkpoint
begin

text \<open>
  A kernel to try the definitions on: one process with one mapping of one page and no descriptor,
  stopped at once, its memory all zeros. It keeps no state, and answers every call that the dump
  of this process makes the way Linux would.
\<close>

definition zeros :: "nat \<Rightarrow> bytes" where
  "zeros n = replicate n NUL"

lemma length_zeros [simp]: "length (zeros n) = n"
  by (simp add: zeros_def)

lemma take_zeros [simp]: "take i (zeros n) = zeros (min i n)"
  by (simp add: zeros_def min_def)

definition sample_maps :: bytes where
  "sample_maps = ''1000-2000 rw-p 00000000 00:00 0'' @ [CHR 0x0A]"

definition sample_status :: bytes where
  "sample_status = concat (map (\<lambda>l. l @ [CHR 0x0A])
     [''Name: x'', ''State: S (sleeping)'', ''TracerPid: 0'', ''Uid: 1000'', ''VmRSS: 772 kB'', ''Threads: 1''])"

text \<open>A file of \<open>/proc/<pid>\<close> by its name.\<close>

definition sample_text :: "string \<Rightarrow> bytes" where
  "sample_text path =
     (if take 7 (rev path) = rev ''/status'' then sample_status
      else if take 8 (rev path) = rev ''/cmdline'' then ''x'' @ [NUL]
      else if take 9 (rev path) = rev ''/children'' then []
      else sample_maps)"

lemma sample_text_proc:
  "sample_text (proc_path pid ''maps'') = sample_maps" "sample_text (proc_path pid ''status'') = sample_status"
  "sample_text (proc_path pid ''cmdline'') = ''x'' @ [NUL]"
  "sample_text (proc_path pid (''task/'' @ dec_int pid @ ''/children'')) = []"
  by (simp_all add: sample_text_def proc_path_def)

definition sample_line :: maps_line where
  "sample_line = \<lparr>ml_start = 0x1000, ml_end = 0x2000, ml_file_offset = 0, ml_privileges = ''rw-p'',
     ml_path = ''''\<rparr>"

definition sample_regs :: user_regs where
  "sample_regs = words_regs (replicate 27 0)"

definition sample_reply :: "syscall \<Rightarrow> reply" where
  "sample_reply c =
     (case c of
        OpenText path \<Rightarrow> RText (sample_text path) False
      | Readlink path n \<Rightarrow> RBytes ''/bin/x''
      | ListDir path \<Rightarrow> RNames []
      | Stat path \<Rightarrow> RErr EACCES
      | Waitpid pid \<Rightarrow> RInt 0x137F
      | GetRegs pid \<Rightarrow> RRegs sample_regs
      | GetXstate pid n \<Rightarrow> RBytes (zeros 576)
      | Pread a n \<Rightarrow> RBytes (zeros n)
      | Fwrite items width \<Rightarrow> RInt (int (length items div width))
      | Ftell \<Rightarrow> RInt 5216
      | Fstat \<Rightarrow> RInt 9312
      | _ \<Rightarrow> RInt 0)"

definition sample_kernel :: "unit kernel" where
  "sample_kernel c w = (sample_reply c, w)"

definition sample_config :: ksnap_config where
  "sample_config = \<lparr>cfg_mode = Some ''DUMP'', cfg_pid = 42, cfg_file_name = Some ''s'',
     cfg_output_dir = Some ''/tmp'', cfg_kill_after_dump = False\<rparr>"

definition start :: "unit machine" where
  "start = \<lparr>world = (), log = []\<rparr>"

section \<open>It is a kernel the theorems are about\<close>

definition sample_memory :: "unit \<Rightarrow> u64 \<Rightarrow> char" where
  "sample_memory w a = NUL"

lemma sample_frozen: "frozen_memory sample_kernel sample_memory"
proof -
  have "mem_bytes (sample_memory w) a n = zeros n" for w a n
    by (simp add: mem_bytes_def sample_memory_def zeros_def map_replicate_const)
  then show ?thesis by (auto simp: frozen_memory_def sample_kernel_def sample_reply_def sample_memory_def)
qed

lemma sample_interrupts: "interrupts_bounded sample_kernel (\<lambda>_. 0)"
  by (simp add: interrupts_bounded_def sample_kernel_def sample_reply_def)

lemma sample_laws: "procfs_fd_laws sample_kernel pid forbidden"
proof -
  have "classify_fd sample_kernel pid fd m \<noteq> ((FD_DUMP, path), m')" for fd m path m'
    by (auto simp: classify_fd_def sys_stat_def call_def sample_kernel_def sample_reply_def
        split: if_splits sum.splits prod.splits)
  then show ?thesis
    by (auto simp: procfs_fd_laws_def sample_kernel_def sample_reply_def listed_fds_def)
qed

lemma sample_serves: "length content = 9312 \<Longrightarrow> serves_file sample_kernel content"
  by (simp add: serves_file_def sample_kernel_def sample_reply_def)

section \<open>The dump of its process\<close>

lemmas sample_calls = sys_defs sys_alloc_def call_def sample_kernel_def sample_reply_def sample_text_proc

lemma sample_maps_lines: "maps_lines sample_maps = [sample_line]"
  by code_simp

lemma sample_classify: "classify_maps_line sample_line = VMA_DUMP"
  by code_simp

definition sample_vma :: vma_descriptor where
  "sample_vma = vma_of_line sample_line 0"

lemma sample_vma_size: "unat (vma_size sample_vma) = 4096"
  by (simp add: sample_vma_def vma_of_line_def sample_line_def)

lemma sample_collect_vmas:
  "\<exists>m'. collect_vmas sample_kernel pid empty_pool m = Some (OK ([sample_vma], empty_pool, []), m')"
proof -
  have "\<exists>m'. collect_vma sample_kernel sample_line
      \<lparr>vc_vmas = [], vc_capacity = 0, vc_kernel_maps = [], vc_pool = empty_pool\<rparr> m =
      Some (OK \<lparr>vc_vmas = [sample_vma], vc_capacity = 64, vc_kernel_maps = [], vc_pool = empty_pool\<rparr>, m')" for m
    by (simp add: collect_vma_def reserve_entry_def sample_calls VMA_TABLE_INITIAL_CAPACITY_def
        vma_width_def sample_line_def sample_vma_def)
  then obtain m' where "collect_vma sample_kernel sample_line
      \<lparr>vc_vmas = [], vc_capacity = 0, vc_kernel_maps = [], vc_pool = empty_pool\<rparr>
      (snd (sys_text sample_kernel (OpenText (proc_path pid ''maps'')) m)) =
      Some (OK \<lparr>vc_vmas = [sample_vma], vc_capacity = 64, vc_kernel_maps = [], vc_pool = empty_pool\<rparr>, m')"
    by blast
  then show ?thesis
    by (simp add: collect_vmas_def sample_maps_lines sample_classify sample_calls)
qed

lemma sample_collect_fds:
  "\<exists>m'. collect_fds sample_kernel pid pool m = Some (OK ([], pool), m')"
  by (simp add: collect_fds_def find_shared_files_def sort_fds_def sample_calls)

lemma sample_fwrite:
  "0 < width \<Longrightarrow> length items = width * count \<Longrightarrow>
   \<exists>m'. sys_fwrite sample_kernel items width count m = (True, m')"
  by (simp add: sys_fwrite_def sample_calls)

lemma sample_storable: "storable (zeros 576) ''/bin/x'' [sample_vma] [] empty_pool []"
  by (simp add: storable_def KSNAP_XSTATE_MIN_SIZE_def KSNAP_XSTATE_MAX_SIZE_def PATH_MAX_def
      sample_vma_def vma_of_line_def sample_line_def perms_to_prot_def PROT_ALL_def
      PROT_READ_def PROT_WRITE_def PROT_EXEC_def char_at_def)

lemma sample_copy_turn:
  "\<exists>m'. copy_turn sample_kernel (sample_vma\<lparr>vma_data_offset := off\<rparr>) 0 m = (Some 0x1000, m')"
proof -
  have sz: "vma_size sample_vma = 0x1000"
    by (simp add: sample_vma_def vma_of_line_def sample_line_def)
  obtain m1 where "sys_bytes sample_kernel (Pread (vma_start_address sample_vma) 4096) 4096 m = (Inr (zeros 4096), m1)"
    by (simp add: sample_calls)
  moreover obtain m2 where "sys_fwrite sample_kernel (zeros 4096) 1 4096 m1 = (True, m2)"
    using sample_fwrite[of 1 "zeros 4096" 4096 m1] by auto
  ultimately show ?thesis by (simp add: copy_turn_def sz PAGE_SIZE_def)
qed

lemma sample_payloads:
  "\<exists>m'. write_payloads sample_kernel (assign_offsets off [sample_vma]) m = Some (OK (), m')"
proof -
  obtain m' where "copy_turn sample_kernel (sample_vma\<lparr>vma_data_offset := off\<rparr>) 0 m = (Some 0x1000, m')"
    using sample_copy_turn by blast
  moreover have "vma_size sample_vma = 0x1000"
    by (simp add: sample_vma_def vma_of_line_def sample_line_def)
  ultimately show ?thesis
    by (simp add: write_vma_payload_def copy_payload.simps)
qed

lemma sample_write_contents:
  fixes regs :: user_regs
  defines "h \<equiv> make_header regs (zeros 576) ''/bin/x'' [sample_vma] [] empty_pool []"
  shows "\<exists>m'. write_contents sample_kernel h (assign_offsets (dh_data_offset h) [sample_vma]) []
    empty_pool (zeros 576) m = Some (OK (), m')"
proof -
  let ?vs = "assign_offsets (dh_data_offset h) [sample_vma]"
  have "length (encode_header h) = header_width * 1"
    using header_codec.enc_length[OF make_header_wf[OF sample_storable]] by (simp add: h_def)
  from sample_fwrite[OF _ this] obtain m1 where
    1: "sys_fwrite sample_kernel (encode_header h) header_width 1 m = (True, m1)"
    by (auto simp: header_width_def)
  obtain m2 where 2: "sys_fwrite sample_kernel (encode_items encode_vma ?vs) vma_width 1 m1 = (True, m2)"
    using sample_fwrite[of vma_width "encode_items encode_vma ?vs" 1 m1] vma_codec.length_encode_items[of ?vs]
    by (auto simp: vma_width_def)
  obtain m3 where 3: "sys_fwrite sample_kernel (zeros 576) 1 576 m2 = (True, m3)"
    using sample_fwrite[of 1 "zeros 576" 576 m2] by auto
  have meta: "write_metadata sample_kernel h ?vs [] empty_pool (zeros 576) m = (True, m3)"
    using 1 2 3 by (simp add: write_metadata_def Let_def empty_pool_def)
  have "unat (dh_data_offset h) = 5216"
    using make_header_offsets(11)[OF sample_storable, of regs]
    by (simp add: h_def metadata_size_def widths empty_pool_def)
  then have "dh_data_offset h = 5216" by (simp add: word_unat_eq_iff)
  moreover obtain m4 where "sys_int sample_kernel Ftell m3 = (Inr 5216, m4)" by (simp add: sample_calls)
  ultimately show ?thesis
    using meta sample_payloads[of "dh_data_offset h" m4] by (simp add: write_contents_def)
qed

lemma sample_write_snapshot:
  "\<exists>m'. write_snapshot sample_kernel pid path regs (zeros 576) ''/bin/x'' [sample_vma] [] empty_pool [] m =
    Some (OK (), m')"
proof -
  let ?h = "make_header regs (zeros 576) ''/bin/x'' [sample_vma] [] empty_pool []"
  obtain m1 where 1: "sys_int sample_kernel (OpenMem (proc_path pid ''mem'') False) m = (Inr 0, m1)"
    by (simp add: sample_calls)
  obtain m2 where 2: "sys_unit sample_kernel (FopenWrite path) m1 = (Inr (), m2)"
    by (simp add: sample_calls)
  obtain m3 where 3: "write_contents sample_kernel ?h (assign_offsets (dh_data_offset ?h) [sample_vma]) []
      empty_pool (zeros 576) m2 = Some (OK (), m3)"
    using sample_write_contents by blast
  have "\<exists>m'. finish_file sample_kernel (OK ()) m4 = (OK (), m')" for m4
    by (simp add: finish_file_def Let_def sample_calls)
  with 1 2 3 show ?thesis by (simp add: write_snapshot_def Let_def del: assign_offsets.simps)
qed

definition sample_file :: bytes where
  "sample_file = snapshot_layout sample_regs (zeros 576) ''/bin/x'' [sample_vma] [] empty_pool [] (zeros 4096)"

lemma length_sample_file: "length sample_file = 9312"
  using length_metadata_bytes[OF make_header_wf[OF sample_storable]]
  by (simp add: sample_file_def snapshot_layout_def Let_def metadata_size_def widths empty_pool_def)

lemma sample_payload: "payload_bytes (sample_memory w) [sample_vma] = zeros 4096"
  by (simp add: payload_bytes_def mem_bytes_def sample_memory_def zeros_def map_replicate_const sample_vma_size)

lemma sample_dump_stopped:
  "\<exists>m'. dump_stopped sample_kernel pid path m = Some (OK (), m') \<and> written m' = sample_file"
proof -
  obtain m1 where 1: "read_regs sample_kernel pid m = (OK sample_regs, m1)"
    by (simp add: read_regs_def sample_calls)
  obtain m2 where 2: "read_xstate sample_kernel pid m1 = (OK (zeros 576), m2)"
    by (simp add: read_xstate_def sample_calls KSNAP_XSTATE_MAX_SIZE_def KSNAP_XSTATE_MIN_SIZE_def)
  obtain m3 where 3: "read_exe_path sample_kernel pid m2 = (OK ''/bin/x'', m3)"
    by (simp add: read_exe_path_def sample_calls PATH_MAX_def MIN_LEN_PATH_def c_str_def)
  obtain m4 where 4: "collect_vmas sample_kernel pid empty_pool m3 = Some (OK ([sample_vma], empty_pool, []), m4)"
    using sample_collect_vmas by blast
  obtain m5 where 5: "collect_fds sample_kernel pid empty_pool m4 = Some (OK ([], empty_pool), m5)"
    using sample_collect_fds by blast
  obtain m' where 6: "write_snapshot sample_kernel pid path sample_regs (zeros 576) ''/bin/x'' [sample_vma]
      [] empty_pool [] m5 = Some (OK (), m')"
    using sample_write_snapshot by blast
  have "written m' = sample_file"
    by (simp add: write_snapshot_written[OF 6 sample_frozen sample_storable] sample_file_def sample_payload)
  then show ?thesis using 1 2 3 4 5 6 by (simp add: dump_stopped_def)
qed

lemma sample_dump:
  "\<exists>m'. dump sample_kernel sample_config m = Some (OK (), m') \<and> written m' = sample_file"
proof -
  have path: "build_snapshot_path sample_config = OK ''/tmp/s''" by code_simp
  obtain m1 where 1: "sys_unit sample_kernel (Seize 42) m = (Inr (), m1)" by (simp add: sample_calls)
  obtain m2 where 2: "sys_unit sample_kernel (Interrupt 42) m1 = (Inr (), m2)" by (simp add: sample_calls)
  obtain m3 where 3: "sys_int sample_kernel (Waitpid 42) m2 = (Inr 0x137F, m3)" by (simp add: sample_calls)
  obtain m4 where 4: "dump_stopped sample_kernel 42 ''/tmp/s'' m3 = Some (OK (), m4)"
    "written m4 = sample_file"
    using sample_dump_stopped by blast
  obtain m' where 5: "dump_detach sample_kernel sample_config (OK ()) m4 = (OK (), m')"
    by (simp add: dump_detach_def sample_config_def sample_calls)
  have "dump sample_kernel sample_config m = Some (OK (), m')"
    using path 1 2 3 4 5
    by (simp add: dump_def dump_seized_def WIFSTOPPED_def sample_config_def)
  then show ?thesis using dump_detach_written[OF 5] 4 by simp
qed

end
