(* ===== verification/Inject.thy ===== *)
theory Inject
  imports DumpFormat
begin

unbundle bit_operations_syntax

text \<open>
  Running one system call inside the stopped child (\<open>inject_syscall\<close> and its callers in
  \<open>src/restorer.c\<close>), and what the log of calls says the child has executed.
\<close>

definition SYS_mmap :: u64 where "SYS_mmap = 9"
definition SYS_mprotect :: u64 where "SYS_mprotect = 10"
definition SYS_mremap :: u64 where "SYS_mremap = 25"
definition SYS_fcntl :: u64 where "SYS_fcntl = 72"
definition PROT_RWX :: u64 where "PROT_RWX = 7" \<comment> \<open>\<open>PROT_READ | PROT_WRITE | PROT_EXEC\<close>\<close>
definition MMAP_FLAGS :: u64 where "MMAP_FLAGS = 0x32" \<comment> \<open>\<open>MAP_PRIVATE | MAP_ANONYMOUS | MAP_FIXED\<close>\<close>
definition MREMAP_FLAGS :: u64 where "MREMAP_FLAGS = 3" \<comment> \<open>\<open>MREMAP_MAYMOVE | MREMAP_FIXED\<close>\<close>
definition F_SETFD :: u64 where "F_SETFD = 2"
definition FD_CLOEXEC :: u64 where "FD_CLOEXEC = 1"

section \<open>One system call\<close>

text \<open>Number and arguments, in the order of the parameters of \<open>inject_syscall\<close>.\<close>

record injection =
  inj_number :: u64
  inj_arg1 :: u64
  inj_arg2 :: u64
  inj_arg3 :: u64
  inj_arg4 :: u64
  inj_arg5 :: u64
  inj_arg6 :: u64

definition load_injection :: "injection \<Rightarrow> user_regs \<Rightarrow> user_regs" where
  "load_injection i regs =
     regs\<lparr>reg_rax := inj_number i, reg_rdi := inj_arg1 i, reg_rsi := inj_arg2 i, reg_rdx := inj_arg3 i,
          reg_r10 := inj_arg4 i, reg_r8 := inj_arg5 i, reg_r9 := inj_arg6 i\<rparr>"

definition plant_opcode :: "u64 \<Rightarrow> u64" where
  "plant_opcode original_code = (original_code AND 0xFFFFFFFFFFFF0000) OR 0x050F"

text \<open>The result is \<open>rax\<close> after the step. The write that puts the code back is not checked.\<close>

definition inject_syscall :: "'w kernel \<Rightarrow> int \<Rightarrow> injection \<Rightarrow> 'w machine \<Rightarrow> u64 rc \<times> 'w machine" where
  "inject_syscall k pid i m =
     (case sys_regs k (GetRegs pid) m of (Inl e, m) \<Rightarrow> (ERROR, m) | (Inr saved_regs, m) \<Rightarrow>
     (case sys_unit k (SetRegs pid (load_injection i saved_regs)) m of (Inl e, m) \<Rightarrow> (ERROR, m) | (Inr _, m) \<Rightarrow>
     (case sys_word k (PeekText pid (reg_rip saved_regs)) m of (Inl e, m) \<Rightarrow> (ERROR, m) | (Inr original_code, m) \<Rightarrow>
     (case sys_unit k (PokeText pid (reg_rip saved_regs) (plant_opcode original_code)) m of
        (Inl e, m) \<Rightarrow> (ERROR, m) | (Inr _, m) \<Rightarrow>
     (case sys_unit k (SingleStep pid) m of (Inl e, m) \<Rightarrow> (ERROR, m) | (Inr _, m) \<Rightarrow>
     (case sys_unit k (Waitpid pid) m of (Inl e, m) \<Rightarrow> (ERROR, m) | (Inr _, m) \<Rightarrow>
     (case sys_regs k (GetRegs pid) m of (Inl e, m) \<Rightarrow> (ERROR, m) | (Inr after_regs, m) \<Rightarrow>
     (case sys_unit k (PokeText pid (reg_rip saved_regs) original_code) m of (_, m) \<Rightarrow>
     (case sys_unit k (SetRegs pid saved_regs) m of (Inl e, m) \<Rightarrow> (ERROR, m) | (Inr _, m) \<Rightarrow>
        (OK (reg_rax after_regs), m))))))))))"

definition syscall_failed :: "u64 \<Rightarrow> bool" where
  "syscall_failed syscall_result \<longleftrightarrow> syscall_result \<ge> - 4095"

text \<open>An injected call whose failure is an error of the caller.\<close>

definition inject_checked :: "'w kernel \<Rightarrow> int \<Rightarrow> injection \<Rightarrow> 'w machine \<Rightarrow> unit rc \<times> 'w machine" where
  "inject_checked k pid i m =
     (case inject_syscall k pid i m of
        (ERROR, m') \<Rightarrow> (ERROR, m')
      | (OK syscall_result, m') \<Rightarrow> (if syscall_failed syscall_result then ERROR else OK (), m'))"

section \<open>The calls the restorer injects\<close>

definition mmap_injection :: "vma_descriptor \<Rightarrow> injection" where
  "mmap_injection vma = \<lparr>inj_number = SYS_mmap, inj_arg1 = vma_start_address vma, inj_arg2 = vma_size vma,
     inj_arg3 = PROT_RWX, inj_arg4 = MMAP_FLAGS, inj_arg5 = -1, inj_arg6 = 0\<rparr>"

definition mprotect_injection :: "vma_descriptor \<Rightarrow> injection" where
  "mprotect_injection vma = \<lparr>inj_number = SYS_mprotect, inj_arg1 = vma_start_address vma,
     inj_arg2 = vma_size vma, inj_arg3 = ucast (vma_prot vma), inj_arg4 = 0, inj_arg5 = 0, inj_arg6 = 0\<rparr>"

definition cloexec_injection :: "fd_descriptor \<Rightarrow> injection" where
  "cloexec_injection d = \<lparr>inj_number = SYS_fcntl, inj_arg1 = scast (fdd_fd d), inj_arg2 = F_SETFD,
     inj_arg3 = FD_CLOEXEC, inj_arg4 = 0, inj_arg5 = 0, inj_arg6 = 0\<rparr>"

definition mremap_injection :: "u64 \<Rightarrow> u64 \<Rightarrow> kernel_map \<Rightarrow> injection" where
  "mremap_injection child_start child_size wanted = \<lparr>inj_number = SYS_mremap, inj_arg1 = child_start,
     inj_arg2 = child_size, inj_arg3 = km_size wanted, inj_arg4 = MREMAP_FLAGS,
     inj_arg5 = km_start_address wanted, inj_arg6 = 0\<rparr>"

definition inject_mmap_syscall :: "'w kernel \<Rightarrow> int \<Rightarrow> vma_descriptor \<Rightarrow> 'w machine \<Rightarrow> unit rc \<times> 'w machine" where
  "inject_mmap_syscall k pid vma m = inject_checked k pid (mmap_injection vma) m"

definition inject_mprotect_syscall :: "'w kernel \<Rightarrow> int \<Rightarrow> vma_descriptor \<Rightarrow> 'w machine \<Rightarrow> unit rc \<times> 'w machine" where
  "inject_mprotect_syscall k pid vma m = inject_checked k pid (mprotect_injection vma) m"

section \<open>What the child has executed\<close>

text \<open>The opcode: two bytes are planted, the other six stay.\<close>

lemma plant_opcode_bits:
  "take_bit 16 (plant_opcode w) = 0x050F" "drop_bit 16 (plant_opcode w) = drop_bit 16 w"
proof -
  show "take_bit 16 (plant_opcode w) = 0x050F"
    by (simp add: plant_opcode_def take_bit_or take_bit_and)
  have "(0xFFFFFFFFFFFF0000 :: u64) = NOT (mask 16)" by code_simp
  then have "plant_opcode w = (w AND NOT (mask 16)) OR 0x050F" by (simp only: plant_opcode_def)
  moreover have "drop_bit 16 (NOT (mask 16) :: u64) = drop_bit 16 (- 1)" "drop_bit 16 (0x050F :: u64) = 0"
    by code_simp+
  moreover have "drop_bit 16 w AND drop_bit 16 (- 1) = drop_bit 16 w"
    using drop_bit_and[of 16 w "- 1"] by simp
  ultimately show "drop_bit 16 (plant_opcode w) = drop_bit 16 w"
    by (simp only: drop_bit_or drop_bit_and or.right_neutral)
qed

lemma le_enc_add: "le_enc (a + b) v = le_enc a v @ le_enc b (v div 256 ^ a)"
  by (induction a arbitrary: v) (simp_all add: div_mult2_eq)

lemma le_enc_mod: "le_enc n (v mod 256 ^ n) = le_enc n v"
  by (induction n arbitrary: v) (simp_all add: mod_mult2_eq)

lemma enc64_plant_opcode:
  "enc64 (plant_opcode w) = [CHR 0x0F, CHR 0x05] @ drop 2 (enc64 w)"
proof -
  have enc: "enc64 x = le_enc 2 (unat x) @ le_enc 6 (unat x div 2 ^ 16)" for x
    using le_enc_add[of 2 6 "unat x"] by (simp add: enc64_def)
  have lo: "unat (plant_opcode w) mod 2 ^ 16 = 0x050F"
    using arg_cong[OF plant_opcode_bits(1)[of w], of unat] by (simp add: unsigned_take_bit_eq take_bit_nat_def)
  have hi: "unat (plant_opcode w) div 2 ^ 16 = unat w div 2 ^ 16"
    using arg_cong[OF plant_opcode_bits(2)[of w], of unat] by (simp add: drop_bit_eq_div unat_div_distrib)
  have "le_enc 2 (unat (plant_opcode w)) = le_enc 2 0x050F"
    using le_enc_mod[of 2 "unat (plant_opcode w)"] lo by simp
  also have "\<dots> = [CHR 0x0F, CHR 0x05]" by code_simp
  finally show ?thesis
    using hi by (simp add: enc[of "plant_opcode w"] enc[of w])
qed

end
