(* ===== verification/Reopen.thy ===== *)
theory Reopen
  imports Reader
begin

unbundle bit_operations_syntax

text \<open>
  The child of the fork before its \<open>exec\<close>: \<open>open_snapshot_fds\<close> and \<open>spawn_traced_child\<close> of
  \<open>src/restorer.c\<close>.
\<close>

text \<open>One entry of the table. The path ends at its terminator in the pool.\<close>

definition open_snapshot_fd ::
    "'w kernel \<Rightarrow> bytes \<Rightarrow> fd_descriptor \<Rightarrow> 'w machine \<Rightarrow> unit rc \<times> 'w machine" where
  "open_snapshot_fd k pool d m =
     (if fdd_dup_of d \<noteq> -1 then
        (case sys_unit k (Dup2 (sint (fdd_dup_of d)) (sint (fdd_fd d))) m of
           (Inl e, m1) \<Rightarrow> (ERROR, m1)
         | (Inr _, m1) \<Rightarrow> (OK (), m1))
      else
        (case sys_int k (OpenFile (c_str (drop (unat (fdd_path_offset d)) pool))
                           (fdd_flags d AND NOT O_CLOEXEC)) m of
           (Inl e, m1) \<Rightarrow> (ERROR, m1)
         | (Inr opened, m1) \<Rightarrow>
             (case (if fdd_flags d AND O_PATH \<noteq> 0 then (Inr (), m1)
                    else sys_unit k (Lseek opened (fdd_position d)) m1) of
                (Inl e, m2) \<Rightarrow> (ERROR, snd (sys_unit k (CloseFd opened) m2))
              | (Inr _, m2) \<Rightarrow>
                  if opened = sint (fdd_fd d) then (OK (), m2)
                  else
                    (case sys_unit k (Dup2 opened (sint (fdd_fd d))) m2 of
                       (Inl e, m3) \<Rightarrow> (ERROR, snd (sys_unit k (CloseFd opened) m3))
                     | (Inr _, m3) \<Rightarrow> (OK (), snd (sys_unit k (CloseFd opened) m3))))))"

fun open_entries ::
    "'w kernel \<Rightarrow> bytes \<Rightarrow> fd_descriptor list \<Rightarrow> 'w machine \<Rightarrow> unit rc \<times> 'w machine" where
  "open_entries k pool [] m = (OK (), m)"
| "open_entries k pool (d # rest) m =
     (case open_snapshot_fd k pool d m of
        (ERROR, m') \<Rightarrow> (ERROR, m')
      | (OK _, m') \<Rightarrow> open_entries k pool rest m')"

definition open_snapshot_fds ::
    "'w kernel \<Rightarrow> fd_descriptor list \<Rightarrow> bytes \<Rightarrow> 'w machine \<Rightarrow> unit rc \<times> 'w machine" where
  "open_snapshot_fds k fds pool m =
     (case sys_unit k (CloseRange 3) m of
        (Inl e, m') \<Rightarrow> (ERROR, m')
      | (Inr _, m') \<Rightarrow> open_entries k pool fds m')"

text \<open>The child never returns: it ends with \<open>EXIT_FAILURE\<close> or is replaced by a program.\<close>

datatype child_end = ExitFailure | Replaced string

definition spawn_traced_child ::
    "'w kernel \<Rightarrow> bytes \<Rightarrow> fd_descriptor list \<Rightarrow> bytes \<Rightarrow> 'w machine \<Rightarrow> child_end \<times> 'w machine" where
  "spawn_traced_child k exe_path fds pool m =
     (let argv0 = take (PATH_MAX - 1) (c_str exe_path) in
      case open_snapshot_fds k fds pool m of
        (ERROR, m1) \<Rightarrow> (ExitFailure, m1)
      | (OK _, m1) \<Rightarrow>
          (let m2 = snd (sys_unit k Personality m1); m3 = snd (sys_unit k TraceMe m2) in
           case sys_unit k (Execv argv0) m3 of
             (Inl e, m4) \<Rightarrow> (ExitFailure, m4)
           | (Inr _, m4) \<Rightarrow> (Replaced argv0, m4)))"

end
