(* ===== verification/Restore.thy ===== *)
theory Restore
  imports Inject Reopen Maps
begin

unbundle bit_operations_syntax

text \<open>
  The parent of the fork: the rest of \<open>src/restorer.c\<close>. The snapshot is the bytes its stream
  delivers. \<open>ERROR\<close> and \<open>OK\<close> are as in the code; on an error the child is left as it is until
  \<open>restorer\<close> kills it.
\<close>

section \<open>Memory\<close>

text \<open>A turn of the copying loop leaves less to copy.\<close>

lemma copy_in_progress:
  fixes sz c :: u64
  assumes "c < sz"
  defines "n \<equiv> min (sz - c) 4096"
  shows "0 < unat n" "unat n \<le> 4096" "unat (c + n) = unat c + unat n" "unat c + unat n \<le> unat sz"
    "unat (sz - (c + n)) < unat (sz - c)"
proof -
  have diff: "unat (sz - c) = unat sz - unat c" using assms(1) by (simp add: unat_sub)
  have n: "unat n = min (unat sz - unat c) 4096"
    using diff by (auto simp: n_def min_def word_le_nat_alt)
  have lt: "unat c < unat sz" using assms(1) by (simp add: word_less_nat_alt)
  show 1: "0 < unat n" "unat n \<le> 4096" "unat c + unat n \<le> unat sz" using n lt by auto
  then have "unat c + unat n < 2 ^ 64" using unat_u64_bound[of sz] by linarith
  then show 2: "unat (c + n) = unat c + unat n" using unat_add_lem[of c n] by simp
  then have "c + n \<le> sz" using 1 by (simp add: word_le_nat_alt)
  then show "unat (sz - (c + n)) < unat (sz - c)"
    using diff 1 2 lt by (simp add: unat_sub)
qed

text \<open>The copying loop, from \<open>curr_read\<close> on.\<close>

function copy_in ::
    "'w kernel \<Rightarrow> bytes \<Rightarrow> vma_descriptor \<Rightarrow> u64 \<Rightarrow> 'w machine \<Rightarrow> unit rc \<times> 'w machine" where
  "copy_in k content vma curr_read m =
     (if curr_read < vma_size vma then
        (let bytes_to_read_now = min (vma_size vma - curr_read) 4096;
             buff = take (unat bytes_to_read_now)
                      (drop (unat (vma_data_offset vma) + unat curr_read) content)
         in if length buff \<noteq> unat bytes_to_read_now then (ERROR, m)
            else (case sys_int k (Pwrite (vma_start_address vma + curr_read) buff) m of
                (Inl e, m') \<Rightarrow> (ERROR, m')
              | (Inr written_now, m') \<Rightarrow>
                  if written_now \<noteq> int (unat bytes_to_read_now) then (ERROR, m')
                  else copy_in k content vma (curr_read + bytes_to_read_now) m'))
      else (OK (), m))"
  by pat_completeness auto

termination
  by (relation "measure (\<lambda>(k, content, vma, c, m). unat (vma_size vma - c))")
    (auto simp: copy_in_progress(5))

declare copy_in.simps [simp del]

definition restore_vma ::
    "'w kernel \<Rightarrow> int \<Rightarrow> bytes \<Rightarrow> vma_descriptor \<Rightarrow> 'w machine \<Rightarrow> unit rc \<times> 'w machine" where
  "restore_vma k pid content vma m =
     (case inject_mmap_syscall k pid vma m of
        (ERROR, m') \<Rightarrow> (ERROR, m')
      | (OK _, m') \<Rightarrow>
          if sint (vma_data_offset vma) < 0 then (ERROR, m')
          else copy_in k content vma 0 m')"

fun restore_vmas ::
    "'w kernel \<Rightarrow> int \<Rightarrow> bytes \<Rightarrow> vma_descriptor list \<Rightarrow> 'w machine \<Rightarrow> unit rc \<times> 'w machine" where
  "restore_vmas k pid content [] m = (OK (), m)"
| "restore_vmas k pid content (vma # rest) m =
     (case restore_vma k pid content vma m of
        (ERROR, m') \<Rightarrow> (ERROR, m')
      | (OK _, m') \<Rightarrow> restore_vmas k pid content rest m')"

section \<open>Protections\<close>

text \<open>The first mapping that holds the injection site; none is \<open>length vmas\<close>.\<close>

definition holds_site :: "u64 \<Rightarrow> vma_descriptor \<Rightarrow> bool" where
  "holds_site rip vma \<longleftrightarrow> rip \<ge> vma_start_address vma \<and> rip < vma_start_address vma + vma_size vma"

fun find_site :: "u64 \<Rightarrow> nat \<Rightarrow> vma_descriptor list \<Rightarrow> nat" where
  "find_site rip i [] = i"
| "find_site rip i (vma # rest) = (if holds_site rip vma then i else find_site rip (Suc i) rest)"

text \<open>The loop over the others, with the index of the next one.\<close>

fun protect_others ::
    "'w kernel \<Rightarrow> int \<Rightarrow> nat \<Rightarrow> nat \<Rightarrow> vma_descriptor list \<Rightarrow> 'w machine \<Rightarrow> unit rc \<times> 'w machine" where
  "protect_others k pid site i [] m = (OK (), m)"
| "protect_others k pid site i (vma # rest) m =
     (if i = site \<or> vma_prot vma = PROT_ALL then protect_others k pid site (Suc i) rest m
      else (case inject_mprotect_syscall k pid vma m of
          (ERROR, m') \<Rightarrow> (ERROR, m')
        | (OK _, m') \<Rightarrow> protect_others k pid site (Suc i) rest m'))"

definition restore_protections ::
    "'w kernel \<Rightarrow> int \<Rightarrow> vma_descriptor list \<Rightarrow> 'w machine \<Rightarrow> unit rc \<times> 'w machine" where
  "restore_protections k pid vmas m =
     (case sys_regs k (GetRegs pid) m of
        (Inl e, m1) \<Rightarrow> (ERROR, m1)
      | (Inr regs, m1) \<Rightarrow>
          (let site = find_site (reg_rip regs) 0 vmas in
           case protect_others k pid site 0 vmas m1 of
             (ERROR, m2) \<Rightarrow> (ERROR, m2)
           | (OK _, m2) \<Rightarrow>
               if site < length vmas \<and> vma_prot (vmas ! site) \<noteq> PROT_ALL
               then inject_mprotect_syscall k pid (vmas ! site) m2
               else (OK (), m2)))"

section \<open>Flags of descriptors\<close>

fun restore_fd_flags ::
    "'w kernel \<Rightarrow> int \<Rightarrow> fd_descriptor list \<Rightarrow> 'w machine \<Rightarrow> unit rc \<times> 'w machine" where
  "restore_fd_flags k pid [] m = (OK (), m)"
| "restore_fd_flags k pid (d # rest) m =
     (if fdd_flags d AND O_CLOEXEC = 0 then restore_fd_flags k pid rest m
      else (case inject_checked k pid (cloexec_injection d) m of
          (ERROR, m') \<Rightarrow> (ERROR, m')
        | (OK _, m') \<Rightarrow> restore_fd_flags k pid rest m'))"

section \<open>Kernel mappings\<close>

text \<open>The name of the \<open>i\<close>-th mapping as \<open>strcmp\<close> reads it: from its first byte in the header to the
  next NUL. Nothing has checked that there is one in the array of the name.\<close>

definition kernel_map_name :: "ksnap_dump_header \<Rightarrow> nat \<Rightarrow> string" where
  "kernel_map_name header i =
     c_str (drop (sum_list (take 10 header_layout) + i * kernel_map_width + 16) (encode_header header))"

text \<open>The range the mappings of the child span, and the range they have to go to.\<close>

record map_ranges =
  child_lowest :: u64
  child_highest :: u64
  wanted_lowest :: u64
  wanted_highest :: u64

definition empty_ranges :: map_ranges where
  "empty_ranges = \<lparr>child_lowest = -1, child_highest = 0, wanted_lowest = -1, wanted_highest = 0\<rparr>"

definition widen_ranges :: "u64 \<Rightarrow> u64 \<Rightarrow> kernel_map \<Rightarrow> map_ranges \<Rightarrow> map_ranges" where
  "widen_ranges child_start child_size wanted r =
     \<lparr>child_lowest = (if child_start < child_lowest r then child_start else child_lowest r),
      child_highest = (if child_start + child_size > child_highest r then child_start + child_size
                       else child_highest r),
      wanted_lowest = (if km_start_address wanted < wanted_lowest r then km_start_address wanted
                       else wanted_lowest r),
      wanted_highest = (if km_start_address wanted + km_size wanted > wanted_highest r
                        then km_start_address wanted + km_size wanted else wanted_highest r)\<rparr>"

definition ranges_overlap :: "map_ranges \<Rightarrow> bool" where
  "ranges_overlap r \<longleftrightarrow> child_lowest r < wanted_highest r \<and> wanted_lowest r < child_highest r"

fun measure_kernel_maps ::
    "'w kernel \<Rightarrow> int \<Rightarrow> ksnap_dump_header \<Rightarrow> nat list \<Rightarrow> map_ranges \<Rightarrow> 'w machine \<Rightarrow>
      map_ranges rc \<times> 'w machine" where
  "measure_kernel_maps k pid header [] r m = (OK r, m)"
| "measure_kernel_maps k pid header (i # rest) r m =
     (case find_named_map k pid (kernel_map_name header i) m of
        (ERROR, m') \<Rightarrow> (ERROR, m')
      | (OK (child_start, child_size), m') \<Rightarrow>
          if child_size \<noteq> km_size (dh_kernel_maps header ! i) then (ERROR, m')
          else measure_kernel_maps k pid header rest
                 (widen_ranges child_start child_size (dh_kernel_maps header ! i) r) m')"

fun move_kernel_maps ::
    "'w kernel \<Rightarrow> int \<Rightarrow> ksnap_dump_header \<Rightarrow> nat list \<Rightarrow> 'w machine \<Rightarrow> unit rc \<times> 'w machine" where
  "move_kernel_maps k pid header [] m = (OK (), m)"
| "move_kernel_maps k pid header (i # rest) m =
     (case find_named_map k pid (kernel_map_name header i) m of
        (ERROR, m') \<Rightarrow> (ERROR, m')
      | (OK (child_start, child_size), m') \<Rightarrow>
          if child_start = km_start_address (dh_kernel_maps header ! i)
          then move_kernel_maps k pid header rest m'
          else
            (case inject_checked k pid
                    (mremap_injection child_start child_size (dh_kernel_maps header ! i)) m' of
               (ERROR, m'') \<Rightarrow> (ERROR, m'')
             | (OK _, m'') \<Rightarrow> move_kernel_maps k pid header rest m''))"

definition restore_kernel_maps ::
    "'w kernel \<Rightarrow> int \<Rightarrow> ksnap_dump_header \<Rightarrow> 'w machine \<Rightarrow> unit rc \<times> 'w machine" where
  "restore_kernel_maps k pid header m =
     (let is = [0..<unat (dh_kernel_map_count header)] in
      if is = [] then (OK (), m)
      else (case measure_kernel_maps k pid header is empty_ranges m of
          (ERROR, m') \<Rightarrow> (ERROR, m')
        | (OK r, m') \<Rightarrow>
            if ranges_overlap r then (ERROR, m') else move_kernel_maps k pid header is m'))"

section \<open>The final state\<close>

definition set_final_regs :: "'w kernel \<Rightarrow> int \<Rightarrow> user_regs \<Rightarrow> 'w machine \<Rightarrow> unit rc \<times> 'w machine" where
  "set_final_regs k pid regs m =
     (case sys_unit k (SetRegs pid regs) m of (Inl e, m') \<Rightarrow> (ERROR, m') | (Inr _, m') \<Rightarrow> (OK (), m'))"

definition set_final_xstate :: "'w kernel \<Rightarrow> int \<Rightarrow> bytes \<Rightarrow> 'w machine \<Rightarrow> unit rc \<times> 'w machine" where
  "set_final_xstate k pid xstate m =
     (case sys_unit k (SetXstate pid xstate) m of (Inl e, m') \<Rightarrow> (ERROR, m') | (Inr _, m') \<Rightarrow> (OK (), m'))"

section \<open>The restore\<close>

text \<open>From the opening of \<open>/proc/<pid>/mem\<close> to its \<open>close\<close> and the protections: the first
  half of the block for a stopped child.\<close>

definition restore_memory ::
    "'w kernel \<Rightarrow> int \<Rightarrow> bytes \<Rightarrow> snapshot_metadata \<Rightarrow> 'w machine \<Rightarrow> unit rc \<times> 'w machine" where
  "restore_memory k pid content md m =
     (case sys_unit k (OpenMem (proc_path pid ''mem'') True) m of
        (Inl e, m1) \<Rightarrow> (ERROR, m1)
      | (Inr _, m1) \<Rightarrow>
          (case restore_fd_flags k pid (sm_fds md) m1 of
             (ERROR, m2) \<Rightarrow> (ERROR, snd (sys_unit k CloseMem m2))
           | (OK _, m2) \<Rightarrow>
               (case restore_kernel_maps k pid (sm_header md) m2 of
                  (ERROR, m3) \<Rightarrow> (ERROR, snd (sys_unit k CloseMem m3))
                | (OK _, m3) \<Rightarrow>
                    (case restore_vmas k pid content (sm_vmas md) m3 of
                       (result, m4) \<Rightarrow>
                         (let m5 = snd (sys_unit k CloseMem m4) in
                          if result = OK () then restore_protections k pid (sm_vmas md) m5
                          else (result, m5))))))"

definition restore_stopped ::
    "'w kernel \<Rightarrow> int \<Rightarrow> bytes \<Rightarrow> snapshot_metadata \<Rightarrow> 'w machine \<Rightarrow> unit rc \<times> 'w machine" where
  "restore_stopped k pid content md m =
     (case restore_memory k pid content md m of
        (ERROR, m1) \<Rightarrow> (ERROR, m1)
      | (OK _, m1) \<Rightarrow>
          (case set_final_regs k pid (dh_regs (sm_header md)) m1 of
             (ERROR, m2) \<Rightarrow> (ERROR, m2)
           | (OK _, m2) \<Rightarrow> set_final_xstate k pid (sm_xstate md) m2))"

definition kill_and_reap :: "'w kernel \<Rightarrow> int \<Rightarrow> 'w machine \<Rightarrow> 'w machine" where
  "kill_and_reap k pid m = snd (sys_unit k (Waitpid pid) (snd (sys_unit k (Kill pid) m)))"

text \<open>The parent after the fork. A \<open>waitpid\<close> that fails leaves \<open>status\<close> uninitialised; what it
  holds then is the parameter \<open>junk\<close>.\<close>

definition restore_parent ::
    "'w kernel \<Rightarrow> int \<Rightarrow> int \<Rightarrow> bytes \<Rightarrow> snapshot_metadata \<Rightarrow> 'w machine \<Rightarrow> unit rc \<times> 'w machine" where
  "restore_parent k junk pid content md m =
     (case sys_int k (Waitpid pid) m of
        (w, m1) \<Rightarrow>
          (let status = (case w of Inl e \<Rightarrow> junk | Inr s \<Rightarrow> s) in
           if WIFSTOPPED status then
             (case restore_stopped k pid content md m1 of
                (OK _, m2) \<Rightarrow> (OK (), snd (sys_unit k (Waitpid pid) (snd (sys_unit k (Detach pid) m2))))
              | (ERROR, m2) \<Rightarrow> (ERROR, kill_and_reap k pid m2))
           else if \<not> WIFEXITED status \<and> \<not> WIFSIGNALED status then (ERROR, kill_and_reap k pid m1)
           else (ERROR, m1)))"

text \<open>\<open>fork\<close> returns in two processes, so a run of \<open>restorer\<close> is one of them.\<close>

datatype restore_end = Parent "unit rc" | Child child_end

definition restorer ::
    "'w kernel \<Rightarrow> int \<Rightarrow> ksnap_config \<Rightarrow> 'w machine \<Rightarrow> restore_end \<times> 'w machine" where
  "restorer k junk config m =
     (case build_snapshot_path config of
        ERROR \<Rightarrow> (Parent ERROR, m)
      | OK snapshot_path \<Rightarrow>
          (case sys_text k (OpenSnapshot snapshot_path) m of
             (Inl e, m1) \<Rightarrow> (Parent ERROR, m1)
           | (Inr (content, err), m1) \<Rightarrow>
               (case read_snapshot_metadata k content m1 of
                  (ERROR, m2) \<Rightarrow> (Parent ERROR, m2)
                | (OK md, m2) \<Rightarrow>
                    (case sys_int k Fork m2 of
                       (Inl e, m3) \<Rightarrow> (Parent ERROR, m3)
                     | (Inr new_process, m3) \<Rightarrow>
                         if new_process < 0 then (Parent ERROR, m3)
                         else if new_process = 0 then
                           map_prod Child id
                             (spawn_traced_child k (dh_exe_path (sm_header md)) (sm_fds md) (sm_pool md) m3)
                         else map_prod Parent id (restore_parent k junk new_process content md m3)))))"

end
