(* ===== verification/Child.thy ===== *)
theory Child
  imports Restore Written
begin

unbundle bit_operations_syntax

text \<open>
  What the restorer makes of the child. The child is a \<open>traced\<close> state that the kernel's state
  determines; \<open>traced_child\<close> says what \<open>ptrace\<close>, \<open>/proc/<pid>/mem\<close> and the four system calls that
  are injected do to it. On these laws every successful step of the restore has the effect it is
  meant to have, although the code of the child is overwritten for each injected call.
\<close>

section \<open>The child\<close>

record traced =
  tr_regs :: user_regs
  tr_xstate :: bytes
  tr_mem :: "u64 \<Rightarrow> char"
  tr_prot :: "u64 \<Rightarrow> u32"
  tr_cloexec :: "int set"

text \<open>A range of addresses, and one that a mapping can occupy.\<close>

definition within :: "u64 \<Rightarrow> u64 \<Rightarrow> u64 \<Rightarrow> bool" where
  "within a n x \<longleftrightarrow> unat a \<le> unat x \<and> unat x < unat a + unat n"

definition placed :: "u64 \<Rightarrow> u64 \<Rightarrow> bool" where
  "placed a n \<longleftrightarrow> unat a mod 4096 = 0 \<and> unat n mod 4096 = 0 \<and> unat a + unat n < 2 ^ 64"

definition poke :: "(u64 \<Rightarrow> char) \<Rightarrow> u64 \<Rightarrow> bytes \<Rightarrow> u64 \<Rightarrow> char" where
  "poke mem a bs x = (if unat (x - a) < length bs then bs ! unat (x - a) else mem x)"

text \<open>An opcode is executed only where the protection lets it.\<close>

definition executable_at :: "(u64 \<Rightarrow> u32) \<Rightarrow> u64 \<Rightarrow> bool" where
  "executable_at prot rip \<longleftrightarrow> prot rip AND PROT_EXEC \<noteq> 0 \<and> prot (rip + 1) AND PROT_EXEC \<noteq> 0"

section \<open>The injected system calls\<close>

definition injection_of :: "user_regs \<Rightarrow> injection" where
  "injection_of regs = \<lparr>inj_number = reg_rax regs, inj_arg1 = reg_rdi regs, inj_arg2 = reg_rsi regs,
     inj_arg3 = reg_rdx regs, inj_arg4 = reg_r10 regs, inj_arg5 = reg_r8 regs, inj_arg6 = reg_r9 regs\<rparr>"

text \<open>The addresses whose contents, and whose protection, a call may change.\<close>

definition touches :: "injection \<Rightarrow> u64 \<Rightarrow> bool" where
  "touches i x \<longleftrightarrow>
     (inj_number i = SYS_mmap \<and> within (inj_arg1 i) (inj_arg2 i) x) \<or>
     (inj_number i = SYS_mremap \<and>
       (within (inj_arg1 i) (inj_arg2 i) x \<or> within (inj_arg5 i) (inj_arg3 i) x))"

definition reprotects :: "injection \<Rightarrow> u64 \<Rightarrow> bool" where
  "reprotects i x \<longleftrightarrow> touches i x \<or> (inj_number i = SYS_mprotect \<and> within (inj_arg1 i) (inj_arg2 i) x)"

text \<open>The calls the laws speak of: page-aligned ranges, the flags of the engine.\<close>

definition legal :: "injection \<Rightarrow> bool" where
  "legal i \<longleftrightarrow>
     (inj_number i = SYS_mmap \<and> placed (inj_arg1 i) (inj_arg2 i) \<and> inj_arg4 i = MMAP_FLAGS \<and>
       inj_arg5 i = -1 \<and> inj_arg6 i = 0) \<or>
     (inj_number i = SYS_mprotect \<and> placed (inj_arg1 i) (inj_arg2 i)) \<or>
     (inj_number i = SYS_mremap \<and> placed (inj_arg1 i) (inj_arg2 i) \<and> placed (inj_arg5 i) (inj_arg3 i) \<and>
       inj_arg4 i = MREMAP_FLAGS) \<or>
     (inj_number i = SYS_fcntl \<and> inj_arg2 i = F_SETFD \<and> inj_arg3 i = FD_CLOEXEC)"

text \<open>What a call that does not fail does, apart from the registers.\<close>

definition performs :: "injection \<Rightarrow> traced \<Rightarrow> traced \<Rightarrow> bool" where
  "performs i c c' \<longleftrightarrow>
     tr_xstate c' = tr_xstate c \<and>
     (\<forall>x. \<not> touches i x \<longrightarrow> tr_mem c' x = tr_mem c x) \<and>
     (\<forall>x. \<not> reprotects i x \<longrightarrow> tr_prot c' x = tr_prot c x) \<and>
     (inj_number i \<in> {SYS_mmap, SYS_mprotect} \<longrightarrow>
       (\<forall>x. within (inj_arg1 i) (inj_arg2 i) x \<longrightarrow> tr_prot c' x = ucast (inj_arg3 i))) \<and>
     tr_cloexec c' = (if inj_number i = SYS_fcntl
                      then insert (sint (ucast (inj_arg1 i) :: u32)) (tr_cloexec c) else tr_cloexec c)"

text \<open>
  The laws. \<open>child w\<close> is the process \<open>pid\<close> in the kernel's state \<open>w\<close>. A single step and the
  \<open>waitpid\<close> after it run the instruction at \<open>rip\<close>; the law is about the system call opcode.
\<close>

definition traced_child :: "'w kernel \<Rightarrow> int \<Rightarrow> ('w \<Rightarrow> traced) \<Rightarrow> bool" where
  "traced_child k pid child \<longleftrightarrow>
     (\<forall>c w. inspects c \<longrightarrow> child (snd (k c w)) = child w) \<and>
     (\<forall>w regs. fst (k (GetRegs pid) w) = RRegs regs \<longrightarrow> regs = tr_regs (child w)) \<and>
     (\<forall>w a x. fst (k (PeekText pid a) w) = RWord x \<longrightarrow> enc64 x = mem_bytes (tr_mem (child w)) a 8) \<and>
     (\<forall>w regs. as_unit (fst (k (SetRegs pid regs) w)) = Inr () \<longrightarrow>
        child (snd (k (SetRegs pid regs) w)) = (child w)\<lparr>tr_regs := regs\<rparr>) \<and>
     (\<forall>w x. as_unit (fst (k (SetXstate pid x) w)) = Inr () \<longrightarrow>
        child (snd (k (SetXstate pid x) w)) = (child w)\<lparr>tr_xstate := x\<rparr>) \<and>
     (\<forall>w a x. as_unit (fst (k (PokeText pid a x) w)) = Inr () \<longrightarrow>
        child (snd (k (PokeText pid a x) w)) = (child w)\<lparr>tr_mem := poke (tr_mem (child w)) a (enc64 x)\<rparr>) \<and>
     (\<forall>w a b. fst (k (Pwrite a b) w) = RInt (int (length b)) \<longrightarrow>
        child (snd (k (Pwrite a b) w)) = (child w)\<lparr>tr_mem := poke (tr_mem (child w)) a b\<rparr>) \<and>
     (\<forall>w w1 w2 r1 r2. k (SingleStep pid) w = (r1, w1) \<longrightarrow> k (Waitpid pid) w1 = (r2, w2) \<longrightarrow>
        as_unit r1 = Inr () \<longrightarrow> as_unit r2 = Inr () \<longrightarrow>
        (let c = child w; rip = reg_rip (tr_regs c); i = injection_of (tr_regs c) in
         tr_mem c rip = CHR 0x0F \<longrightarrow> tr_mem c (rip + 1) = CHR 0x05 \<longrightarrow>
         executable_at (tr_prot c) rip \<longrightarrow> legal i \<longrightarrow>
         \<not> syscall_failed (reg_rax (tr_regs (child w2))) \<longrightarrow> performs i c (child w2)))"

section \<open>The log\<close>

text \<open>The calls of the restore of one process: none of them releases or kills it.\<close>

fun restoring :: "int \<Rightarrow> syscall \<Rightarrow> bool" where
  "restoring pid (OpenText path) = True"
| "restoring pid (OpenMem path w) = True"
| "restoring pid (Pwrite a b) = True"
| "restoring pid CloseMem = True"
| "restoring pid (Waitpid p) = (p = pid)"
| "restoring pid (GetRegs p) = (p = pid)"
| "restoring pid (SetRegs p r) = (p = pid)"
| "restoring pid (SetXstate p x) = (p = pid)"
| "restoring pid (PeekText p a) = (p = pid)"
| "restoring pid (PokeText p a x) = (p = pid)"
| "restoring pid (SingleStep p) = (p = pid)"
| "restoring pid _ = False"

locale restoration = frame k R "restoring pid" for k :: "'w kernel" and pid :: int and R
begin

lemma inject_syscall: "R m0 m \<Longrightarrow> R m0 (snd (inject_syscall k pid i m))"
  unfolding inject_syscall_def by (intro walk after) auto

lemma inject_checked: "R m0 m \<Longrightarrow> R m0 (snd (inject_checked k pid i m))"
  unfolding inject_checked_def by (intro walk inject_syscall) auto

lemma find_named_map: "R m0 m \<Longrightarrow> R m0 (snd (find_named_map k pid name m))"
  unfolding find_named_map_def by (intro walk walk_cases(4) after) auto

lemma copy_in: "R m0 m \<Longrightarrow> R m0 (snd (copy_in k content vma c m))"
proof (induction "unat (vma_size vma - c)" arbitrary: c m rule: less_induct)
  case less
  show ?case
    by (subst copy_in.simps) (intro walk after less.prems;
        auto intro!: after less.prems less.hyps simp: copy_in_progress(5))
qed

lemma restore_vma: "R m0 m \<Longrightarrow> R m0 (snd (restore_vma k pid content vma m))"
  unfolding restore_vma_def inject_mmap_syscall_def by (intro walk inject_checked copy_in) auto

lemma restore_vmas: "R m0 m \<Longrightarrow> R m0 (snd (restore_vmas k pid content vmas m))"
proof (induction vmas arbitrary: m)
  case (Cons vma rest)
  show ?case
    by (subst restore_vmas.simps, intro walk restore_vma Cons.prems) (simp_all add: Cons.IH)
qed simp

lemma protect_others: "R m0 m \<Longrightarrow> R m0 (snd (protect_others k pid site i vmas m))"
  by (induction vmas arbitrary: i m) (auto intro!: walk inject_checked simp: inject_mprotect_syscall_def)

lemma restore_protections: "R m0 m \<Longrightarrow> R m0 (snd (restore_protections k pid vmas m))"
  unfolding restore_protections_def inject_mprotect_syscall_def
  by (intro walk after protect_others inject_checked) auto

lemma restore_fd_flags: "R m0 m \<Longrightarrow> R m0 (snd (restore_fd_flags k pid fds m))"
proof (induction fds arbitrary: m)
  case (Cons d rest)
  show ?case
    by (subst restore_fd_flags.simps, intro walk inject_checked Cons.prems) (simp_all add: Cons.IH Cons.prems)
qed simp

lemma measure_kernel_maps: "R m0 m \<Longrightarrow> R m0 (snd (measure_kernel_maps k pid header is r m))"
proof (induction "is" arbitrary: r m)
  case (Cons i rest)
  show ?case
    by (subst measure_kernel_maps.simps, intro walk walk_cases(4) find_named_map Cons.prems)
      (auto intro: Cons.IH)
qed simp

lemma move_kernel_maps: "R m0 m \<Longrightarrow> R m0 (snd (move_kernel_maps k pid header is m))"
proof (induction "is" arbitrary: m)
  case (Cons i rest)
  show ?case
    by (subst move_kernel_maps.simps, intro walk walk_cases(4) find_named_map inject_checked Cons.prems)
      (auto intro: Cons.IH)
qed simp

lemma restore_kernel_maps: "R m0 m \<Longrightarrow> R m0 (snd (restore_kernel_maps k pid header m))"
  unfolding restore_kernel_maps_def
  by (intro walk measure_kernel_maps move_kernel_maps) auto

lemma restore_memory: "R m0 m \<Longrightarrow> R m0 (snd (restore_memory k pid content md m))"
  unfolding restore_memory_def Let_def
  by (intro walk after restore_fd_flags restore_kernel_maps restore_vmas restore_protections)
    (auto intro: after)

lemma restore_stopped: "R m0 m \<Longrightarrow> R m0 (snd (restore_stopped k pid content md m))"
  unfolding restore_stopped_def set_final_regs_def set_final_xstate_def
  by (intro walk after restore_memory) auto

end

interpretation restoring_log: restoration k pid "extends (restoring pid)" for k pid
  by unfold_locales

section \<open>One injected call\<close>

fun is_poke :: "syscall \<Rightarrow> bool" where
  "is_poke (PokeText p a x) = True"
| "is_poke _ = False"

text \<open>The write that puts the code back is the one result the code ignores.\<close>

definition pokes_succeed :: "'w machine \<Rightarrow> bool" where
  "pokes_succeed m \<longleftrightarrow> list_all (\<lambda>(c, r). is_poke c \<longrightarrow> as_unit r = Inr ()) (log m)"

lemma pokes_succeed_extends: "extends P m m' \<Longrightarrow> pokes_succeed m' \<Longrightarrow> pokes_succeed m"
  by (auto simp: extends_def pokes_succeed_def)

lemma injection_of_load [simp]: "injection_of (load_injection i regs) = i"
  by (simp add: injection_of_def load_injection_def)

lemma load_injection_rip [simp]: "reg_rip (load_injection i regs) = reg_rip regs"
  by (simp add: load_injection_def)

lemma poke_back:
  "poke mem' a (mem_bytes mem a n) x = (if unat (x - a) < n then mem x else mem' x)"
  by (simp add: poke_def mem_bytes_def)

lemma inject_syscall_steps:
  assumes "inject_syscall k pid i m = (OK res, m')"
  obtains saved m1 m2 orig m3 m4 m5 w m6 fin m7 p m8 where
    "sys_regs k (GetRegs pid) m = (Inr saved, m1)"
    "sys_unit k (SetRegs pid (load_injection i saved)) m1 = (Inr (), m2)"
    "sys_word k (PeekText pid (reg_rip saved)) m2 = (Inr orig, m3)"
    "sys_unit k (PokeText pid (reg_rip saved) (plant_opcode orig)) m3 = (Inr (), m4)"
    "sys_unit k (SingleStep pid) m4 = (Inr (), m5)"
    "sys_unit k (Waitpid pid) m5 = (Inr w, m6)"
    "sys_regs k (GetRegs pid) m6 = (Inr fin, m7)"
    "sys_unit k (PokeText pid (reg_rip saved) orig) m7 = (p, m8)"
    "sys_unit k (SetRegs pid saved) m8 = (Inr (), m')" "res = reg_rax fin"
  using assms unfolding inject_syscall_def
  by (auto split: prod.splits sum.splits)

text \<open>The laws, in terms of typed calls.\<close>

lemma child_looks:
  assumes "traced_child k pid child" "inspects c"
  shows "sys_unit k c m = (r1, m') \<Longrightarrow> child (world m') = child (world m)"
    "sys_text k c m = (r2, m') \<Longrightarrow> child (world m') = child (world m)"
  using assms by (auto simp: traced_child_def sys_defs call_def split: prod.splits) (metis snd_conv)+

lemma child_get_regs:
  assumes "sys_regs k (GetRegs pid) m = (Inr regs, m')" "traced_child k pid child"
  shows "regs = tr_regs (child (world m))" "child (world m') = child (world m)"
proof -
  have "fst (k (GetRegs pid) (world m)) = RRegs regs"
    using assms(1) by (cases "fst (k (GetRegs pid) (world m))") (auto simp: typed_turn)
  then show "regs = tr_regs (child (world m))" using assms(2) by (simp add: traced_child_def)
  show "child (world m') = child (world m)"
    using assms by (auto simp: traced_child_def typed_turn)
qed

lemma child_peek:
  assumes "sys_word k (PeekText pid a) m = (Inr x, m')" "traced_child k pid child"
  shows "enc64 x = mem_bytes (tr_mem (child (world m))) a 8" "child (world m') = child (world m)"
proof -
  have "fst (k (PeekText pid a) (world m)) = RWord x"
    using assms(1) by (cases "fst (k (PeekText pid a) (world m))") (auto simp: typed_turn)
  then show "enc64 x = mem_bytes (tr_mem (child (world m))) a 8"
    using assms(2) by (simp add: traced_child_def)
  show "child (world m') = child (world m)"
    using assms by (auto simp: traced_child_def typed_turn)
qed

lemma child_sets:
  assumes "traced_child k pid child"
  shows "sys_unit k (SetRegs pid regs) m = (Inr (), m') \<Longrightarrow>
      child (world m') = (child (world m))\<lparr>tr_regs := regs\<rparr>"
    "sys_unit k (SetXstate pid x) m = (Inr (), m') \<Longrightarrow>
      child (world m') = (child (world m))\<lparr>tr_xstate := x\<rparr>"
    "sys_unit k (PokeText pid a y) m = (Inr (), m') \<Longrightarrow>
      child (world m') = (child (world m))\<lparr>tr_mem := poke (tr_mem (child (world m))) a (enc64 y)\<rparr>"
  using assms by (auto simp: traced_child_def typed_turn)

lemma child_pwrite:
  assumes "sys_int k (Pwrite a b) m = (Inr n, m')" "n = int (length b)" "traced_child k pid child"
  shows "child (world m') = (child (world m))\<lparr>tr_mem := poke (tr_mem (child (world m))) a b\<rparr>"
proof -
  have "fst (k (Pwrite a b) (world m)) = RInt (int (length b))"
    using assms(1,2) by (cases "fst (k (Pwrite a b) (world m))") (auto simp: typed_turn)
  then show ?thesis using assms(1,3) by (auto simp: traced_child_def typed_turn)
qed

lemma child_step:
  assumes "sys_unit k (SingleStep pid) m = (Inr (), m1)" "sys_unit k (Waitpid pid) m1 = (Inr (), m2)"
    and "traced_child k pid child"
    and "tr_mem (child (world m)) (reg_rip (tr_regs (child (world m)))) = CHR 0x0F"
    and "tr_mem (child (world m)) (reg_rip (tr_regs (child (world m))) + 1) = CHR 0x05"
    and "executable_at (tr_prot (child (world m))) (reg_rip (tr_regs (child (world m))))"
    and "legal (injection_of (tr_regs (child (world m))))"
    and "\<not> syscall_failed (reg_rax (tr_regs (child (world m2))))"
  shows "performs (injection_of (tr_regs (child (world m)))) (child (world m)) (child (world m2))"
proof -
  obtain r1 w1 where 1: "k (SingleStep pid) (world m) = (r1, w1)" "as_unit r1 = Inr ()" "world m1 = w1"
    using assms(1) by (cases "k (SingleStep pid) (world m)") (auto simp: typed_turn)
  obtain r2 w2 where 2: "k (Waitpid pid) w1 = (r2, w2)" "as_unit r2 = Inr ()" "world m2 = w2"
    using assms(2) 1(3) by (cases "k (Waitpid pid) w1") (auto simp: typed_turn)
  have "\<forall>w w1 w2 r1 r2. k (SingleStep pid) w = (r1, w1) \<longrightarrow> k (Waitpid pid) w1 = (r2, w2) \<longrightarrow>
        as_unit r1 = Inr () \<longrightarrow> as_unit r2 = Inr () \<longrightarrow>
        (let c = child w; rip = reg_rip (tr_regs c); i = injection_of (tr_regs c) in
         tr_mem c rip = CHR 0x0F \<longrightarrow> tr_mem c (rip + 1) = CHR 0x05 \<longrightarrow>
         executable_at (tr_prot c) rip \<longrightarrow> legal i \<longrightarrow>
         \<not> syscall_failed (reg_rax (tr_regs (child w2))) \<longrightarrow> performs i c (child w2))"
    using assms(3) unfolding traced_child_def by blast
  from this[rule_format, OF 1(1) 2(1) 1(2) 2(2), unfolded Let_def] assms(4-8) 2(3)
  show ?thesis by simp
qed

text \<open>
  A call that succeeds does what it does, and nothing else: registers and code are as before,
  although eight bytes of the code were overwritten in between, and although the call may have
  replaced the memory they lie in.
\<close>

lemma inject_syscall_performs:
  assumes run: "inject_syscall k pid i m = (OK res, m')" and laws: "traced_child k pid child"
    and "legal i" and site: "executable_at (tr_prot (child (world m))) (reg_rip (tr_regs (child (world m))))"
    and "\<not> syscall_failed res" and pokes: "pokes_succeed m'"
  shows "tr_regs (child (world m')) = tr_regs (child (world m)) \<and>
    performs i (child (world m)) (child (world m'))"
proof -
  from run obtain saved m1 m2 orig m3 m4 m5 w m6 fin m7 p m8 where s:
    "sys_regs k (GetRegs pid) m = (Inr saved, m1)"
    "sys_unit k (SetRegs pid (load_injection i saved)) m1 = (Inr (), m2)"
    "sys_word k (PeekText pid (reg_rip saved)) m2 = (Inr orig, m3)"
    "sys_unit k (PokeText pid (reg_rip saved) (plant_opcode orig)) m3 = (Inr (), m4)"
    "sys_unit k (SingleStep pid) m4 = (Inr (), m5)"
    "sys_unit k (Waitpid pid) m5 = (Inr w, m6)"
    "sys_regs k (GetRegs pid) m6 = (Inr fin, m7)"
    "sys_unit k (PokeText pid (reg_rip saved) orig) m7 = (p, m8)"
    "sys_unit k (SetRegs pid saved) m8 = (Inr (), m')" "res = reg_rax fin"
    by (rule inject_syscall_steps)
  define c where "c = child (world m)"
  define rip where "rip = reg_rip (tr_regs c)"
  have saved: "saved = tr_regs c" "child (world m1) = c"
    using child_get_regs[OF s(1) laws] by (simp_all add: c_def)
  have m2: "child (world m2) = c\<lparr>tr_regs := load_injection i (tr_regs c)\<rparr>"
    using child_sets(1)[OF laws s(2)] saved by simp
  have orig: "enc64 orig = mem_bytes (tr_mem c) rip 8" and m3: "child (world m3) = child (world m2)"
    using child_peek[OF s(3) laws] m2 saved by (simp_all add: rip_def)
  define planted where "planted = poke (tr_mem c) rip (enc64 (plant_opcode orig))"
  have m4: "child (world m4) = c\<lparr>tr_regs := load_injection i (tr_regs c), tr_mem := planted\<rparr>"
    using child_sets(3)[OF laws s(4)] m3 m2 saved by (simp add: planted_def rip_def)
  have opcode: "planted rip = CHR 0x0F" "planted (rip + 1) = CHR 0x05"
    by (simp_all add: planted_def poke_def enc64_plant_opcode)
  have fin: "fin = tr_regs (child (world m6))" "child (world m7) = child (world m6)"
    using child_get_regs[OF s(7) laws] by simp_all
  have eff: "performs i (child (world m4)) (child (world m6))"
    using child_step[OF s(5) s(6)[simplified] laws] assms(3,5) site opcode fin s(10)
    by (simp add: m4 flip: c_def rip_def)
  have "as_unit (fst (k (PokeText pid (reg_rip saved) orig) (world m7))) = Inr ()"
    using pokes s(8,9) by (auto simp: pokes_succeed_def typed_turn)
  then have p: "sys_unit k (PokeText pid (reg_rip saved) orig) m7 = (Inr (), m8)"
    using s(8) by (simp add: typed_turn)
  have m': "child (world m') = (child (world m6))\<lparr>
      tr_mem := poke (tr_mem (child (world m6))) rip (mem_bytes (tr_mem c) rip 8), tr_regs := tr_regs c\<rparr>"
    using child_sets(1)[OF laws s(9)] child_sets(3)[OF laws p] saved fin(2) by (simp add: rip_def orig)
  have "planted x = tr_mem c x" if "\<not> unat (x - rip) < 8" for x
    using that by (simp add: planted_def poke_def)
  then show ?thesis
    using eff unfolding m' m4 performs_def c_def[symmetric] by (auto simp: poke_back)
qed

lemma inject_checked_performs:
  assumes run: "inject_checked k pid i m = (OK (), m')" and laws: "traced_child k pid child"
    and "legal i" and "executable_at (tr_prot (child (world m))) (reg_rip (tr_regs (child (world m))))"
    and "pokes_succeed m'"
  shows "tr_regs (child (world m')) = tr_regs (child (world m)) \<and>
    performs i (child (world m)) (child (world m'))"
proof -
  obtain res where "inject_syscall k pid i m = (OK res, m')" "\<not> syscall_failed res"
    using run by (auto simp: inject_checked_def split: prod.splits if_splits)
  then show ?thesis using assms by (intro inject_syscall_performs)
qed

end
