(* ===== verification/Restored.thy ===== *)
theory Restored
  imports Child
begin

unbundle bit_operations_syntax

text \<open>
  The state of the child after the restore: memory, protections, flags of descriptors, registers.
\<close>

section \<open>Mappings\<close>

definition covers :: "vma_descriptor \<Rightarrow> u64 \<Rightarrow> bool" where
  "covers v x \<longleftrightarrow> within (vma_start_address v) (vma_size v) x"

text \<open>A table of mappings as a process can have it: whole pages, no two of them overlapping.\<close>

definition vma_placed :: "vma_descriptor \<Rightarrow> bool" where
  "vma_placed v \<longleftrightarrow> placed (vma_start_address v) (vma_size v)"

definition apart :: "vma_descriptor \<Rightarrow> vma_descriptor \<Rightarrow> bool" where
  "apart v w \<longleftrightarrow>
     unat (vma_start_address v) + unat (vma_size v) \<le> unat (vma_start_address w) \<or>
     unat (vma_start_address w) + unat (vma_size w) \<le> unat (vma_start_address v)"

definition address_space :: "vma_descriptor list \<Rightarrow> bool" where
  "address_space vmas \<longleftrightarrow> list_all vma_placed vmas \<and> sorted_wrt apart vmas"

lemma apart_sym: "apart v w \<Longrightarrow> apart w v"
  by (auto simp: apart_def)

lemma apart_covers: "apart v w \<Longrightarrow> covers v x \<Longrightarrow> \<not> covers w x"
  by (auto simp: apart_def covers_def within_def)

lemma unat_sub_wrap: "unat (x :: u64) < unat a \<Longrightarrow> unat (x - a) = 2 ^ 64 + unat x - unat a"
  by (simp add: unat_sub_if' word_le_nat_alt)

lemma within_offset: "placed a n \<Longrightarrow> within a n x \<longleftrightarrow> unat (x - a) < unat n"
proof -
  assume "placed a n"
  then have bound: "unat a + unat n < 2 ^ 64" by (simp add: placed_def)
  show ?thesis
  proof (cases "unat a \<le> unat x")
    case True
    then show ?thesis by (auto simp: within_def unat_sub word_le_nat_alt)
  next
    case False
    then show ?thesis using unat_sub_wrap[of x a] bound by (simp add: within_def)
  qed
qed

section \<open>Memory\<close>

text \<open>The contents the snapshot has for an address of a mapping.\<close>

definition payload_at :: "bytes \<Rightarrow> vma_descriptor \<Rightarrow> u64 \<Rightarrow> char" where
  "payload_at content v x = content ! (unat (vma_data_offset v) + unat (x - vma_start_address v))"

lemma poke_chunk:
  assumes "unat c + n \<le> unat (sz :: u64)" "length b = n"
  shows "poke mem (a + c) b x =
    (if unat c \<le> unat (x - a) \<and> unat (x - a) < unat c + n then b ! (unat (x - a) - unat c) else mem x)"
proof -
  have sz: "unat c + n < 2 ^ 64" using assms(1) unat_u64_bound[of sz] by simp
  have eq: "x - (a + c) = (x - a) - c" by simp
  show ?thesis
  proof (cases "unat c \<le> unat (x - a)")
    case True
    then show ?thesis using assms(2) by (auto simp: poke_def eq unat_sub word_le_nat_alt simp del: diff_diff_eq)
  next
    case False
    then have "\<not> unat ((x - a) - c) < n" using unat_sub_wrap[of "x - a" c] sz by simp
    then show ?thesis using False assms(2) unfolding poke_def eq by simp
  qed
qed

lemma copy_in_memory:
  assumes "copy_in k content v c m = (OK (), m')" "traced_child k pid child"
  shows "child (world m') = (child (world m))\<lparr>tr_mem := \<lambda>x.
    if unat c \<le> unat (x - vma_start_address v) \<and> unat (x - vma_start_address v) < unat (vma_size v)
    then payload_at content v x else tr_mem (child (world m)) x\<rparr>"
  using assms(1)
proof (induction "unat (vma_size v - c)" arbitrary: c m rule: less_induct)
  case less
  show ?case
  proof (cases "c < vma_size v")
    case False
    then show ?thesis
      using less.prems by (subst (asm) copy_in.simps) (auto simp: word_less_nat_alt fun_eq_iff intro!: traced.equality)
  next
    case True
    define n where "n = min (vma_size v - c) 4096"
    define b where "b = take (unat n) (drop (unat (vma_data_offset v) + unat c) content)"
    note prog = copy_in_progress[OF True, folded n_def]
    obtain m1 where w: "sys_int k (Pwrite (vma_start_address v + c) b) m = (Inr (int (unat n)), m1)"
      and rest: "copy_in k content v (c + n) m1 = (OK (), m')" and len: "length b = unat n"
      using less.prems True
      by (subst (asm) copy_in.simps) (auto simp: Let_def n_def b_def split: if_splits prod.splits sum.splits)
    note IH = less.hyps[OF prog(5) rest]
    have m1: "child (world m1) = (child (world m))\<lparr>tr_mem := poke (tr_mem (child (world m))) (vma_start_address v + c) b\<rparr>"
      using child_pwrite[OF w _ assms(2)] len by simp
    have b: "b ! j = content ! (unat (vma_data_offset v) + (unat c + j))" if "j < unat n" for j
      using that len by (simp add: b_def add.assoc)
    show ?thesis
      unfolding IH m1 using prog(4)
      by (intro traced.equality)
        (auto simp: fun_eq_iff poke_chunk[OF prog(4) len] prog(3) b payload_at_def)
  qed
qed

text \<open>The mappings \<open>vs\<close> hold their payloads, with every protection; nothing else has changed.\<close>

definition loaded :: "bytes \<Rightarrow> vma_descriptor list \<Rightarrow> traced \<Rightarrow> traced \<Rightarrow> bool" where
  "loaded content vs c c' \<longleftrightarrow>
     tr_regs c' = tr_regs c \<and> tr_xstate c' = tr_xstate c \<and> tr_cloexec c' = tr_cloexec c \<and>
     (\<forall>v \<in> set vs. \<forall>x. covers v x \<longrightarrow> tr_mem c' x = payload_at content v x \<and> tr_prot c' x = PROT_ALL) \<and>
     (\<forall>x. (\<forall>v \<in> set vs. \<not> covers v x) \<longrightarrow> tr_mem c' x = tr_mem c x \<and> tr_prot c' x = tr_prot c x)"

lemma loaded_Cons:
  assumes "loaded content [v] c c1" "loaded content vs c1 c2" "list_all (apart v) vs"
  shows "loaded content (v # vs) c c2"
proof -
  have "\<not> covers w x" if "covers v x" "w \<in> set vs" for x w
    using that assms(3) apart_covers by (auto simp: list_all_iff)
  then show ?thesis using assms(1,2) unfolding loaded_def by simp
qed

lemma loaded_executable:
  assumes "loaded content vs c c'" "executable_at (tr_prot c) rip"
  shows "executable_at (tr_prot c') rip"
proof -
  have "tr_prot c' x AND PROT_EXEC \<noteq> 0" if "tr_prot c x AND PROT_EXEC \<noteq> 0" for x
    using that assms(1) by (cases "\<exists>v \<in> set vs. covers v x") (auto simp: loaded_def PROT_ALL_def PROT_EXEC_def)
  then show ?thesis using assms(2) by (simp add: executable_at_def)
qed

lemmas syscall_numbers = SYS_mmap_def SYS_mprotect_def SYS_mremap_def SYS_fcntl_def

lemma performs_mmap:
  assumes "performs (mmap_injection v) c c'"
  shows "tr_xstate c' = tr_xstate c" "tr_cloexec c' = tr_cloexec c"
    "\<not> covers v x \<Longrightarrow> tr_mem c' x = tr_mem c x" "\<not> covers v x \<Longrightarrow> tr_prot c' x = tr_prot c x"
    "covers v x \<Longrightarrow> tr_prot c' x = PROT_ALL"
proof -
  have "(ucast PROT_RWX :: u32) = PROT_ALL" by code_simp
  then show "tr_xstate c' = tr_xstate c" "tr_cloexec c' = tr_cloexec c"
    "\<not> covers v x \<Longrightarrow> tr_mem c' x = tr_mem c x" "\<not> covers v x \<Longrightarrow> tr_prot c' x = tr_prot c x"
    "covers v x \<Longrightarrow> tr_prot c' x = PROT_ALL"
    using assms
    by (auto simp: performs_def touches_def reprotects_def covers_def mmap_injection_def syscall_numbers)
qed

lemma restore_vma_loads:
  assumes run: "restore_vma k pid content v m = (OK (), m')" and laws: "traced_child k pid child"
    and placed: "vma_placed v"
    and site: "executable_at (tr_prot (child (world m))) (reg_rip (tr_regs (child (world m))))"
    and pokes: "pokes_succeed m'"
  shows "loaded content [v] (child (world m)) (child (world m'))"
proof -
  obtain m1 where mm: "inject_checked k pid (mmap_injection v) m = (OK (), m1)"
    and copy: "copy_in k content v 0 m1 = (OK (), m')"
    using run by (auto simp: restore_vma_def inject_mmap_syscall_def split: prod.splits if_splits)
  have "extends (restoring pid) m1 m'"
    using restoring_log.copy_in[OF extends_refl, of pid m1 k content v 0] copy by simp
  then have "pokes_succeed m1" using pokes by (rule pokes_succeed_extends)
  moreover have "legal (mmap_injection v)"
    using placed by (simp add: legal_def mmap_injection_def vma_placed_def)
  ultimately have perf: "tr_regs (child (world m1)) = tr_regs (child (world m))"
    "performs (mmap_injection v) (child (world m)) (child (world m1))"
    using inject_checked_performs[OF mm laws _ site] by blast+
  have "tr_mem (child (world m')) x = (if covers v x then payload_at content v x else tr_mem (child (world m1)) x)"
    "tr_prot (child (world m')) x = tr_prot (child (world m1)) x" for x
    using copy_in_memory[OF copy laws] placed by (simp_all add: covers_def vma_placed_def within_offset)
  moreover have "tr_regs (child (world m')) = tr_regs (child (world m1))"
    "tr_xstate (child (world m')) = tr_xstate (child (world m1))"
    "tr_cloexec (child (world m')) = tr_cloexec (child (world m1))"
    using copy_in_memory[OF copy laws] by simp_all
  ultimately show ?thesis
    using perf(1) performs_mmap[OF perf(2)] by (simp add: loaded_def)
qed

lemma restore_vmas_loads:
  assumes "restore_vmas k pid content vs m = (OK (), m')" and laws: "traced_child k pid child"
    and "address_space vs"
    and "executable_at (tr_prot (child (world m))) (reg_rip (tr_regs (child (world m))))"
    and pokes: "pokes_succeed m'"
  shows "loaded content vs (child (world m)) (child (world m'))"
  using assms(1,3,4)
proof (induction vs arbitrary: m)
  case Nil
  then show ?case by (simp add: loaded_def)
next
  case (Cons v vs)
  obtain m1 where one: "restore_vma k pid content v m = (OK (), m1)"
    and rest: "restore_vmas k pid content vs m1 = (OK (), m')"
    using Cons.prems(1) by (auto split: prod.splits)
  have "extends (restoring pid) m1 m'"
    using restoring_log.restore_vmas[OF extends_refl, of pid m1 k content vs] rest by simp
  then have "pokes_succeed m1" using pokes by (rule pokes_succeed_extends)
  have split: "address_space vs" "list_all (apart v) vs" "vma_placed v"
    using Cons.prems(2) by (auto simp: address_space_def list_all_iff)
  have 1: "loaded content [v] (child (world m)) (child (world m1))"
    using one laws split(3) Cons.prems(3) \<open>pokes_succeed m1\<close> by (rule restore_vma_loads)
  have "executable_at (tr_prot (child (world m1))) (reg_rip (tr_regs (child (world m1))))"
    using loaded_executable[OF 1 Cons.prems(3)] 1 by (simp only: loaded_def)
  with rest split(1) have "loaded content vs (child (world m1)) (child (world m'))" by (rule Cons.IH)
  with 1 show ?case using split(2) by (rule loaded_Cons)
qed

section \<open>Sequences of calls\<close>

fun inject_all :: "'w kernel \<Rightarrow> int \<Rightarrow> injection list \<Rightarrow> 'w machine \<Rightarrow> unit rc \<times> 'w machine" where
  "inject_all k pid [] m = (OK (), m)"
| "inject_all k pid (i # rest) m =
     (case inject_checked k pid i m of
        (ERROR, m') \<Rightarrow> (ERROR, m')
      | (OK _, m') \<Rightarrow> inject_all k pid rest m')"

lemma inject_all_extends: "inject_all k pid is m = (r, m') \<Longrightarrow> extends (restoring pid) m m'"
proof (induction "is" arbitrary: m)
  case (Cons i rest)
  obtain r1 m1 where 1: "inject_checked k pid i m = (r1, m1)" by fastforce
  then have "extends (restoring pid) m m1"
    using restoring_log.inject_checked[OF extends_refl, of pid m k i] by simp
  then show ?case
    using Cons 1 by (cases r1) (auto dest: extends_trans)
qed simp

lemma inject_all_append:
  "inject_all k pid (is @ js) m =
    (case inject_all k pid is m of (ERROR, m') \<Rightarrow> (ERROR, m') | (OK _, m') \<Rightarrow> inject_all k pid js m')"
  by (induction "is" arbitrary: m) (auto split: prod.split rc.split)

text \<open>One call after the other, the registers as they were in between.\<close>

fun performs_all :: "injection list \<Rightarrow> traced \<Rightarrow> traced \<Rightarrow> bool" where
  "performs_all [] c c' \<longleftrightarrow> c' = c"
| "performs_all (i # rest) c c' \<longleftrightarrow>
     (\<exists>c1. tr_regs c1 = tr_regs c \<and> performs i c c1 \<and> performs_all rest c1 c')"

text \<open>A call that leaves the protection of the injection site alone can be followed by another.\<close>

lemma inject_all_performs:
  assumes "inject_all k pid is m = (OK (), m')" and laws: "traced_child k pid child"
    and "list_all legal is" and pokes: "pokes_succeed m'"
    and "executable_at (tr_prot (child (world m))) rip" "reg_rip (tr_regs (child (world m))) = rip"
    and "list_all (\<lambda>i. \<not> reprotects i rip \<and> \<not> reprotects i (rip + 1)) (butlast is)"
  shows "performs_all is (child (world m)) (child (world m'))"
  using assms(1,3,5-)
proof (induction "is" arbitrary: m)
  case (Cons i rest)
  obtain m1 where one: "inject_checked k pid i m = (OK (), m1)"
    and rest: "inject_all k pid rest m1 = (OK (), m')"
    using Cons.prems(1) by (auto split: prod.splits)
  have "pokes_succeed m1" using inject_all_extends[OF rest] pokes by (rule pokes_succeed_extends)
  with Cons.prems one laws have 1: "tr_regs (child (world m1)) = tr_regs (child (world m)) \<and>
      performs i (child (world m)) (child (world m1))"
    by (intro inject_checked_performs) auto
  have "performs_all rest (child (world m1)) (child (world m'))"
  proof (cases rest)
    case Nil
    then show ?thesis using rest by simp
  next
    case (Cons j js)
    then have "\<not> reprotects i rip" "\<not> reprotects i (rip + 1)" using Cons.prems(5) by simp_all
    then have "executable_at (tr_prot (child (world m1))) rip"
      using 1 Cons.prems(3) by (simp add: performs_def executable_at_def)
    then show ?thesis
      using Cons.prems Cons 1 by (intro Cons.IH[OF rest]) auto
  qed
  then show ?case using 1 by auto
qed simp

subsection \<open>Flags of descriptors\<close>

abbreviation cloexec_fds :: "fd_descriptor list \<Rightarrow> fd_descriptor list" where
  "cloexec_fds fds \<equiv> filter (\<lambda>d. fdd_flags d AND O_CLOEXEC \<noteq> 0) fds"

lemma restore_fd_flags_injects:
  "restore_fd_flags k pid fds m = inject_all k pid (map cloexec_injection (cloexec_fds fds)) m"
  by (induction fds arbitrary: m) (auto split: prod.split rc.split)

lemma ucast_scast_fd: "ucast (scast (x :: u32) :: u64) = x"
  by (rule bit_word_eqI) (simp add: bit_simps)

lemma performs_all_cloexec:
  "performs_all (map cloexec_injection ds) c c' \<Longrightarrow>
   c' = c\<lparr>tr_cloexec := tr_cloexec c \<union> fd_number ` set ds\<rparr>"
proof (induction ds arbitrary: c)
  case (Cons d ds)
  then obtain c1 where c1: "tr_regs c1 = tr_regs c" "performs (cloexec_injection d) c c1"
    and rest: "c' = c1\<lparr>tr_cloexec := tr_cloexec c1 \<union> fd_number ` set ds\<rparr>"
    by auto
  have "c1 = c\<lparr>tr_cloexec := insert (fd_number d) (tr_cloexec c)\<rparr>"
    using c1 by (intro traced.equality)
      (simp_all add: performs_def touches_def reprotects_def cloexec_injection_def syscall_numbers
        fun_eq_iff ucast_scast_fd fd_number_def)
  then show ?case using rest by simp
qed simp

subsection \<open>Protections\<close>

text \<open>The order in which \<open>restore_protections\<close> protects: the mapping with the injection site
  last, and none that already is as it should be.\<close>

fun others :: "nat \<Rightarrow> nat \<Rightarrow> 'a list \<Rightarrow> 'a list" where
  "others site i [] = []"
| "others site i (v # vs) = (if i = site then others site (Suc i) vs else v # others site (Suc i) vs)"

definition protection_order :: "u64 \<Rightarrow> vma_descriptor list \<Rightarrow> vma_descriptor list" where
  "protection_order rip vmas =
     (let site = find_site rip 0 vmas in
      filter (\<lambda>v. vma_prot v \<noteq> PROT_ALL)
        (others site 0 vmas @ (if site < length vmas then [vmas ! site] else [])))"

lemma others_past: "site < i \<Longrightarrow> others site i vs = vs"
  by (induction vs arbitrary: i) auto

lemma others_eq: "i \<le> site \<Longrightarrow> others site i vs = take (site - i) vs @ drop (Suc (site - i)) vs"
proof (induction vs arbitrary: i)
  case (Cons v vs)
  show ?case
  proof (cases "i = site")
    case False
    then have "site - i = Suc (site - Suc i)" using Cons.prems by simp
    then show ?thesis using Cons False by simp
  qed (simp add: others_past)
qed simp

lemma find_site_eq: "find_site rip i vs = i + length (takeWhile (\<lambda>v. \<not> holds_site rip v) vs)"
  by (induction vs arbitrary: i) auto

lemma protect_others_injects:
  "protect_others k pid site i vs m =
     inject_all k pid (map mprotect_injection (filter (\<lambda>v. vma_prot v \<noteq> PROT_ALL) (others site i vs))) m"
  by (induction vs arbitrary: i m)
    (auto simp: inject_mprotect_syscall_def split: prod.split rc.split)

lemma inject_all_single: "inject_all k pid [i] m = inject_checked k pid i m"
  by (cases "inject_checked k pid i m"; cases "fst (inject_checked k pid i m)") auto

lemma restore_protections_injects:
  "restore_protections k pid vmas m =
     (case sys_regs k (GetRegs pid) m of
        (Inl e, m') \<Rightarrow> (ERROR, m')
      | (Inr regs, m') \<Rightarrow>
          inject_all k pid (map mprotect_injection (protection_order (reg_rip regs) vmas)) m')"
  by (auto simp: restore_protections_def protection_order_def Let_def inject_all_append
      protect_others_injects inject_mprotect_syscall_def inject_all_single
      split: prod.split sum.split rc.split simp del: inject_all.simps(2))

lemma holds_site_covers: "vma_placed v \<Longrightarrow> holds_site rip v \<longleftrightarrow> covers v rip"
proof -
  assume "vma_placed v"
  then have "unat (vma_start_address v) + unat (vma_size v) < 2 ^ 64"
    by (simp add: vma_placed_def placed_def)
  then have "unat (vma_start_address v + vma_size v) = unat (vma_start_address v) + unat (vma_size v)"
    using unat_add_lem[of "vma_start_address v" "vma_size v"] by simp
  then show ?thesis by (simp add: holds_site_def covers_def within_def word_le_nat_alt word_less_nat_alt)
qed

lemma apart_sorted_wrt_move:
  "sorted_wrt apart (xs @ v # ys) \<Longrightarrow> sorted_wrt apart (xs @ ys @ [v])"
  by (auto simp: sorted_wrt_append intro: apart_sym)

lemma address_space_filter: "address_space vs \<Longrightarrow> address_space (filter P vs)"
  by (auto simp: address_space_def list_all_iff intro: sorted_wrt_filter)

lemma protection_order_props:
  assumes "address_space vmas"
  shows "set (protection_order rip vmas) = {v \<in> set vmas. vma_prot v \<noteq> PROT_ALL}"
    "address_space (protection_order rip vmas)"
    "v \<in> set (butlast (protection_order rip vmas)) \<Longrightarrow> \<not> covers v rip"
proof -
  let ?P = "\<lambda>v. vma_prot v \<noteq> PROT_ALL" and ?n = "length (takeWhile (\<lambda>v. \<not> holds_site rip v) vmas)"
  note order = protection_order_def[of rip vmas, unfolded find_site_eq Let_def, simplified]
  have "set (protection_order rip vmas) = {v \<in> set vmas. ?P v} \<and>
      address_space (protection_order rip vmas) \<and>
      (\<forall>v \<in> set (butlast (protection_order rip vmas)). \<not> covers v rip)"
  proof (cases "?n < length vmas")
    case False
    then have "?n = length vmas" using length_takeWhile_le[of "\<lambda>v. \<not> holds_site rip v" vmas] by linarith
    then have "takeWhile (\<lambda>v. \<not> holds_site rip v) vmas = vmas"
      using takeWhile_eq_take[of "\<lambda>v. \<not> holds_site rip v" vmas] by simp
    then have "\<forall>v \<in> set vmas. \<not> holds_site rip v" by (simp add: takeWhile_eq_all_conv)
    moreover have "protection_order rip vmas = filter ?P vmas"
      using False \<open>?n = length vmas\<close> by (simp add: order others_eq)
    ultimately show ?thesis
      using assms by (auto simp: address_space_def list_all_iff holds_site_covers
          intro: sorted_wrt_filter dest: in_set_butlastD)
  next
    case True
    have split: "vmas = take ?n vmas @ vmas ! ?n # drop (Suc ?n) vmas"
      using True by (rule id_take_nth_drop)
    have ord: "protection_order rip vmas = filter ?P (take ?n vmas @ drop (Suc ?n) vmas @ [vmas ! ?n])"
      using True by (simp add: order others_eq)
    have "sorted_wrt apart (take ?n vmas @ drop (Suc ?n) vmas @ [vmas ! ?n])"
      using assms split by (intro apart_sorted_wrt_move) (simp add: address_space_def)
    moreover have mem: "set vmas = set (take ?n vmas @ drop (Suc ?n) vmas @ [vmas ! ?n])"
      using arg_cong[OF split, of set] by auto
    ultimately have "address_space (take ?n vmas @ drop (Suc ?n) vmas @ [vmas ! ?n])"
      using assms unfolding address_space_def list_all_iff by blast
    then have "address_space (protection_order rip vmas)"
      unfolding ord by (rule address_space_filter)
    moreover have "holds_site rip (vmas ! ?n)" using nth_length_takeWhile[OF True] by simp
    then have site: "covers (vmas ! ?n) rip"
      using assms True by (simp add: address_space_def list_all_length holds_site_covers)
    have "\<not> covers v rip" if "v \<in> set (take ?n vmas @ drop (Suc ?n) vmas)" for v
      using that \<open>sorted_wrt apart (take ?n vmas @ drop (Suc ?n) vmas @ [vmas ! ?n])\<close> site apart_covers
      by (fastforce simp: sorted_wrt_append)
    then have "\<forall>v \<in> set (butlast (protection_order rip vmas)). \<not> covers v rip"
      unfolding ord by (auto simp: butlast_append dest: in_set_butlastD split: if_splits)
    ultimately show ?thesis using mem by (auto simp: ord)
  qed
  then show "set (protection_order rip vmas) = {v \<in> set vmas. ?P v}"
    "address_space (protection_order rip vmas)"
    "v \<in> set (butlast (protection_order rip vmas)) \<Longrightarrow> \<not> covers v rip"
    by blast+
qed

text \<open>The protections of the mappings \<open>vs\<close> have been applied; nothing else has changed.\<close>

definition protected_as :: "vma_descriptor list \<Rightarrow> traced \<Rightarrow> traced \<Rightarrow> bool" where
  "protected_as vs c c' \<longleftrightarrow> c' = c\<lparr>tr_prot := tr_prot c'\<rparr> \<and>
     (\<forall>v \<in> set vs. \<forall>x. covers v x \<longrightarrow> tr_prot c' x = vma_prot v) \<and>
     (\<forall>x. (\<forall>v \<in> set vs. \<not> covers v x) \<longrightarrow> tr_prot c' x = tr_prot c x)"

lemma ucast_ucast_prot: "ucast (ucast (x :: u32) :: u64) = x"
  by (rule bit_word_eqI) (simp add: bit_simps)

lemma performs_mprotect:
  assumes "performs (mprotect_injection v) c c'" "tr_regs c' = tr_regs c"
  shows "c' = c\<lparr>tr_prot := tr_prot c'\<rparr>" "covers v x \<Longrightarrow> tr_prot c' x = vma_prot v"
    "\<not> covers v x \<Longrightarrow> tr_prot c' x = tr_prot c x"
  using assms
  by (auto simp: performs_def touches_def reprotects_def covers_def mprotect_injection_def
      syscall_numbers ucast_ucast_prot fun_eq_iff intro: traced.equality)

lemma performs_all_mprotect:
  "performs_all (map mprotect_injection vs) c c' \<Longrightarrow> address_space vs \<Longrightarrow> protected_as vs c c'"
proof (induction vs arbitrary: c)
  case (Cons v vs)
  then obtain c1 where c1: "tr_regs c1 = tr_regs c" "performs (mprotect_injection v) c c1"
    and rest: "performs_all (map mprotect_injection vs) c1 c'"
    by auto
  have split: "address_space vs" "list_all (apart v) vs"
    using Cons.prems(2) by (auto simp: address_space_def list_all_iff)
  note one = performs_mprotect[OF c1(2,1)] and IH = Cons.IH[OF rest split(1)]
  have fields: "c' = c\<lparr>tr_prot := tr_prot c'\<rparr>"
    using one(1) IH by (metis (no_types, lifting) protected_as_def traced.surjective traced.update_convs(4))
  have "\<not> covers w x" if "covers v x" "w \<in> set vs" for x w
    using that split(2) apart_covers by (auto simp: list_all_iff)
  then show ?case
    using one(2,3) IH fields unfolding protected_as_def by simp
qed (simp add: protected_as_def)

text \<open>The opcode has two bytes; they are on one page.\<close>

lemma unat_Suc: "unat (x :: u64) mod 4096 \<noteq> 4095 \<Longrightarrow> unat (x + 1) = unat x + 1"
proof -
  assume "unat x mod 4096 \<noteq> 4095"
  then have "unat x \<noteq> 2 ^ 64 - 1" by auto
  then have "unat x + unat (1 :: u64) < 2 ^ 64" using unat_u64_bound[of x] by simp
  then show ?thesis using unat_add_lem[of x 1] by simp
qed

lemma page_step:
  assumes "(a :: nat) mod 4096 = 0" "n mod 4096 = 0" "x mod 4096 \<noteq> 4095"
  shows "x + 1 \<noteq> a" "x + 1 \<noteq> a + n"
proof -
  have "(x + 1) mod 4096 \<noteq> 0" using assms(3) by (simp add: mod_Suc)
  moreover have "(a + n) mod 4096 = 0" using assms(1,2) by (simp add: mod_0_imp_dvd)
  ultimately show "x + 1 \<noteq> a" "x + 1 \<noteq> a + n" using assms(1) by metis+
qed

lemma covers_next:
  assumes "vma_placed v" "unat x mod 4096 \<noteq> 4095"
  shows "covers v (x + 1) \<longleftrightarrow> covers v x"
proof -
  have "unat (vma_start_address v) mod 4096 = 0" "unat (vma_size v) mod 4096 = 0"
    using assms(1) by (simp_all only: vma_placed_def placed_def)
  from page_step[OF this assms(2)] show ?thesis
    by (auto simp: covers_def within_def unat_Suc[OF assms(2)])
qed

lemma restore_protections_applies:
  assumes run: "restore_protections k pid vmas m = (OK (), m')" and laws: "traced_child k pid child"
    and vmas: "address_space vmas" and pokes: "pokes_succeed m'"
    and site: "executable_at (tr_prot (child (world m))) rip" and rip: "reg_rip (tr_regs (child (world m))) = rip"
      "unat rip mod 4096 \<noteq> 4095"
  shows "protected_as (filter (\<lambda>v. vma_prot v \<noteq> PROT_ALL) vmas) (child (world m)) (child (world m'))"
proof -
  let ?order = "protection_order rip vmas"
  obtain regs m1 where get: "sys_regs k (GetRegs pid) m = (Inr regs, m1)"
    and calls: "inject_all k pid (map mprotect_injection (protection_order (reg_rip regs) vmas)) m1 = (OK (), m')"
    using run by (auto simp: restore_protections_injects split: prod.splits sum.splits)
  note props = protection_order_props[OF vmas, where rip = rip]
  have c1: "child (world m1) = child (world m)" and order: "protection_order (reg_rip regs) vmas = ?order"
    using child_get_regs[OF get laws] rip(1) by simp_all
  have "list_all legal (map mprotect_injection ?order)"
    using props(2) by (simp add: list_all_iff address_space_def vma_placed_def legal_def mprotect_injection_def)
  moreover have "list_all (\<lambda>i. \<not> reprotects i rip \<and> \<not> reprotects i (rip + 1))
      (butlast (map mprotect_injection ?order))"
  proof -
    have "\<not> covers v rip \<and> \<not> covers v (rip + 1)" if "v \<in> set (butlast ?order)" for v
      using that props(2,3) covers_next[OF _ rip(2), of v]
      by (auto simp: address_space_def list_all_iff dest: in_set_butlastD)
    then show ?thesis
      by (auto simp: list_all_iff map_butlast[symmetric] reprotects_def touches_def
          mprotect_injection_def syscall_numbers covers_def)
  qed
  ultimately have "performs_all (map mprotect_injection ?order) (child (world m)) (child (world m'))"
    using inject_all_performs[OF calls laws _ pokes] site rip(1) by (simp add: c1 order)
  from performs_all_mprotect[OF this props(2)] show ?thesis
    using props(1) by (simp add: protected_as_def)
qed

section \<open>Kernel mappings\<close>

lemma child_inspection:
  "traced_child k pid child \<Longrightarrow> inspection k (\<lambda>m m'. child (world m') = child (world m))"
  by unfold_locales (auto simp: traced_child_def call_def split: prod.splits, metis snd_conv)

text \<open>Neither the place of a kernel mapping in the child nor the one it is moved to holds the
  injection site.\<close>

definition clear_of :: "u64 \<Rightarrow> u64 \<Rightarrow> u64 \<Rightarrow> bool" where
  "clear_of rip a n \<longleftrightarrow> placed a n \<and> \<not> within a n rip \<and> \<not> within a n (rip + 1)"

definition kernel_maps_clear :: "'w kernel \<Rightarrow> int \<Rightarrow> ksnap_dump_header \<Rightarrow> u64 \<Rightarrow> bool" where
  "kernel_maps_clear k pid header rip \<longleftrightarrow>
     (\<forall>i < unat (dh_kernel_map_count header).
        clear_of rip (km_start_address (dh_kernel_maps header ! i)) (km_size (dh_kernel_maps header ! i)) \<and>
        (\<forall>m start sz m'. find_named_map k pid (kernel_map_name header i) m = (OK (start, sz), m') \<longrightarrow>
           clear_of rip start sz))"

text \<open>What a step of the restore keeps that does not touch the injection site.\<close>

definition keeps_site :: "u64 \<Rightarrow> traced \<Rightarrow> traced \<Rightarrow> bool" where
  "keeps_site rip c c' \<longleftrightarrow> tr_regs c' = tr_regs c \<and> tr_xstate c' = tr_xstate c \<and>
     tr_cloexec c' = tr_cloexec c \<and> tr_prot c' rip = tr_prot c rip \<and> tr_prot c' (rip + 1) = tr_prot c (rip + 1)"

lemma keeps_site_executable: "keeps_site rip c c' \<Longrightarrow> executable_at (tr_prot c') rip = executable_at (tr_prot c) rip"
  by (simp add: keeps_site_def executable_at_def)

lemma move_kernel_maps_keeps:
  assumes "move_kernel_maps k pid header is m = (OK (), m')" and laws: "traced_child k pid child"
    and "set is \<subseteq> {..<unat (dh_kernel_map_count header)}" and clear: "kernel_maps_clear k pid header rip"
    and "child (world m) = c" "executable_at (tr_prot c) rip" "reg_rip (tr_regs c) = rip"
    and pokes: "pokes_succeed m'"
  shows "keeps_site rip c (child (world m'))"
  using assms(1,3,5-7)
proof (induction "is" arbitrary: m c)
  case Nil
  then show ?case by (auto simp: keeps_site_def)
next
  case (Cons i rest)
  let ?w = "dh_kernel_maps header ! i"
  obtain s n m1 where find: "find_named_map k pid (kernel_map_name header i) m = (OK (s, n), m1)"
    using Cons.prems(1)
    by (cases "find_named_map k pid (kernel_map_name header i) m") auto
  have c1: "child (world m1) = c"
    using inspection.find_named_map[OF child_inspection[OF laws] find, of m] Cons.prems(3) by simp
  have clr: "clear_of rip s n" "clear_of rip (km_start_address ?w) (km_size ?w)"
  proof -
    have "i < unat (dh_kernel_map_count header)" using Cons.prems(2) by simp
    with clear find show "clear_of rip s n" "clear_of rip (km_start_address ?w) (km_size ?w)"
      unfolding kernel_maps_clear_def by blast+
  qed
  show ?case
  proof (cases "s = km_start_address ?w")
    case True
    then have "move_kernel_maps k pid header rest m1 = (OK (), m')" using Cons.prems(1) find by simp
    then show ?thesis using Cons.prems(2,4,5) c1 by (intro Cons.IH[of m1]) auto
  next
    case False
    then obtain m2 where call: "inject_checked k pid (mremap_injection s n ?w) m1 = (OK (), m2)"
      and rest: "move_kernel_maps k pid header rest m2 = (OK (), m')"
      using Cons.prems(1) find by (auto split: prod.splits)
    have "extends (restoring pid) m2 m'"
      using restoring_log.move_kernel_maps[OF extends_refl, of pid m2 k header rest] rest by simp
    then have "pokes_succeed m2" using pokes by (rule pokes_succeed_extends)
    moreover have "legal (mremap_injection s n ?w)"
      using clr by (simp add: legal_def mremap_injection_def clear_of_def)
    ultimately have perf: "tr_regs (child (world m2)) = tr_regs c \<and>
        performs (mremap_injection s n ?w) c (child (world m2))"
      using inject_checked_performs[OF call laws] c1 Cons.prems(4,5) by simp
    then have keep: "keeps_site rip c (child (world m2))"
      using clr by (simp add: keeps_site_def performs_def touches_def reprotects_def mremap_injection_def
          syscall_numbers clear_of_def)
    have "keeps_site rip (child (world m2)) (child (world m'))"
    proof (rule Cons.IH[OF rest])
      show "executable_at (tr_prot (child (world m2))) rip"
        using keeps_site_executable[OF keep] Cons.prems(4) by simp
    qed (use Cons.prems perf in auto)
    then show ?thesis using keep by (simp add: keeps_site_def)
  qed
qed

lemma measure_kernel_maps_child:
  assumes "measure_kernel_maps k pid header is r m = (q, m')" and laws: "traced_child k pid child"
  shows "child (world m') = child (world m)"
  using assms(1)
proof (induction "is" arbitrary: r m)
  case (Cons i rest)
  obtain f m1 where find: "find_named_map k pid (kernel_map_name header i) m = (f, m1)" by fastforce
  have "child (world m1) = child (world m)"
    using inspection.find_named_map[OF child_inspection[OF laws] find, of m] by simp
  then show ?case
    using Cons find by (cases f) (auto split: if_splits)
qed simp

lemma restore_kernel_maps_keeps:
  assumes run: "restore_kernel_maps k pid header m = (OK (), m')" and laws: "traced_child k pid child"
    and clear: "kernel_maps_clear k pid header rip"
    and "child (world m) = c" "executable_at (tr_prot c) rip" "reg_rip (tr_regs c) = rip" "pokes_succeed m'"
  shows "keeps_site rip c (child (world m'))"
proof (cases "[0..<unat (dh_kernel_map_count header)] = []")
  case True
  then show ?thesis using assms by (auto simp: restore_kernel_maps_def keeps_site_def)
next
  case False
  then obtain r m1 where "measure_kernel_maps k pid header [0..<unat (dh_kernel_map_count header)] empty_ranges m = (OK r, m1)"
    and moves: "move_kernel_maps k pid header [0..<unat (dh_kernel_map_count header)] m1 = (OK (), m')"
    using run by (auto simp: restore_kernel_maps_def Let_def split: prod.splits if_splits)
  then have "child (world m1) = c" using measure_kernel_maps_child[OF _ laws] assms(4) by simp
  then show ?thesis using assms by (intro move_kernel_maps_keeps[OF moves laws _ clear]) auto
qed

section \<open>The restored process\<close>

text \<open>What the process that is released looks like, against the one that stopped after its
  \<open>exec\<close>.\<close>

definition process_restored :: "bytes \<Rightarrow> snapshot_metadata \<Rightarrow> traced \<Rightarrow> traced \<Rightarrow> bool" where
  "process_restored content md c c' \<longleftrightarrow>
     tr_regs c' = dh_regs (sm_header md) \<and> tr_xstate c' = sm_xstate md \<and>
     tr_cloexec c' = tr_cloexec c \<union> fd_number ` set (cloexec_fds (sm_fds md)) \<and>
     (\<forall>v \<in> set (sm_vmas md).
        mem_bytes (tr_mem c') (vma_start_address v) (unat (vma_size v)) =
          take (unat (vma_size v)) (drop (unat (vma_data_offset v)) content) \<and>
        (\<forall>x. covers v x \<longrightarrow> tr_prot c' x = vma_prot v))"

lemma copy_in_reads:
  assumes "copy_in k content v c m = (OK (), m')" "c < vma_size v"
  shows "unat (vma_data_offset v) + unat (vma_size v) \<le> length content"
  using assms
proof (induction "unat (vma_size v - c)" arbitrary: c m rule: less_induct)
  case less
  define n where "n = min (vma_size v - c) 4096"
  note prog = copy_in_progress[OF less.prems(2), folded n_def]
  obtain m1 where rest: "copy_in k content v (c + n) m1 = (OK (), m')"
    and len: "min (length content - (unat (vma_data_offset v) + unat c)) (unat n) = unat n"
    using less.prems
    by (subst (asm) copy_in.simps) (auto simp: Let_def n_def split: if_splits prod.splits sum.splits)
  show ?case
  proof (cases "c + n < vma_size v")
    case True
    then show ?thesis using less.hyps[OF prog(5) rest] by simp
  next
    case False
    then have "unat (vma_size v) \<le> unat c + unat n" using prog(3) by (simp add: word_less_nat_alt)
    then show ?thesis using len prog(1) by linarith
  qed
qed

lemma restore_vmas_reads:
  "restore_vmas k pid content vs m = (OK (), m') \<Longrightarrow> v \<in> set vs \<Longrightarrow> 0 < vma_size v \<Longrightarrow>
   unat (vma_data_offset v) + unat (vma_size v) \<le> length content"
proof (induction vs arbitrary: m)
  case (Cons w vs)
  obtain m1 where one: "restore_vma k pid content w m = (OK (), m1)"
    and rest: "restore_vmas k pid content vs m1 = (OK (), m')"
    using Cons.prems(1) by (auto split: prod.splits)
  show ?case
  proof (cases "v = w")
    case True
    then obtain m2 where "copy_in k content v 0 m2 = (OK (), m1)"
      using one by (auto simp: restore_vma_def split: prod.splits if_splits)
    then show ?thesis using Cons.prems(3) by (rule copy_in_reads)
  qed (use Cons rest in auto)
qed simp

lemma payload_bytes_loaded:
  assumes "vma_placed v" "\<And>x. covers v x \<Longrightarrow> mem x = payload_at content v x"
    and "0 < vma_size v \<Longrightarrow> unat (vma_data_offset v) + unat (vma_size v) \<le> length content"
  shows "mem_bytes mem (vma_start_address v) (unat (vma_size v)) =
    take (unat (vma_size v)) (drop (unat (vma_data_offset v)) content)"
proof (rule nth_equalityI)
  have n: "0 < unat (vma_size v) \<Longrightarrow> unat (vma_data_offset v) + unat (vma_size v) \<le> length content"
    using assms(3) by (simp add: word_less_nat_alt)
  then show "length (mem_bytes mem (vma_start_address v) (unat (vma_size v))) =
      length (take (unat (vma_size v)) (drop (unat (vma_data_offset v)) content))"
    by (cases "unat (vma_size v) = 0") auto
  fix i assume "i < length (mem_bytes mem (vma_start_address v) (unat (vma_size v)))"
  then have i: "i < unat (vma_size v)" by simp
  then have off: "unat (word_of_nat i :: u64) = i"
    using unat_u64_bound[of "vma_size v"] by (intro unat_of_nat_u64) simp
  then have "covers v (vma_start_address v + word_of_nat i)"
    using assms(1) i by (simp add: covers_def vma_placed_def within_offset)
  then show "mem_bytes mem (vma_start_address v) (unat (vma_size v)) ! i =
      take (unat (vma_size v)) (drop (unat (vma_data_offset v)) content) ! i"
    using assms(2) i off n by (simp add: mem_bytes_def payload_at_def)
qed

lemma restore_memory_steps:
  assumes "restore_memory k pid content md m = (OK (), m')"
  obtains m1 m2 m3 m4 r m5 where
    "sys_unit k (OpenMem (proc_path pid ''mem'') True) m = (Inr (), m1)"
    "restore_fd_flags k pid (sm_fds md) m1 = (OK (), m2)"
    "restore_kernel_maps k pid (sm_header md) m2 = (OK (), m3)"
    "restore_vmas k pid content (sm_vmas md) m3 = (OK (), m4)"
    "sys_unit k CloseMem m4 = (r, m5)" "restore_protections k pid (sm_vmas md) m5 = (OK (), m')"
proof -
  obtain a m1 where 1: "sys_unit k (OpenMem (proc_path pid ''mem'') True) m = (a, m1)" by fastforce
  obtain b m2 where 2: "restore_fd_flags k pid (sm_fds md) m1 = (b, m2)" by fastforce
  obtain c m3 where 3: "restore_kernel_maps k pid (sm_header md) m2 = (c, m3)" by fastforce
  obtain d m4 where 4: "restore_vmas k pid content (sm_vmas md) m3 = (d, m4)" by fastforce
  obtain r m5 where 5: "sys_unit k CloseMem m4 = (r, m5)" by fastforce
  have ok: "a = Inr ()" "b = OK ()" "c = OK ()" "d = OK ()"
    "restore_protections k pid (sm_vmas md) m5 = (OK (), m')"
    using assms 1 2 3 4 5
    by (auto simp: restore_memory_def Let_def split: sum.splits rc.splits if_splits)
  show ?thesis using that 1 2 3 4 5 ok by blast
qed

lemma restore_fd_flags_effect:
  assumes run: "restore_fd_flags k pid fds m = (OK (), m')" and laws: "traced_child k pid child"
    and "executable_at (tr_prot (child (world m))) (reg_rip (tr_regs (child (world m))))" "pokes_succeed m'"
  shows "child (world m') = (child (world m))\<lparr>tr_cloexec :=
    tr_cloexec (child (world m)) \<union> fd_number ` set (cloexec_fds fds)\<rparr>"
proof (rule performs_all_cloexec, rule inject_all_performs[OF _ laws])
  show "inject_all k pid (map cloexec_injection (cloexec_fds fds)) m = (OK (), m')"
    using run by (simp add: restore_fd_flags_injects)
  show "list_all legal (map cloexec_injection (cloexec_fds fds))"
    by (simp add: list_all_iff legal_def cloexec_injection_def)
  have "\<not> reprotects (cloexec_injection d) x" for d x
    by (simp add: cloexec_injection_def reprotects_def touches_def syscall_numbers)
  then show "list_all (\<lambda>i. \<not> reprotects i rip \<and> \<not> reprotects i (rip + 1))
      (butlast (map cloexec_injection (cloexec_fds fds)))" for rip
    by (auto simp: list_all_iff dest!: in_set_butlastD)
qed (use assms in simp_all)

lemma loaded_protected:
  assumes vmas: "address_space vmas" and loads: "loaded content vmas c c1"
    and prots: "protected_as (filter (\<lambda>v. vma_prot v \<noteq> PROT_ALL) vmas) c1 c2"
    and v: "v \<in> set vmas" "covers v x"
  shows "tr_prot c2 x = vma_prot v"
proof (cases "vma_prot v = PROT_ALL")
  case False
  then show ?thesis using v prots by (simp add: protected_as_def)
next
  case True
  have "\<not> covers w x" if "w \<in> set (filter (\<lambda>v. vma_prot v \<noteq> PROT_ALL) vmas)" for w
  proof -
    have "w \<noteq> v" "w \<in> set vmas" using that True by auto
    then have "apart w v"
      using vmas v(1) unfolding address_space_def
      by (metis apart_sym in_set_conv_nth linorder_neqE_nat sorted_wrt_nth_less)
    then show ?thesis using v(2) apart_covers by blast
  qed
  then have "tr_prot c2 x = tr_prot c1 x" using prots by (simp add: protected_as_def)
  then show ?thesis using loads v True by (auto simp: loaded_def)
qed

text \<open>Every call of a step that succeeded is in the log at the end.\<close>

lemma restore_memory_pokes:
  assumes "restore_fd_flags k pid fds m1 = (r1, m2)" "restore_kernel_maps k pid header m2 = (r2, m3)"
    "restore_vmas k pid content vmas m3 = (r3, m4)" "sys_unit k CloseMem m4 = (r4, m5)"
    "restore_protections k pid vmas m5 = (r5, m')" "pokes_succeed m'"
  shows "pokes_succeed m2" "pokes_succeed m3" "pokes_succeed m4"
proof -
  have "extends (restoring pid) m5 m'"
    using restoring_log.restore_protections[OF extends_refl, of pid m5 k vmas] assms(5) by simp
  moreover have "extends (restoring pid) m4 m5"
    using log_frame.after(1)[OF _ extends_refl, where P = "restoring pid" and c = CloseMem and m = m4 and k = k]
      assms(4) by simp
  ultimately show p4: "pokes_succeed m4"
    using assms(6) by (blast intro: pokes_succeed_extends)
  show p3: "pokes_succeed m3"
    using restoring_log.restore_vmas[OF extends_refl, of pid m3 k content vmas] assms(3) p4
    by (auto intro: pokes_succeed_extends)
  show "pokes_succeed m2"
    using restoring_log.restore_kernel_maps[OF extends_refl, of pid m2 k header] assms(2) p3
    by (auto intro: pokes_succeed_extends)
qed

lemma restore_memory_effect:
  assumes run: "restore_memory k pid content md m = (OK (), m')" and laws: "traced_child k pid child"
    and vmas: "address_space (sm_vmas md)" and clear: "kernel_maps_clear k pid (sm_header md) rip"
    and site: "executable_at (tr_prot (child (world m))) rip" and rip: "reg_rip (tr_regs (child (world m))) = rip"
      "unat rip mod 4096 \<noteq> 4095"
    and pokes: "pokes_succeed m'"
  shows "process_restored content md (child (world m))
    ((child (world m'))\<lparr>tr_regs := dh_regs (sm_header md), tr_xstate := sm_xstate md\<rparr>)"
proof -
  from run obtain m1 m2 m3 m4 r m5 where s:
    "sys_unit k (OpenMem (proc_path pid ''mem'') True) m = (Inr (), m1)"
    "restore_fd_flags k pid (sm_fds md) m1 = (OK (), m2)"
    "restore_kernel_maps k pid (sm_header md) m2 = (OK (), m3)"
    "restore_vmas k pid content (sm_vmas md) m3 = (OK (), m4)"
    "sys_unit k CloseMem m4 = (r, m5)" "restore_protections k pid (sm_vmas md) m5 = (OK (), m')"
    by (rule restore_memory_steps)
  note p = restore_memory_pokes[OF s(2-6) pokes]
  let ?c = "\<lambda>m. child (world m)"
  have c1: "?c m1 = ?c m" using child_looks(1)[OF laws _ s(1)] by simp
  have c2: "?c m2 = (?c m)\<lparr>tr_cloexec := tr_cloexec (?c m) \<union> fd_number ` set (cloexec_fds (sm_fds md))\<rparr>"
    using restore_fd_flags_effect[OF s(2) laws _ p(1)] site rip(1) c1 by simp
  have k3: "keeps_site rip (?c m2) (?c m3)"
    using restore_kernel_maps_keeps[OF s(3) laws clear HOL.refl _ _ p(2)] site rip(1) c2 by simp
  have e3: "executable_at (tr_prot (?c m3)) rip" "reg_rip (tr_regs (?c m3)) = rip"
    using keeps_site_executable[OF k3] k3 c2 site rip(1) by (simp_all add: keeps_site_def)
  have l4: "loaded content (sm_vmas md) (?c m3) (?c m4)"
    using e3 by (intro restore_vmas_loads[OF s(4) laws vmas _ p(3)]) simp
  have c5: "?c m5 = ?c m4" using child_looks(1)[OF laws _ s(5)] by simp
  have e5: "executable_at (tr_prot (?c m5)) rip" "reg_rip (tr_regs (?c m5)) = rip"
    using loaded_executable[OF l4 e3(1)] l4 e3(2) c5 by (simp_all add: loaded_def)
  have l6: "protected_as (filter (\<lambda>v. vma_prot v \<noteq> PROT_ALL) (sm_vmas md)) (?c m4) (?c m')"
    using restore_protections_applies[OF s(6) laws vmas pokes e5 rip(2)] c5 by simp
  then have c6: "tr_mem (?c m') = tr_mem (?c m4)" "tr_cloexec (?c m') = tr_cloexec (?c m4)"
    unfolding protected_as_def by (metis traced.select_convs traced.surjective traced.update_convs(4))+
  have "mem_bytes (tr_mem (?c m')) (vma_start_address v) (unat (vma_size v)) =
      take (unat (vma_size v)) (drop (unat (vma_data_offset v)) content)" if "v \<in> set (sm_vmas md)" for v
    using that vmas l4 restore_vmas_reads[OF s(4) that]
    by (intro payload_bytes_loaded) (auto simp: c6 loaded_def address_space_def list_all_iff)
  moreover have "tr_cloexec (?c m') = tr_cloexec (?c m) \<union> fd_number ` set (cloexec_fds (sm_fds md))"
    using c6(2) l4 k3 c2 by (simp add: loaded_def keeps_site_def)
  ultimately show ?thesis
    using loaded_protected[OF vmas l4 l6] unfolding process_restored_def by simp
qed

lemma restore_stopped_effect:
  assumes run: "restore_stopped k pid content md m = (OK (), m')" and laws: "traced_child k pid child"
    and vmas: "address_space (sm_vmas md)" and clear: "kernel_maps_clear k pid (sm_header md) rip"
    and site: "executable_at (tr_prot (child (world m))) rip" and rip: "reg_rip (tr_regs (child (world m))) = rip"
      "unat rip mod 4096 \<noteq> 4095"
    and pokes: "pokes_succeed m'"
  shows "process_restored content md (child (world m)) (child (world m'))"
proof -
  obtain m1 m2 where mem: "restore_memory k pid content md m = (OK (), m1)"
    and regs: "sys_unit k (SetRegs pid (dh_regs (sm_header md))) m1 = (Inr (), m2)"
    and xs: "sys_unit k (SetXstate pid (sm_xstate md)) m2 = (Inr (), m')"
    using run by (auto simp: restore_stopped_def set_final_regs_def set_final_xstate_def
        split: prod.splits sum.splits)
  have "pokes_succeed m1"
    using pokes regs xs by (auto simp: pokes_succeed_def typed_turn)
  from restore_memory_effect[OF mem laws vmas clear site rip this]
  show ?thesis using child_sets(1)[OF laws regs] child_sets(2)[OF laws xs] by simp
qed

end
