(* ===== verification/Resume.thy ===== *)
theory Resume
  imports Restored Checkpoint
begin

text \<open>
  What \<open>restorer\<close> promises as a whole: which calls it makes, that a half restored process is
  never released, and that a process restored from the snapshot of a dump is the dumped one.
\<close>

section \<open>The calls of a run\<close>

text \<open>Before the fork.\<close>

definition prepares :: "syscall \<Rightarrow> bool" where
  "prepares c \<longleftrightarrow> validating c \<or> (\<exists>path. c = OpenSnapshot path)"

text \<open>In the child: its own descriptors, and at the end the program.\<close>

fun own_files :: "syscall \<Rightarrow> bool" where
  "own_files (CloseRange n) = True"
| "own_files (OpenFile p f) = True"
| "own_files (Lseek n pos) = True"
| "own_files (Dup2 a b) = True"
| "own_files (CloseFd n) = True"
| "own_files _ = False"

definition child_run :: "child_end \<Rightarrow> (syscall \<times> reply) list \<Rightarrow> bool" where
  "child_run e evs \<longleftrightarrow>
     (e = ExitFailure \<and> list_all (own_files \<circ> fst) evs) \<or>
     (\<exists>pre p t argv0 x. evs = pre @ [(Personality, p), (TraceMe, t), (Execv argv0, x)] \<and>
        list_all (own_files \<circ> fst) pre \<and>
        e = (if as_unit x = Inr () then Replaced argv0 else ExitFailure))"

text \<open>In the parent: a process that is restored is detached and waited for, one that is not is
  killed and reaped, and one that has already ended is left alone.\<close>

definition parent_run :: "int \<Rightarrow> unit rc \<Rightarrow> (syscall \<times> reply) list \<Rightarrow> bool" where
  "parent_run pid r evs \<longleftrightarrow>
     (\<exists>mid a b. evs = mid @ [(Detach pid, a), (Waitpid pid, b)] \<and> list_all (restoring pid \<circ> fst) mid \<and> r = OK ()) \<or>
     (\<exists>mid a b. evs = mid @ [(Kill pid, a), (Waitpid pid, b)] \<and> list_all (restoring pid \<circ> fst) mid \<and> r = ERROR) \<or>
     (\<exists>a. evs = [(Waitpid pid, a)] \<and> r = ERROR \<and>
        (\<forall>status. as_int a = Inr status \<longrightarrow> WIFEXITED status \<or> WIFSIGNALED status))"

interpretation own_files_log: frame k "extends own_files" own_files for k
  by unfold_locales

lemma open_snapshot_fd_calls: "extends own_files m0 m \<Longrightarrow> extends own_files m0 (snd (open_snapshot_fd k pool d m))"
  unfolding open_snapshot_fd_def
  by (intro log_frame.walk log_frame.after[where P = own_files])
    (simp_all add: log_frame.after[where P = own_files])

lemma open_entries_calls: "extends own_files m0 m \<Longrightarrow> extends own_files m0 (snd (open_entries k pool fds m))"
  by (induction fds arbitrary: m) (auto intro!: log_frame.walk open_snapshot_fd_calls)

lemma open_snapshot_fds_calls:
  "extends own_files m0 m \<Longrightarrow> extends own_files m0 (snd (open_snapshot_fds k fds pool m))"
  unfolding open_snapshot_fds_def
  by (intro log_frame.walk log_frame.after[where P = own_files] open_entries_calls) auto

lemma spawn_traced_child_run:
  assumes "spawn_traced_child k exe_path fds pool m = (e, m')"
  obtains evs where "log m' = log m @ evs" "child_run e evs"
proof -
  obtain r m1 where o: "open_snapshot_fds k fds pool m = (r, m1)" by fastforce
  then obtain pre where pre: "log m1 = log m @ pre" "list_all (own_files \<circ> fst) pre"
    using open_snapshot_fds_calls[OF extends_refl, of m k fds pool] by (auto simp: extends_def)
  show ?thesis
  proof (cases r)
    case ERROR
    then show ?thesis using assms o pre that[of pre] by (simp add: spawn_traced_child_def child_run_def)
  next
    case (OK u)
    define argv0 where "argv0 = take (PATH_MAX - 1) (c_str exe_path)"
    obtain p m2 where p: "sys_unit k Personality m1 = (p, m2)" by fastforce
    obtain t m3 where t: "sys_unit k TraceMe m2 = (t, m3)" by fastforce
    obtain x m4 where x: "sys_unit k (Execv argv0) m3 = (x, m4)" by fastforce
    obtain p' where "log m2 = log m1 @ [(Personality, p')]" using sys_log(1)[OF p] by blast
    moreover obtain t' where "log m3 = log m2 @ [(TraceMe, t')]" using sys_log(1)[OF t] by blast
    moreover obtain x' where "log m4 = log m3 @ [(Execv argv0, x')]" "as_unit x' = x"
      using sys_log(1)[OF x] by blast
    moreover have "m' = m4" "e = (if x = Inr () then Replaced argv0 else ExitFailure)"
      using assms o OK p t x
      by (auto simp: spawn_traced_child_def Let_def argv0_def simp del: One_nat_def split: sum.splits)
    ultimately show ?thesis
      using pre by (intro that[of "pre @ [(Personality, p'), (TraceMe, t'), (Execv argv0, x')]"])
        (auto simp: child_run_def)
  qed
qed

lemma kill_and_reap_log: "\<exists>a b. log (kill_and_reap k pid m) = log m @ [(Kill pid, a), (Waitpid pid, b)]"
  by (auto simp: kill_and_reap_def sys_unit_def log_call)

lemma detach_log: "\<exists>a b. log (snd (sys_unit k (Waitpid pid) (snd (sys_unit k (Detach pid) m)))) =
    log m @ [(Detach pid, a), (Waitpid pid, b)]"
  by (auto simp: sys_unit_def log_call)

lemma restore_parent_run:
  assumes "restore_parent k junk pid content md m = (r, m')"
  obtains evs where "log m' = log m @ evs" "parent_run pid r evs"
proof -
  obtain w m1 where w: "sys_int k (Waitpid pid) m = (w, m1)" by fastforce
  obtain a where a: "log m1 = log m @ [(Waitpid pid, a)]" "as_int a = w" using sys_log(2)[OF w] by blast
  define status where "status = (case w of Inl e \<Rightarrow> junk | Inr s \<Rightarrow> s)"
  obtain q m2 where q: "restore_stopped k pid content md m1 = (q, m2)" by fastforce
  obtain mid where mid: "log m2 = log m1 @ mid" "list_all (restoring pid \<circ> fst) mid"
    using restoring_log.restore_stopped[OF extends_refl, of pid m1 k content md] q by (auto simp: extends_def)
  consider "WIFSTOPPED status" "q = OK ()" | "WIFSTOPPED status" "q = ERROR"
    | "\<not> WIFSTOPPED status" "\<not> WIFEXITED status" "\<not> WIFSIGNALED status"
    | "\<not> WIFSTOPPED status" "WIFEXITED status \<or> WIFSIGNALED status"
    by (cases q) auto
  then show ?thesis
  proof cases
    case 1
    then have m': "r = OK ()" "m' = snd (sys_unit k (Waitpid pid) (snd (sys_unit k (Detach pid) m2)))"
      using assms w q by (auto simp: restore_parent_def status_def Let_def)
    obtain c d where "log m' = log m2 @ [(Detach pid, c), (Waitpid pid, d)]"
      using detach_log[of k pid m2] m'(2) by auto
    then show ?thesis
      using a mid m'(1) that[of "((Waitpid pid, a) # mid) @ [(Detach pid, c), (Waitpid pid, d)]"]
      unfolding parent_run_def by fastforce
  next
    case 2
    then have m': "r = ERROR" "m' = kill_and_reap k pid m2"
      using assms w q by (auto simp: restore_parent_def status_def Let_def)
    obtain c d where "log m' = log m2 @ [(Kill pid, c), (Waitpid pid, d)]"
      using kill_and_reap_log[of k pid m2] m'(2) by auto
    then show ?thesis
      using a mid m'(1) that[of "((Waitpid pid, a) # mid) @ [(Kill pid, c), (Waitpid pid, d)]"]
      unfolding parent_run_def by fastforce
  next
    case 3
    then have m': "r = ERROR" "m' = kill_and_reap k pid m1"
      using assms w q by (auto simp: restore_parent_def status_def Let_def)
    obtain c d where "log m' = log m1 @ [(Kill pid, c), (Waitpid pid, d)]"
      using kill_and_reap_log[of k pid m1] m'(2) by auto
    then show ?thesis
      using a m'(1) that[of "[(Waitpid pid, a)] @ [(Kill pid, c), (Waitpid pid, d)]"]
      unfolding parent_run_def by fastforce
  next
    case 4
    then have "r = ERROR" "m' = m1"
      using assms w q by (auto simp: restore_parent_def status_def Let_def)
    then show ?thesis
      using a 4(2) that[of "[(Waitpid pid, a)]"] by (auto simp: parent_run_def status_def split: sum.splits)
  qed
qed

text \<open>A run of \<open>restorer\<close>, in the process that executes it.\<close>

lemma restorer_run:
  assumes "restorer k junk config m = (e, m')"
  obtains (refused) "e = Parent ERROR" "extends prepares m m'"
    | (no_fork) pre f where "log m' = log m @ pre @ [(Fork, f)]" "\<And>pid. as_int f = Inr pid \<Longrightarrow> pid < 0"
        "list_all (prepares \<circ> fst) pre" "e = Parent ERROR"
    | (parent) pre f pid evs r where "log m' = log m @ pre @ (Fork, f) # evs" "as_int f = Inr pid" "0 < pid"
        "list_all (prepares \<circ> fst) pre" "e = Parent r" "parent_run pid r evs"
    | (child) pre f evs c where "log m' = log m @ pre @ (Fork, f) # evs" "as_int f = Inr 0"
        "list_all (prepares \<circ> fst) pre" "e = Child c" "child_run c evs"
proof -
  show ?thesis
  proof (cases "build_snapshot_path config")
    case ERROR
    then show ?thesis using assms refused by (simp add: restorer_def)
  next
    case (OK path)
    obtain x m1 where x: "sys_text k (OpenSnapshot path) m = (x, m1)" by fastforce
    have e1: "extends prepares m m1"
      by (rule log_frame.bound(4)[OF x]) (auto simp: prepares_def)
    show ?thesis
    proof (cases x)
      case (Inl err)
      then show ?thesis using assms OK x e1 refused by (simp add: restorer_def)
    next
      case (Inr y)
      obtain content err where y: "y = (content, err)" by (cases y)
      obtain q m2 where q: "read_snapshot_metadata k content m1 = (q, m2)" by fastforce
      have "extends prepares m1 m2"
        using read_snapshot_metadata_validating[OF q] by (auto simp: extends_def prepares_def list_all_iff)
      with e1 have e2: "extends prepares m m2" by (rule extends_trans)
      then obtain pre where pre: "log m2 = log m @ pre" "list_all (prepares \<circ> fst) pre"
        by (auto simp: extends_def)
      show ?thesis
      proof (cases q)
        case ERROR
        then show ?thesis using assms OK x Inr y q e2 refused by (simp add: restorer_def)
      next
        case q_OK: (OK md)
        obtain z m3 where z: "sys_int k Fork m2 = (z, m3)" by fastforce
        obtain f where f: "log m3 = log m2 @ [(Fork, f)]" "as_int f = z" using sys_log(2)[OF z] by blast
        consider "\<And>pid. z = Inr pid \<Longrightarrow> pid < 0" | "z = Inr 0" | pid where "z = Inr pid" "0 < pid"
          by (cases z) force+
        then show ?thesis
        proof cases
          case 1
          then have "e = Parent ERROR" "m' = m3" using assms OK x Inr y q q_OK z
            by (cases z; simp add: restorer_def)+
          then show ?thesis using no_fork[of pre f] pre f 1 by simp
        next
          case 2
          obtain c m4 where c: "spawn_traced_child k (dh_exe_path (sm_header md)) (sm_fds md) (sm_pool md) m3 = (c, m4)"
            by fastforce
          obtain evs where "log m4 = log m3 @ evs" "child_run c evs" by (rule spawn_traced_child_run[OF c])
          then show ?thesis
            using assms OK x Inr y q q_OK z 2 c f pre child[of pre f evs c] by (auto simp: restorer_def)
        next
          case 3
          obtain r m4 where r: "restore_parent k junk pid content md m3 = (r, m4)" by fastforce
          obtain evs where "log m4 = log m3 @ evs" "parent_run pid r evs" by (rule restore_parent_run[OF r])
          then show ?thesis
            using assms OK x Inr y q q_OK z 3 r f pre parent[of pre f evs pid r] by (auto simp: restorer_def)
        qed
      qed
    qed
  qed
qed

section \<open>The process that is released\<close>

text \<open>What is assumed besides \<open>traced_child\<close>: the file that is opened holds \<open>content\<close>, and a child
  that stops for the first time after the fork has just executed the program: it is about to run
  an instruction on a page it may execute, apart from the kernel mappings.\<close>

definition delivers :: "'w kernel \<Rightarrow> ksnap_config \<Rightarrow> bytes \<Rightarrow> bool" where
  "delivers k config content \<longleftrightarrow>
     (\<forall>path w. build_snapshot_path config = OK path \<longrightarrow>
        (\<exists>err. fst (k (OpenSnapshot path) w) = RText content err))"

definition snapshot_header :: "bytes \<Rightarrow> ksnap_dump_header" where
  "snapshot_header content = terminate_exe_path (decode_header (take header_width content))"

definition stops_at_exec :: "'w kernel \<Rightarrow> (int \<Rightarrow> 'w \<Rightarrow> traced) \<Rightarrow> ksnap_dump_header \<Rightarrow> bool" where
  "stops_at_exec k child header \<longleftrightarrow>
     (\<forall>m pid m1 status m2. sys_int k Fork m = (Inr pid, m1) \<longrightarrow> 0 < pid \<longrightarrow>
        sys_int k (Waitpid pid) m1 = (Inr status, m2) \<longrightarrow> WIFSTOPPED status \<longrightarrow>
        (let c = child pid (world m2); rip = reg_rip (tr_regs c) in
         executable_at (tr_prot c) rip \<and> unat rip mod 4096 \<noteq> 4095 \<and> kernel_maps_clear k pid header rip))"

lemma read_snapshot_metadata_header:
  "read_snapshot_metadata k content m = (OK md, m') \<Longrightarrow> sm_header md = snapshot_header content"
  by (erule read_snapshot_metadata_steps) (simp add: snapshot_header_def)

lemma restorer_OK:
  assumes "restorer k junk config m = (Parent (OK ()), m')"
  obtains path content err m1 md m2 pid m3 where
    "build_snapshot_path config = OK path" "sys_text k (OpenSnapshot path) m = (Inr (content, err), m1)"
    "read_snapshot_metadata k content m1 = (OK md, m2)" "sys_int k Fork m2 = (Inr pid, m3)" "0 < pid"
    "restore_parent k junk pid content md m3 = (OK (), m')"
  using assms
  by (auto simp: restorer_def map_prod_def split: rc.splits prod.splits sum.splits if_splits)

lemma restore_parent_OK:
  assumes "restore_parent k junk pid content md m = (OK (), m')"
  obtains w m1 m2 where "sys_int k (Waitpid pid) m = (w, m1)"
    "WIFSTOPPED (case w of Inl e \<Rightarrow> junk | Inr s \<Rightarrow> s)"
    "restore_stopped k pid content md m1 = (OK (), m2)"
    "m' = snd (sys_unit k (Waitpid pid) (snd (sys_unit k (Detach pid) m2)))"
proof -
  obtain w m1 where w: "sys_int k (Waitpid pid) m = (w, m1)" by fastforce
  obtain q m2 where q: "restore_stopped k pid content md m1 = (q, m2)" by fastforce
  show ?thesis
    using assms w q by (cases q) (auto simp: restore_parent_def Let_def intro: that split: if_splits)
qed

theorem restorer_restores:
  fixes m :: "'w machine"
  assumes run: "restorer k junk config m = (Parent (OK ()), m')" and junk: "\<not> WIFSTOPPED junk"
    and served: "delivers k config content"
    and laws: "\<And>pid. traced_child k pid (child pid)"
    and stop: "stops_at_exec k child (snapshot_header content)"
    and vmas: "\<And>mr md mr'. read_snapshot_metadata k content mr = (OK md, mr') \<Longrightarrow> address_space (sm_vmas md)"
    and pokes: "pokes_succeed m'"
  obtains md mr mr' pid and m1 m2 :: "'w machine" and a b where
    "read_snapshot_metadata k content mr = (OK md, mr')"
    "log m' = log m2 @ [(Detach pid, a), (Waitpid pid, b)]"
    "process_restored content md (child pid (world m1)) (child pid (world m2))"
proof -
  obtain path content' err ma md mb pid mc where r:
    "build_snapshot_path config = OK path" "sys_text k (OpenSnapshot path) m = (Inr (content', err), ma)"
    "read_snapshot_metadata k content' ma = (OK md, mb)" "sys_int k Fork mb = (Inr pid, mc)" "0 < pid"
    "restore_parent k junk pid content' md mc = (OK (), m')"
    by (rule restorer_OK[OF run])
  obtain b where "fst (k (OpenSnapshot path) (world m)) = RText content b"
    using served r(1) unfolding delivers_def by blast
  then have c: "content' = content" using r(2) by (auto simp: sys_text_def call_def split: prod.splits)
  obtain w m1 m2 where p: "sys_int k (Waitpid pid) mc = (w, m1)"
    "WIFSTOPPED (case w of Inl e \<Rightarrow> junk | Inr s \<Rightarrow> s)" "restore_stopped k pid content' md m1 = (OK (), m2)"
    "m' = snd (sys_unit k (Waitpid pid) (snd (sys_unit k (Detach pid) m2)))"
    by (rule restore_parent_OK[OF r(6)])
  obtain status where status: "w = Inr status" "WIFSTOPPED status" using p(2) junk by (cases w) auto
  define rip where "rip = reg_rip (tr_regs (child pid (world m1)))"
  have at: "executable_at (tr_prot (child pid (world m1))) rip" "unat rip mod 4096 \<noteq> 4095"
    "kernel_maps_clear k pid (sm_header md) rip"
    using stop[unfolded stops_at_exec_def, rule_format, OF r(4,5)] p(1) status
      read_snapshot_metadata_header[OF r(3)] c
    by (simp_all add: rip_def Let_def)
  obtain a b where log: "log m' = log m2 @ [(Detach pid, a), (Waitpid pid, b)]"
    using detach_log[of k pid m2] p(4) by auto
  then have "pokes_succeed m2" using pokes by (simp add: pokes_succeed_def)
  from restore_stopped_effect[OF p(3) laws vmas[OF r(3)[unfolded c]] at(3,1) rip_def[symmetric] at(2) this]
  show ?thesis using that[OF r(3)[unfolded c] log] c by simp
qed

section \<open>Checkpoint and restore\<close>

text \<open>The lines of \<open>/proc/<pid>/maps\<close> as Linux prints them: whole pages, ascending.\<close>

definition lines_placed :: "maps_line list \<Rightarrow> bool" where
  "lines_placed ps \<longleftrightarrow> list_all (\<lambda>p. placed (ml_start p) (ml_end p - ml_start p)) ps \<and>
     sorted_wrt (\<lambda>p q. unat (ml_end p) \<le> unat (ml_start q)) ps"

definition procfs_maps_laws :: "'w kernel \<Rightarrow> int \<Rightarrow> bool" where
  "procfs_maps_laws k pid \<longleftrightarrow>
     (\<forall>w content err. fst (k (OpenText (proc_path pid ''maps'')) w) = RText content err \<longrightarrow>
        lines_placed (dumped_lines (maps_lines content)))"

lemma answered_lines_placed:
  "answered k (OpenText (proc_path pid ''maps'')) (RText content err) m \<Longrightarrow> procfs_maps_laws k pid \<Longrightarrow>
   lines_placed (dumped_lines (maps_lines content))"
  by (auto simp: answered_def procfs_maps_laws_def)

text \<open>The process \<open>c\<close> continues one whose memory was \<open>mem\<close> and whose mappings were \<open>ps\<close>.\<close>

definition continues :: "(u64 \<Rightarrow> char) \<Rightarrow> maps_line list \<Rightarrow> traced \<Rightarrow> bool" where
  "continues mem ps c \<longleftrightarrow>
     (\<forall>p \<in> set ps. \<forall>x. ml_start p \<le> x \<and> x < ml_end p \<longrightarrow>
        tr_mem c x = mem x \<and> tr_prot c x = perms_to_prot (ml_privileges p))"

lemma restorable_nth:
  assumes "restorable content mem ps md"
  shows "length (sm_vmas md) = length ps"
    "i < length ps \<Longrightarrow> vma_start_address (sm_vmas md ! i) = ml_start (ps ! i)"
    "i < length ps \<Longrightarrow> vma_size (sm_vmas md ! i) = ml_end (ps ! i) - ml_start (ps ! i)"
    "i < length ps \<Longrightarrow> vma_prot (sm_vmas md ! i) = perms_to_prot (ml_privileges (ps ! i))"
proof -
  have cols: "map vma_start_address (sm_vmas md) = map ml_start ps"
    "map vma_size (sm_vmas md) = map (\<lambda>p. ml_end p - ml_start p) ps"
    "map vma_prot (sm_vmas md) = map (perms_to_prot \<circ> ml_privileges) ps"
    using assms by (simp_all add: restorable_def)
  show len: "length (sm_vmas md) = length ps" using cols(1) by (rule map_eq_imp_length_eq)
  show "i < length ps \<Longrightarrow> vma_start_address (sm_vmas md ! i) = ml_start (ps ! i)"
    "i < length ps \<Longrightarrow> vma_size (sm_vmas md ! i) = ml_end (ps ! i) - ml_start (ps ! i)"
    "i < length ps \<Longrightarrow> vma_prot (sm_vmas md ! i) = perms_to_prot (ml_privileges (ps ! i))"
    using cols len by (metis (no_types, lifting) nth_map comp_apply)+
qed

lemma restorable_address_space:
  assumes "restorable content mem ps md" "lines_placed ps" "\<And>p. p \<in> set ps \<Longrightarrow> ml_start p < ml_end p"
  shows "address_space (sm_vmas md)"
proof -
  note nth = restorable_nth[OF assms(1)]
  have "vma_placed (sm_vmas md ! i)" if "i < length ps" for i
    using that assms(2) nth by (simp add: lines_placed_def list_all_length vma_placed_def)
  moreover have "apart (sm_vmas md ! i) (sm_vmas md ! j)" if "i < j" "j < length ps" for i j
  proof -
    have "ml_start (ps ! i) < ml_end (ps ! i)" using assms(3) that by simp
    then have "unat (ml_start (ps ! i)) + unat (ml_end (ps ! i) - ml_start (ps ! i)) = unat (ml_end (ps ! i))"
      by (simp add: unat_sub word_le_nat_alt word_less_nat_alt)
    moreover have "unat (ml_end (ps ! i)) \<le> unat (ml_start (ps ! j))"
      using assms(2) that by (auto simp: lines_placed_def sorted_wrt_iff_nth_less)
    ultimately show ?thesis using that nth by (simp add: apart_def)
  qed
  ultimately show ?thesis
    using nth(1) by (simp add: address_space_def list_all_length sorted_wrt_iff_nth_less)
qed

lemma mem_bytes_eqD:
  assumes "mem_bytes mem a n = mem_bytes mem' a n" "unat (x - a) < n"
  shows "mem x = mem' x"
  using arg_cong[OF assms(1), of "\<lambda>bs. bs ! unat (x - a)"] assms(2) by (simp add: mem_bytes_def)

lemma restored_continues:
  assumes rest: "restorable content mem ps md" and proc: "process_restored content md c c'"
    and placed: "lines_placed ps" and nonempty: "\<And>p. p \<in> set ps \<Longrightarrow> ml_start p < ml_end p"
  shows "continues mem ps c'"
  unfolding continues_def
proof (intro ballI allI impI)
  fix p x assume "p \<in> set ps" and x: "ml_start p \<le> x \<and> x < ml_end p"
  then obtain i where i: "i < length ps" "ps ! i = p" by (auto simp: in_set_conv_nth)
  let ?v = "sm_vmas md ! i"
  note nth = restorable_nth[OF rest]
  have v: "?v \<in> set (sm_vmas md)" using i nth(1) by simp
  have cols: "vma_start_address ?v = ml_start p" "vma_size ?v = ml_end p - ml_start p"
    "vma_prot ?v = perms_to_prot (ml_privileges p)"
    using nth(2-4)[OF i(1)] i(2) by simp_all
  have off: "unat (x - ml_start p) < unat (ml_end p - ml_start p)"
    using x by (simp add: unat_sub word_le_nat_alt word_less_nat_alt diff_less_mono)
  have "mem_bytes (tr_mem c') (ml_start p) (unat (vma_size ?v)) = mem_bytes mem (ml_start p) (unat (vma_size ?v))"
    using proc rest v cols(1) unfolding process_restored_def restorable_def by metis
  then have "tr_mem c' x = mem x" using off cols(2) by (intro mem_bytes_eqD) simp_all
  moreover have "covers ?v x"
    using placed \<open>p \<in> set ps\<close> off
    by (simp add: covers_def cols lines_placed_def list_all_iff within_offset)
  then have "tr_prot c' x = perms_to_prot (ml_privileges p)"
    using proc v cols(3) unfolding process_restored_def by metis
  ultimately show "tr_mem c' x = mem x \<and> tr_prot c' x = perms_to_prot (ml_privileges p)" ..
qed

text \<open>The two halves together.\<close>

theorem checkpoint_restore:
  fixes m :: "'w machine" and r :: "'v machine"
  assumes dumped: "dump k config m = Some (OK (), m')"
    and frozen: "frozen_memory k tmem"
    and laws: "procfs_fd_laws k (cfg_pid config) KSNAP_FD_FORBIDDEN_FLAGS"
    and len: "length (written m') < 2 ^ 63" and serves: "serves_file k' (written m')"
    and maps: "procfs_maps_laws k (cfg_pid config)"
    and restored: "restorer k' junk config' r = (Parent (OK ()), r')" and junk: "\<not> WIFSTOPPED junk"
    and served: "delivers k' config' (written m')"
    and child: "\<And>pid. traced_child k' pid (child pid)"
    and stop: "stops_at_exec k' child (snapshot_header (written m'))"
    and pokes: "pokes_succeed r'"
  obtains m0 :: "'w machine" and r0 :: "'v machine" and s i w content err pid a b where
    "log m0 = log m @ [(Seize (cfg_pid config), s), (Interrupt (cfg_pid config), i), (Waitpid (cfg_pid config), w)]"
    "answered k (OpenText (proc_path (cfg_pid config) ''maps'')) (RText content err) m'"
    "log r' = log r0 @ [(Detach pid, a), (Waitpid pid, b)]"
    "continues (tmem (world m0)) (dumped_lines (maps_lines content)) (child pid (world r0))"
    "(GetRegs (cfg_pid config), RRegs (tr_regs (child pid (world r0)))) \<in> set (log m')"
    "logged_xstate (cfg_pid config) (tr_xstate (child pid (world r0))) (log m')"
proof -
  have one: "\<exists>(m0 :: 'w machine) s i w status md mr' content err.
    log m0 = log m @ [(Seize (cfg_pid config), s), (Interrupt (cfg_pid config), i), (Waitpid (cfg_pid config), w)] \<and>
    as_int w = Inr status \<and> WIFSTOPPED status \<and>
    read_snapshot_metadata k' (written m') mr = (OK md, mr') \<and>
    answered k (OpenText (proc_path (cfg_pid config) ''maps'')) (RText content err) m' \<and>
    (GetRegs (cfg_pid config), RRegs (dh_regs (sm_header md))) \<in> set (log m') \<and>
    logged_xstate (cfg_pid config) (sm_xstate md) (log m') \<and>
    restorable (written m') (tmem (world m0)) (dumped_lines (maps_lines content)) md" for mr :: "'v machine"
    by (rule dump_restorable[OF dumped frozen laws len serves])
  have nonempty: "ml_start p < ml_end p" if "p \<in> set (dumped_lines (maps_lines content))" for p content
    using that maps_lines_wf by (auto simp: dumped_lines_def)
  have space: "address_space (sm_vmas md)" if "read_snapshot_metadata k' (written m') mr = (OK md, mr')" for mr md mr'
    using one[of mr] that answered_lines_placed[OF _ maps] nonempty restorable_address_space
    by (metis Pair_inject rc.inject)
  obtain md mr mr' pid and r1 r0 :: "'v machine" and a b where
    md: "read_snapshot_metadata k' (written m') mr = (OK md, mr')"
    and log: "log r' = log r0 @ [(Detach pid, a), (Waitpid pid, b)]"
    and proc: "process_restored (written m') md (child pid (world r1)) (child pid (world r0))"
    by (rule restorer_restores[OF restored junk served child stop space pokes])
  obtain m0 :: "'w machine" and s i w content err where
    d: "log m0 = log m @ [(Seize (cfg_pid config), s), (Interrupt (cfg_pid config), i), (Waitpid (cfg_pid config), w)]"
      "answered k (OpenText (proc_path (cfg_pid config) ''maps'')) (RText content err) m'"
      "(GetRegs (cfg_pid config), RRegs (dh_regs (sm_header md))) \<in> set (log m')"
      "logged_xstate (cfg_pid config) (sm_xstate md) (log m')"
      "restorable (written m') (tmem (world m0)) (dumped_lines (maps_lines content)) md"
    using one[of mr] md by auto
  have "continues (tmem (world m0)) (dumped_lines (maps_lines content)) (child pid (world r0))"
    by (rule restored_continues[OF d(5) proc answered_lines_placed[OF d(2) maps] nonempty])
  moreover have "tr_regs (child pid (world r0)) = dh_regs (sm_header md)"
    "tr_xstate (child pid (world r0)) = sm_xstate md"
    using proc by (simp_all add: process_restored_def)
  ultimately show ?thesis using that[OF d(1,2) log] d(3,4) by simp
qed

end
