(* ===== verification/Reopened.thy ===== *)
theory Reopened
  imports Reopen
begin

unbundle bit_operations_syntax

text \<open>
  The descriptors the child has when it executes the program. A process has a table from numbers to
  open files, several numbers may share one; an open file has a path, flags and a position.
\<close>

section \<open>Descriptors of a process\<close>

type_synonym fd_table = "int \<Rightarrow> nat option"

record open_file =
  of_path :: string
  of_flags :: u32
  of_position :: u64

text \<open>
  The laws of the calls of POSIX: \<open>open\<close> takes the lowest free number and a fresh open file,
  \<open>lseek\<close> moves the position of the open file, \<open>dup2\<close> shares it, \<open>close\<close> frees the number whatever
  it returns.
\<close>

definition posix_descriptors :: "'w kernel \<Rightarrow> ('w \<Rightarrow> fd_table) \<Rightarrow> ('w \<Rightarrow> nat \<Rightarrow> open_file) \<Rightarrow> bool" where
  "posix_descriptors k tab files \<longleftrightarrow>
     (\<forall>w n. as_unit (fst (k (CloseRange n) w)) = Inr () \<longrightarrow>
        tab (snd (k (CloseRange n) w)) = (\<lambda>j. if j < int n then tab w j else None)) \<and>
     (\<forall>w path flags n. fst (k (OpenFile path flags) w) = RInt n \<longrightarrow>
        0 \<le> n \<and> tab w n = None \<and> (\<forall>j. 0 \<le> j \<and> j < n \<longrightarrow> tab w j \<noteq> None) \<and>
        (\<exists>i. i \<notin> ran (tab w) \<and> tab (snd (k (OpenFile path flags) w)) = (tab w)(n \<mapsto> i) \<and>
           files (snd (k (OpenFile path flags) w)) =
             (files w)(i := \<lparr>of_path = path, of_flags = flags, of_position = 0\<rparr>))) \<and>
     (\<forall>w n i pos. as_unit (fst (k (Lseek n pos) w)) = Inr () \<longrightarrow> tab w n = Some i \<longrightarrow>
        tab (snd (k (Lseek n pos) w)) = tab w \<and>
        files (snd (k (Lseek n pos) w)) = (files w)(i := (files w i)\<lparr>of_position := pos\<rparr>)) \<and>
     (\<forall>w a b. as_unit (fst (k (Dup2 a b) w)) = Inr () \<longrightarrow> tab w a \<noteq> None \<longrightarrow>
        tab (snd (k (Dup2 a b) w)) = (tab w)(b := tab w a) \<and> files (snd (k (Dup2 a b) w)) = files w) \<and>
     (\<forall>w n. tab (snd (k (CloseFd n) w)) = (tab w)(n := None) \<and> files (snd (k (CloseFd n) w)) = files w)"

text \<open>The open file an entry of the table asks for.\<close>

definition file_of_entry :: "bytes \<Rightarrow> fd_descriptor \<Rightarrow> open_file" where
  "file_of_entry pool d =
     \<lparr>of_path = c_str (drop (unat (fdd_path_offset d)) pool), of_flags = fdd_flags d AND NOT O_CLOEXEC,
      of_position = (if fdd_flags d AND O_PATH \<noteq> 0 then 0 else fdd_position d)\<rparr>"

section \<open>One entry\<close>

lemma open_snapshot_fd_dup:
  assumes run: "open_snapshot_fd k pool d m = (OK (), m')" and laws: "posix_descriptors k tab files"
    and "fdd_dup_of d \<noteq> -1" "tab (world m) (sint (fdd_dup_of d)) \<noteq> None"
  shows "tab (world m') = (tab (world m))(fd_number d := tab (world m) (sint (fdd_dup_of d))) \<and>
    files (world m') = files (world m)"
proof -
  have "sys_unit k (Dup2 (sint (fdd_dup_of d)) (sint (fdd_fd d))) m = (Inr (), m')"
    using run assms(3) by (auto simp: open_snapshot_fd_def split: prod.splits sum.splits)
  then show ?thesis
    using laws assms(4) by (auto simp: posix_descriptors_def typed_turn fd_number_def)
qed

lemma sys_int_RInt: "sys_int k c m = (Inr n, m') \<Longrightarrow> fst (k c (world m)) = RInt n \<and> world m' = snd (k c (world m))"
  by (cases "fst (k c (world m))") (auto simp: typed_turn)

lemma posix_open:
  assumes "sys_int k (OpenFile path flags) m = (Inr n, m1)" "posix_descriptors k tab files"
  obtains i where "tab (world m) n = None" "i \<notin> ran (tab (world m))" "tab (world m1) = (tab (world m))(n \<mapsto> i)"
    "files (world m1) = (files (world m))(i := \<lparr>of_path = path, of_flags = flags, of_position = 0\<rparr>)"
proof -
  have "\<forall>w path flags n. fst (k (OpenFile path flags) w) = RInt n \<longrightarrow>
        0 \<le> n \<and> tab w n = None \<and> (\<forall>j. 0 \<le> j \<and> j < n \<longrightarrow> tab w j \<noteq> None) \<and>
        (\<exists>i. i \<notin> ran (tab w) \<and> tab (snd (k (OpenFile path flags) w)) = (tab w)(n \<mapsto> i) \<and>
           files (snd (k (OpenFile path flags) w)) =
             (files w)(i := \<lparr>of_path = path, of_flags = flags, of_position = 0\<rparr>))"
    using assms(2) unfolding posix_descriptors_def by blast
  from this[rule_format, OF conjunct1[OF sys_int_RInt[OF assms(1)]]] that sys_int_RInt[OF assms(1)]
  show ?thesis by auto
qed

lemma posix_close:
  assumes "posix_descriptors k tab files" "m' = snd (sys_unit k (CloseFd n) m)"
  shows "tab (world m') = (tab (world m))(n := None)" "files (world m') = files (world m)"
proof -
  have "world m' = snd (k (CloseFd n) (world m))"
    using assms(2) by (simp add: sys_unit_def call_def split: prod.split)
  then show "tab (world m') = (tab (world m))(n := None)" "files (world m') = files (world m)"
    using assms(1) by (simp_all add: posix_descriptors_def)
qed

text \<open>The number is free before; the temporary one is free again afterwards.\<close>

lemma open_snapshot_fd_open:
  assumes run: "open_snapshot_fd k pool d m = (OK (), m')" and laws: "posix_descriptors k tab files"
    and "fdd_dup_of d = -1" and free: "tab (world m) (fd_number d) = None"
  shows "\<exists>i. i \<notin> ran (tab (world m)) \<and> tab (world m') = (tab (world m))(fd_number d \<mapsto> i) \<and>
    files (world m') = (files (world m))(i := file_of_entry pool d)"
proof -
  let ?path = "c_str (drop (unat (fdd_path_offset d)) pool)" and ?flags = "fdd_flags d AND NOT O_CLOEXEC"
  obtain n m1 where o: "sys_int k (OpenFile ?path ?flags) m = (Inr n, m1)"
    using run assms(3) by (auto simp: open_snapshot_fd_def split: prod.splits sum.splits)
  obtain i where
    i: "tab (world m) n = None" "i \<notin> ran (tab (world m))" "tab (world m1) = (tab (world m))(n \<mapsto> i)"
      "files (world m1) = (files (world m))(i := \<lparr>of_path = ?path, of_flags = ?flags, of_position = 0\<rparr>)"
    by (rule posix_open[OF o laws])
  obtain s m2 where s: "(if fdd_flags d AND O_PATH \<noteq> 0 then (Inr (), m1)
      else sys_unit k (Lseek n (fdd_position d)) m1) = (s, m2)" by fastforce
  have s_ok: "s = Inr ()"
    using run assms(3) o s by (cases s) (auto simp: open_snapshot_fd_def)
  have run2: "(if n = sint (fdd_fd d) then (OK (), m2)
      else (case sys_unit k (Dup2 n (sint (fdd_fd d))) m2 of
          (Inl e, m3) \<Rightarrow> (ERROR, snd (sys_unit k (CloseFd n) m3))
        | (Inr _, m3) \<Rightarrow> (OK (), snd (sys_unit k (CloseFd n) m3)))) = (OK (), m')"
    using run assms(3) o s s_ok by (simp add: open_snapshot_fd_def)
  have m2: "tab (world m2) = (tab (world m))(n \<mapsto> i)" "files (world m2) = (files (world m))(i := file_of_entry pool d)"
  proof -
    have "tab (world m2) = tab (world m1) \<and> files (world m2) = (files (world m))(i := file_of_entry pool d)"
    proof (cases "fdd_flags d AND O_PATH = 0")
      case True
      then have "sys_unit k (Lseek n (fdd_position d)) m1 = (Inr (), m2)" using s s_ok by simp
      moreover have "tab (world m1) n = Some i" using i(3) by simp
      ultimately have "tab (world m2) = tab (world m1)"
        "files (world m2) = (files (world m1))(i := (files (world m1) i)\<lparr>of_position := fdd_position d\<rparr>)"
        using laws by (auto simp: posix_descriptors_def typed_turn)
      then show ?thesis using i(4) True by (simp add: file_of_entry_def)
    qed (use s i(4) in \<open>simp add: file_of_entry_def\<close>)
    then show "tab (world m2) = (tab (world m))(n \<mapsto> i)" "files (world m2) = (files (world m))(i := file_of_entry pool d)"
      using i(3) by simp_all
  qed
  show ?thesis
  proof (cases "n = fd_number d")
    case True
    then have "m' = m2" using run2 by (simp add: fd_number_def)
    then show ?thesis using i(2) m2 True by auto
  next
    case False
    then obtain m3 where dup: "sys_unit k (Dup2 n (fd_number d)) m2 = (Inr (), m3)"
      and m': "m' = snd (sys_unit k (CloseFd n) m3)"
      using run2 by (auto simp: fd_number_def split: prod.splits sum.splits)
    have "tab (world m3) = (tab (world m2))(fd_number d := tab (world m2) n)" "files (world m3) = files (world m2)"
      using laws dup m2(1) by (auto simp: posix_descriptors_def typed_turn)
    moreover have "tab (world m') = (tab (world m3))(n := None)" "files (world m') = files (world m3)"
      using posix_close[OF laws m'] by simp_all
    ultimately have "tab (world m') = (tab (world m))(fd_number d \<mapsto> i)" "files (world m') = files (world m2)"
      using m2 i(1) False by (auto simp: fun_eq_iff)
    then show ?thesis using i(2) m2(2) by auto
  qed
qed

section \<open>The whole table\<close>

text \<open>
  Against the table \<open>t0\<close> before: standard input, output and error are as they were; every other
  number is free unless the snapshot has it; an entry has the file it asks for, a copy shares the
  one of its original, and two entries that are not copies do not share one.
\<close>

definition fds_reopened ::
    "bytes \<Rightarrow> fd_descriptor list \<Rightarrow> fd_table \<Rightarrow> fd_table \<Rightarrow> (nat \<Rightarrow> open_file) \<Rightarrow> bool" where
  "fds_reopened pool fds t0 t fs \<longleftrightarrow>
     (\<forall>n. n \<notin> fd_number ` set fds \<longrightarrow> t n = (if n < 3 then t0 n else None)) \<and>
     (\<forall>d \<in> set fds. \<exists>i. t (fd_number d) = Some i \<and> (fdd_dup_of d = -1 \<longrightarrow> fs i = file_of_entry pool d)) \<and>
     (\<forall>d \<in> set fds. fdd_dup_of d \<noteq> -1 \<longrightarrow> t (fd_number d) = t (sint (fdd_dup_of d))) \<and>
     (\<forall>d \<in> set fds. \<forall>e \<in> set fds. fdd_dup_of d = -1 \<longrightarrow> fdd_dup_of e = -1 \<longrightarrow>
        t (fd_number d) = t (fd_number e) \<longrightarrow> d = e)"

lemma fds_reopened_open:
  assumes inv: "fds_reopened pool fds t0 t fs" and new: "fd_number d \<notin> fd_number ` set fds" "2 < fd_number d"
    and dups: "\<forall>e \<in> set fds. fdd_dup_of e \<noteq> -1 \<longrightarrow> fdd_dup_of e \<in> fdd_fd ` set fds"
    and i: "i \<notin> ran t" and d: "fdd_dup_of d = -1"
  shows "fds_reopened pool (fds @ [d]) t0 (t(fd_number d \<mapsto> i)) (fs(i := file_of_entry pool d))"
proof -
  have other: "fd_number e \<noteq> fd_number d" if "e \<in> set fds" for e using that new(1) by (metis imageI)
  have used: "t (fd_number e) \<noteq> Some i" for e using i by (auto intro: ranI)
  have orig: "sint (fdd_dup_of e) \<noteq> fd_number d" if "e \<in> set fds" "fdd_dup_of e \<noteq> -1" for e
    using that dups other by (auto simp: fd_number_def)
  show ?thesis
    using inv new other used orig d unfolding fds_reopened_def by (auto simp: fun_upd_def split: if_splits) (metis option.inject)+
qed

lemma fds_reopened_dup:
  assumes inv: "fds_reopened pool fds t0 t fs" and new: "fd_number d \<notin> fd_number ` set fds" "2 < fd_number d"
    and dups: "\<forall>e \<in> set fds. fdd_dup_of e \<noteq> -1 \<longrightarrow> fdd_dup_of e \<in> fdd_fd ` set fds"
    and d: "fdd_dup_of d \<noteq> -1" "fdd_dup_of d \<in> fdd_fd ` set fds"
  shows "fds_reopened pool (fds @ [d]) t0 (t(fd_number d := t (sint (fdd_dup_of d)))) fs"
proof -
  have other: "fd_number e \<noteq> fd_number d" if "e \<in> set fds" for e using that new(1) by (metis imageI)
  have orig: "sint (fdd_dup_of e) \<noteq> fd_number d" if "e \<in> set fds" "fdd_dup_of e \<noteq> -1" for e
    using that dups other by (auto simp: fd_number_def)
  have self: "sint (fdd_dup_of d) \<noteq> fd_number d" using d other by (auto simp: fd_number_def)
  obtain j where "t (sint (fdd_dup_of d)) = Some j"
    using inv d(2) by (auto simp: fds_reopened_def fd_number_def)
  then show ?thesis
    using inv new other orig self d unfolding fds_reopened_def by (auto simp: fun_upd_def split: if_splits)
qed

lemma open_entries_reopens:
  assumes "open_entries k pool rest m = (OK (), m')" and laws: "posix_descriptors k tab files"
    and "fd_table_valid pool (front @ rest)" "fds_reopened pool front t0 (tab (world m)) (files (world m))"
  shows "fds_reopened pool (front @ rest) t0 (tab (world m')) (files (world m'))"
  using assms(1,3,4)
proof (induction rest arbitrary: front m)
  case (Cons d rest)
  obtain m1 where one: "open_snapshot_fd k pool d m = (OK (), m1)"
    and rest: "open_entries k pool rest m1 = (OK (), m')"
    using Cons.prems(1) by (auto split: prod.splits)
  have valid: "fd_table_valid pool (front @ [d])"
    using fd_table_valid_append[of pool "front @ [d]" rest] Cons.prems(2) by simp
  then have front: "fd_table_valid pool front" by (simp add: fd_table_valid_snoc)
  have asc: "ascending (front @ [d])" using valid by (simp add: fd_table_valid_def)
  have new: "fd_number d \<notin> fd_number ` set front" using asc by (auto simp: sorted_wrt_append)
  have big: "2 < fd_number d" using valid by (simp add: fd_table_valid_snoc fd_entry_valid_def)
  have dups: "\<forall>e \<in> set front. fdd_dup_of e \<noteq> -1 \<longrightarrow> fdd_dup_of e \<in> fdd_fd ` set front"
  proof (intro ballI impI)
    fix e assume "e \<in> set front" "fdd_dup_of e \<noteq> -1"
    then obtain i where "i < length front" "fdd_dup_of (front ! i) \<in> fdd_fd ` set (take i front)" "front ! i = e"
      using front by (auto simp: fd_table_valid_def in_set_conv_nth)
    then show "fdd_dup_of e \<in> fdd_fd ` set front" using set_take_subset[of i front] by auto
  qed
  have "fds_reopened pool (front @ [d]) t0 (tab (world m1)) (files (world m1))"
  proof (cases "fdd_dup_of d = -1")
    case True
    have "tab (world m) (fd_number d) = None"
      using Cons.prems(3) new big by (simp add: fds_reopened_def)
    then obtain i where "i \<notin> ran (tab (world m))" "tab (world m1) = (tab (world m))(fd_number d \<mapsto> i)"
      "files (world m1) = (files (world m))(i := file_of_entry pool d)"
      using open_snapshot_fd_open[OF one laws True] by blast
    then show ?thesis using fds_reopened_open[OF Cons.prems(3) new big dups _ True] by simp
  next
    case False
    then have of: "fdd_dup_of d \<in> fdd_fd ` set front" using valid by (simp add: fd_table_valid_snoc)
    then have "tab (world m) (sint (fdd_dup_of d)) \<noteq> None"
      using Cons.prems(3) by (auto simp: fds_reopened_def fd_number_def)
    from open_snapshot_fd_dup[OF one laws False this] show ?thesis
      using fds_reopened_dup[OF Cons.prems(3) new big dups False of] by simp
  qed
  then show ?case using Cons.IH[OF rest, of "front @ [d]"] Cons.prems(2) by simp
qed simp

lemma open_snapshot_fds_reopens:
  assumes run: "open_snapshot_fds k fds pool m = (OK (), m')" and laws: "posix_descriptors k tab files"
    and valid: "fd_table_valid pool fds"
  shows "fds_reopened pool fds (tab (world m)) (tab (world m')) (files (world m'))"
proof -
  obtain m1 where c: "sys_unit k (CloseRange 3) m = (Inr (), m1)" and o: "open_entries k pool fds m1 = (OK (), m')"
    using run by (auto simp: open_snapshot_fds_def split: prod.splits sum.splits)
  have "tab (world m1) = (\<lambda>j. if j < 3 then tab (world m) j else None)"
    using laws c by (auto simp: posix_descriptors_def typed_turn)
  then have "fds_reopened pool [] (tab (world m)) (tab (world m1)) (files (world m1))"
    by (simp add: fds_reopened_def)
  from open_entries_reopens[OF o laws _ this] valid show ?thesis by simp
qed

end
