(* ===== verification/KernelMaps.thy ===== *)
theory KernelMaps
  imports Restore
begin

text \<open>
  \<open>restore_kernel_maps\<close> of \<open>src/restorer.c\<close>: which moves its check lets through.
\<close>

section \<open>The name\<close>

lemma drop_concat_fields: "drop (sum_list (take n (map length fs))) (concat fs) = concat (drop n fs)"
proof -
  have "length (concat (take n fs)) = sum_list (take n (map length fs))"
    by (simp add: length_concat take_map)
  then show ?thesis
    by (metis append_eq_conv_conj append_take_drop_id concat_append)
qed

lemma drop_kernel_maps:
  "list_all kernel_map_wf kms \<Longrightarrow> i \<le> length kms \<Longrightarrow>
   drop (i * kernel_map_width) (encode_items encode_kernel_map kms) = encode_items encode_kernel_map (drop i kms)"
proof (induction i arbitrary: kms)
  case (Suc i)
  then obtain km rest where kms: "kms = km # rest" by (cases kms) auto
  with Suc show ?case
    by (simp add: encode_items_def kernel_map_codec.enc_length)
qed simp

text \<open>A name that is terminated in its array is read to its terminator.\<close>

lemma kernel_map_name_terminated:
  assumes wf: "header_wf header" and i: "i < KSNAP_MAX_KERNEL_MAPS"
    and nul: "NUL \<in> set (km_name (dh_kernel_maps header ! i))"
  shows "kernel_map_name header i = c_str (km_name (dh_kernel_maps header ! i))"
proof -
  let ?kms = "dh_kernel_maps header"
  have len: "i < length ?kms" and kms: "list_all kernel_map_wf ?kms" using wf i by (auto simp: header_wf_def)
  have split: "encode_items encode_kernel_map (drop i ?kms) =
      encode_kernel_map (?kms ! i) @ encode_items encode_kernel_map (drop (Suc i) ?kms)"
    using len by (simp add: encode_items_def flip: Cons_nth_drop_Suc)
  have "drop (sum_list (take 10 header_layout)) (encode_header header) = concat (drop 10 (header_fields header))"
    using drop_concat_fields[of 10 "header_fields header"] header_codec.field_lengths[OF wf]
    by (simp add: encode_header_def)
  also have "\<dots> = encode_items encode_kernel_map ?kms @ concat (drop 11 (header_fields header))"
    by (simp add: header_fields_def)
  finally have tail: "drop (sum_list (take 10 header_layout)) (encode_header header) =
      encode_items encode_kernel_map ?kms @ concat (drop 11 (header_fields header))" .
  have short: "i * kernel_map_width \<le> length (encode_items encode_kernel_map ?kms)"
    using len kernel_map_codec.length_encode_items[OF kms] by simp
  have "drop (sum_list (take 10 header_layout) + i * kernel_map_width) (encode_header header) =
      drop (i * kernel_map_width) (drop (sum_list (take 10 header_layout)) (encode_header header))"
    by (simp add: add.commute)
  also have "\<dots> = encode_items encode_kernel_map (drop i ?kms) @ concat (drop 11 (header_fields header))"
    unfolding tail using short drop_kernel_maps[OF kms, of i] len by simp
  finally have "drop (sum_list (take 10 header_layout) + i * kernel_map_width) (encode_header header) =
      encode_kernel_map (?kms ! i) @ encode_items encode_kernel_map (drop (Suc i) ?kms) @ concat (drop 11 (header_fields header))"
    by (simp add: split)
  from arg_cong[OF this, of "drop 16"] obtain rest where
    "drop (sum_list (take 10 header_layout) + i * kernel_map_width + 16) (encode_header header) = km_name (?kms ! i) @ rest"
    by (simp add: encode_kernel_map_def kernel_map_fields_def add.commute add.left_commute)
  moreover have "takeWhile (\<lambda>c. c \<noteq> NUL) (xs @ ys) = takeWhile (\<lambda>c. c \<noteq> NUL) xs" if "NUL \<in> set xs" for xs ys
    using that by (rule takeWhile_append1) simp
  ultimately show ?thesis using nul by (simp add: kernel_map_name_def c_str_def)
qed

section \<open>The moves\<close>

text \<open>Where the child has the mapping, as long as none is moved.\<close>

definition child_has_maps :: "'w kernel \<Rightarrow> int \<Rightarrow> ksnap_dump_header \<Rightarrow> (nat \<Rightarrow> u64 \<times> u64) \<Rightarrow> bool" where
  "child_has_maps k pid header place \<longleftrightarrow>
     (\<forall>i < unat (dh_kernel_map_count header). \<forall>m.
        fst (find_named_map k pid (kernel_map_name header i) m) = OK (place i))"

lemma child_has_mapsD:
  assumes "child_has_maps k pid header place" "i < unat (dh_kernel_map_count header)"
  obtains m' where "find_named_map k pid (kernel_map_name header i) m = (OK (place i), m')"
  using assms by (metis child_has_maps_def prod.collapse)

definition inside :: "u64 \<Rightarrow> u64 \<Rightarrow> u64 \<Rightarrow> u64 \<Rightarrow> bool" where
  "inside lo hi a n \<longleftrightarrow> lo \<le> a \<and> a + n \<le> hi"

definition widens :: "map_ranges \<Rightarrow> map_ranges \<Rightarrow> bool" where
  "widens r r' \<longleftrightarrow> child_lowest r' \<le> child_lowest r \<and> child_highest r \<le> child_highest r' \<and>
     wanted_lowest r' \<le> wanted_lowest r \<and> wanted_highest r \<le> wanted_highest r'"

lemma widen_ranges_widens:
  "widens r (widen_ranges s n w r)"
  "inside (child_lowest (widen_ranges s n w r)) (child_highest (widen_ranges s n w r)) s n"
  "inside (wanted_lowest (widen_ranges s n w r)) (wanted_highest (widen_ranges s n w r)) (km_start_address w) (km_size w)"
  by (auto simp: widens_def widen_ranges_def inside_def)

lemma inside_widens:
  "widens r r' \<Longrightarrow> inside (child_lowest r) (child_highest r) a n \<Longrightarrow> inside (child_lowest r') (child_highest r') a n"
  "widens r r' \<Longrightarrow> inside (wanted_lowest r) (wanted_highest r) a n \<Longrightarrow> inside (wanted_lowest r') (wanted_highest r') a n"
  by (auto simp: widens_def inside_def)

lemma widens_trans: "widens r r' \<Longrightarrow> widens r' r'' \<Longrightarrow> widens r r''"
  by (auto simp: widens_def)

text \<open>The two ranges hold all places and all targets; the sizes agree.\<close>

definition measured :: "ksnap_dump_header \<Rightarrow> (nat \<Rightarrow> u64 \<times> u64) \<Rightarrow> map_ranges \<Rightarrow> nat \<Rightarrow> bool" where
  "measured header place r i \<longleftrightarrow> snd (place i) = km_size (dh_kernel_maps header ! i) \<and>
     inside (child_lowest r) (child_highest r) (fst (place i)) (snd (place i)) \<and>
     inside (wanted_lowest r) (wanted_highest r) (km_start_address (dh_kernel_maps header ! i))
       (km_size (dh_kernel_maps header ! i))"

lemma measure_kernel_maps_ranges:
  assumes "measure_kernel_maps k pid header is r m = (OK r', m')" "child_has_maps k pid header place"
    and "set is \<subseteq> {..<unat (dh_kernel_map_count header)}"
  shows "widens r r' \<and> (\<forall>i \<in> set is. measured header place r' i)"
  using assms(1,3)
proof (induction "is" arbitrary: r m)
  case (Cons i rest)
  let ?w = "dh_kernel_maps header ! i" and ?r = "widen_ranges (fst (place i)) (snd (place i)) (dh_kernel_maps header ! i) r"
  have "i < unat (dh_kernel_map_count header)" using Cons.prems(2) by simp
  then obtain m1 where find: "find_named_map k pid (kernel_map_name header i) m = (OK (place i), m1)"
    by (rule child_has_mapsD[OF assms(2)])
  then have sz: "snd (place i) = km_size ?w" and rest: "measure_kernel_maps k pid header rest ?r m1 = (OK r', m')"
    using Cons.prems(1) by (auto simp: case_prod_beta split: if_splits)
  have IH: "widens ?r r'" "\<forall>i \<in> set rest. measured header place r' i"
    using Cons.IH[OF rest] Cons.prems(2) by auto
  note step = widen_ranges_widens[where r = r and s = "fst (place i)" and n = "snd (place i)" and w = ?w]
  have "measured header place r' i"
    unfolding measured_def
    using sz inside_widens(1)[OF IH(1) step(2)] inside_widens(2)[OF IH(1) step(3)] by blast
  then show ?case using IH(2) widens_trans[OF step(1) IH(1)] by simp
qed (simp add: widens_def)

text \<open>Ranges that overlap make the whole ranges overlap.\<close>

lemma ranges_overlapI:
  assumes "inside (child_lowest r) (child_highest r) a n" "inside (wanted_lowest r) (wanted_highest r) b n'"
    and "a < b + n'" "b < a + n"
  shows "ranges_overlap r"
  using assms unfolding ranges_overlap_def inside_def by auto

lemma restore_kernel_maps_cases:
  assumes "child_has_maps k pid header place" "0 < unat (dh_kernel_map_count header)"
  obtains (refused) m' where "restore_kernel_maps k pid header m = (ERROR, m')"
    | (moved) r m1 where "measure_kernel_maps k pid header [0..<unat (dh_kernel_map_count header)] empty_ranges m = (OK r, m1)"
      "\<not> ranges_overlap r"
      "restore_kernel_maps k pid header m = move_kernel_maps k pid header [0..<unat (dh_kernel_map_count header)] m1"
proof -
  obtain q m1 where q: "measure_kernel_maps k pid header [0..<unat (dh_kernel_map_count header)] empty_ranges m = (q, m1)"
    by fastforce
  show ?thesis
    using assms(2) q moved refused
    by (cases q; cases "ranges_overlap (case q of OK r \<Rightarrow> r)") (auto simp: restore_kernel_maps_def Let_def)
qed

text \<open>A move that is made never has its target over a mapping that is still to be moved.\<close>

lemma restore_kernel_maps_apart:
  assumes run: "restore_kernel_maps k pid header m = (OK (), m')" and has: "child_has_maps k pid header place"
    and i: "i < unat (dh_kernel_map_count header)" and j: "j < unat (dh_kernel_map_count header)"
  shows "snd (place i) = km_size (dh_kernel_maps header ! i) \<and>
    (fst (place i) \<ge> km_start_address (dh_kernel_maps header ! j) + km_size (dh_kernel_maps header ! j) \<or>
     km_start_address (dh_kernel_maps header ! j) \<ge> fst (place i) + snd (place i))"
proof -
  have "0 < unat (dh_kernel_map_count header)" using i by simp
  from has this obtain r m1 where
    r: "measure_kernel_maps k pid header [0..<unat (dh_kernel_map_count header)] empty_ranges m = (OK r, m1)"
    "\<not> ranges_overlap r"
    by (rule restore_kernel_maps_cases[where m = m]) (use run in auto)
  have "measured header place r i" "measured header place r j"
    using measure_kernel_maps_ranges[OF r(1) has] i j by (simp_all add: subset_eq)
  then show ?thesis
    using r(2) ranges_overlapI[of r "fst (place i)" "snd (place i)" "km_start_address (dh_kernel_maps header ! j)"]
    unfolding measured_def by (meson not_le)
qed

text \<open>But a mapping that already is where it has to go is an overlap too.\<close>

lemma restore_kernel_maps_in_place:
  assumes has: "child_has_maps k pid header place" and i: "i < unat (dh_kernel_map_count header)"
    and here: "place i = (km_start_address (dh_kernel_maps header ! i), km_size (dh_kernel_maps header ! i))"
    and nonempty: "km_start_address (dh_kernel_maps header ! i) <
      km_start_address (dh_kernel_maps header ! i) + km_size (dh_kernel_maps header ! i)"
  shows "fst (restore_kernel_maps k pid header m) = ERROR"
proof (rule ccontr)
  assume "fst (restore_kernel_maps k pid header m) \<noteq> ERROR"
  then obtain m' where "restore_kernel_maps k pid header m = (OK (), m')"
    by (cases "restore_kernel_maps k pid header m") (auto simp: rc_not_ERROR)
  from restore_kernel_maps_apart[OF this has i i] here nonempty show False by auto
qed

end
