(* ===== verification/SampleRestore.thy ===== *)
theory SampleRestore
  imports Sample Resume Reopened KernelMaps
begin

text \<open>
  Kernels for the restorer. In the first the state is the traced child itself: \<open>ptrace\<close> and
  \<open>/proc/<pid>/mem\<close> act on it, and a single step runs the system call in its registers. The second
  keeps the descriptors of a process.
\<close>

section \<open>A child under ptrace\<close>

definition run_syscall :: "traced \<Rightarrow> traced" where
  "run_syscall c =
     (let i = injection_of (tr_regs c) in
      c\<lparr>tr_regs := (tr_regs c)\<lparr>reg_rax := 0\<rparr>,
        tr_prot := (\<lambda>x. if inj_number i \<in> {SYS_mmap, SYS_mprotect} \<and> within (inj_arg1 i) (inj_arg2 i) x
                        then ucast (inj_arg3 i) else tr_prot c x),
        tr_cloexec := (if inj_number i = SYS_fcntl
                       then insert (sint (ucast (inj_arg1 i) :: u32)) (tr_cloexec c) else tr_cloexec c)\<rparr>)"

text \<open>The child when its program starts: executable everywhere, about to run at \<open>0x1800\<close>, in the
  mapping of the snapshot.\<close>

definition entry_child :: traced where
  "entry_child = \<lparr>tr_regs = sample_regs\<lparr>reg_rip := 0x1800\<rparr>, tr_xstate = [], tr_mem = (\<lambda>_. CHR 0x90),
     tr_prot = (\<lambda>_. 5), tr_cloexec = {}\<rparr>"

definition vdso_maps :: bytes where
  "vdso_maps = ''7000-8000 r-xp 00000000 00:00 0 [vdso]'' @ [CHR 0x0A]"

definition child_kernel :: "traced kernel" where
  "child_kernel req c =
     (case req of
        OpenSnapshot path \<Rightarrow> (RText sample_file False, c)
      | OpenText path \<Rightarrow> (RText vdso_maps False, c)
      | Fstat \<Rightarrow> (RInt 9312, c)
      | Fork \<Rightarrow> (RInt 43, entry_child)
      | Waitpid p \<Rightarrow> (RInt 0x137F, c)
      | GetRegs p \<Rightarrow> (RRegs (tr_regs c), c)
      | SetRegs p regs \<Rightarrow> (RInt 0, c\<lparr>tr_regs := regs\<rparr>)
      | SetXstate p x \<Rightarrow> (RInt 0, c\<lparr>tr_xstate := x\<rparr>)
      | PeekText p a \<Rightarrow> (RWord (dec64 (mem_bytes (tr_mem c) a 8)), c)
      | PokeText p a x \<Rightarrow> (RInt 0, c\<lparr>tr_mem := poke (tr_mem c) a (enc64 x)\<rparr>)
      | SingleStep p \<Rightarrow> (RInt 0, run_syscall c)
      | Pwrite a b \<Rightarrow> (RInt (int (length b)), c\<lparr>tr_mem := poke (tr_mem c) a b\<rparr>)
      | _ \<Rightarrow> (RInt 0, c))"

lemmas child_calls = sys_defs sys_alloc_def call_def child_kernel_def

lemma run_syscall_performs: "performs (injection_of (tr_regs c)) c (run_syscall c)"
  by (auto simp: performs_def run_syscall_def Let_def reprotects_def touches_def)

lemma child_kernel_laws: "traced_child child_kernel pid id"
proof -
  have "inspects c \<Longrightarrow> snd (child_kernel c w) = w" for c w
    by (cases c) (simp_all add: child_kernel_def)
  then show ?thesis
    using run_syscall_performs
    by (auto simp: traced_child_def child_kernel_def num_enc_dec Let_def)
qed

lemma child_kernel_delivers: "delivers child_kernel config sample_file"
  by (auto simp: delivers_def child_kernel_def)

lemma child_kernel_serves: "serves_file child_kernel sample_file"
  by (simp add: serves_file_def child_kernel_def length_sample_file)

lemma child_kernel_metadata:
  "\<exists>m'. read_snapshot_metadata child_kernel sample_file m =
     (OK (layout_metadata sample_regs (zeros 576) ''/bin/x'' [sample_vma] [] empty_pool []), m')"
  by (rule layout_accepted[OF sample_storable _ child_kernel_serves sample_file_def])
    (simp_all add: length_sample_file payload_size_def sample_vma_size)

definition sample_metadata :: snapshot_metadata where
  "sample_metadata = layout_metadata sample_regs (zeros 576) ''/bin/x'' [sample_vma] [] empty_pool []"

lemma sample_metadata_fields:
  "sm_vmas sample_metadata = [sample_vma\<lparr>vma_data_offset := dh_data_offset (sm_header sample_metadata)\<rparr>]"
  "sm_fds sample_metadata = []" "dh_kernel_map_count (sm_header sample_metadata) = 0"
  "unat (dh_data_offset (sm_header sample_metadata)) = 5216"
  using make_header_offsets(11)[OF sample_storable, of sample_regs]
  by (simp_all add: sample_metadata_def layout_metadata_def Let_def make_header_def metadata_size_def
      widths empty_pool_def)

lemma sample_vma_fields:
  "vma_start_address sample_vma = 0x1000" "vma_size sample_vma = 0x1000" "vma_prot sample_vma = 3"
  by (simp_all add: sample_vma_def vma_of_line_def sample_line_def perms_to_prot_def
      PROT_READ_def PROT_WRITE_def PROT_EXEC_def char_at_def)

lemma sample_space: "address_space (sm_vmas sample_metadata)"
  by (simp add: sample_metadata_fields address_space_def vma_placed_def placed_def sample_vma_fields)

text \<open>A table with two mappings, the first of which holds the injection site \<open>0x1800\<close>.\<close>

definition code_and_data :: "vma_descriptor list" where
  "code_and_data =
     [sample_vma\<lparr>vma_prot := PROT_READ OR PROT_EXEC\<rparr>, sample_vma\<lparr>vma_start_address := 0x3000\<rparr>]"

lemma code_and_data_space: "address_space code_and_data"
  by (simp add: code_and_data_def address_space_def vma_placed_def placed_def apart_def sample_vma_fields)

lemma code_and_data_set: "set code_and_data \<noteq> {}" "v \<in> set code_and_data \<Longrightarrow> vma_prot v \<noteq> PROT_ALL"
  by (auto simp: code_and_data_def PROT_ALL_def PROT_READ_def PROT_EXEC_def sample_vma_fields)

lemma child_kernel_stops:
  "dh_kernel_map_count header = 0 \<Longrightarrow> stops_at_exec child_kernel (\<lambda>_. id) header"
  by (auto simp: stops_at_exec_def kernel_maps_clear_def executable_at_def child_calls entry_child_def
      PROT_EXEC_def Let_def)

lemma sample_header: "dh_kernel_map_count (snapshot_header sample_file) = 0"
proof -
  obtain m' where "read_snapshot_metadata child_kernel sample_file \<lparr>world = entry_child, log = []\<rparr> =
      (OK sample_metadata, m')"
    using child_kernel_metadata unfolding sample_metadata_def by blast
  then show ?thesis
    using read_snapshot_metadata_header sample_metadata_fields(3) by metis
qed

subsection \<open>The restore of its process\<close>

lemma child_inject: "\<exists>m'. inject_checked child_kernel pid i m = (OK (), m')"
  by (simp add: inject_checked_def inject_syscall_def child_calls run_syscall_def Let_def syscall_failed_def)

lemma child_inject_all: "\<exists>m'. inject_all child_kernel pid is m = (OK (), m')"
proof (induction "is" arbitrary: m)
  case (Cons i rest)
  obtain m1 where "inject_checked child_kernel pid i m = (OK (), m1)" using child_inject by blast
  then show ?case using Cons.IH[of m1] by simp
qed simp

lemma child_restore_vmas:
  "\<exists>m'. restore_vmas child_kernel pid sample_file (sm_vmas sample_metadata) m = (OK (), m')"
proof -
  let ?v = "sample_vma\<lparr>vma_data_offset := dh_data_offset (sm_header sample_metadata)\<rparr>"
  obtain m1 where 1: "inject_mmap_syscall child_kernel pid ?v m = (OK (), m1)"
    using child_inject unfolding inject_mmap_syscall_def by blast
  have sint: "\<not> sint (vma_data_offset ?v) < 0"
    using sint_nonneg[of "vma_data_offset ?v"] sample_metadata_fields(4) by simp
  have "\<exists>m'. copy_in child_kernel sample_file ?v 0x1000 m2 = (OK (), m')" for m2
    by (subst copy_in.simps) (simp add: sample_vma_fields)
  moreover obtain m2 where "copy_in child_kernel sample_file ?v 0 m1 = copy_in child_kernel sample_file ?v 0x1000 m2"
  proof -
    define buff where "buff = take 4096 (drop 5216 sample_file)"
    have len: "length buff = 4096" by (simp add: buff_def length_sample_file)
    then obtain m2 where "sys_int child_kernel (Pwrite 0x1000 buff) m1 = (Inr 4096, m2)"
      by (simp add: child_calls)
    then have "copy_in child_kernel sample_file ?v 0 m1 = copy_in child_kernel sample_file ?v 0x1000 m2"
      using len
      by (subst copy_in.simps) (simp add: sample_vma_fields sample_metadata_fields(4) length_sample_file flip: buff_def)
    then show ?thesis by (rule that)
  qed
  ultimately obtain m3 where "copy_in child_kernel sample_file ?v 0 m1 = (OK (), m3)" by metis
  then have "restore_vma child_kernel pid sample_file ?v m = (OK (), m3)"
    using 1 sint by (simp add: restore_vma_def)
  then show ?thesis by (simp add: sample_metadata_fields(1))
qed

lemma child_restore_stopped:
  "\<exists>m'. restore_stopped child_kernel pid sample_file sample_metadata m = (OK (), m')"
proof -
  obtain m1 where 1: "sys_unit child_kernel (OpenMem (proc_path pid ''mem'') True) m = (Inr (), m1)"
    by (simp add: child_calls)
  obtain m2 where 2: "restore_vmas child_kernel pid sample_file (sm_vmas sample_metadata) m1 = (OK (), m2)"
    using child_restore_vmas by blast
  define m3 where "m3 = snd (sys_unit child_kernel CloseMem m2)"
  obtain regs m4 where 4: "sys_regs child_kernel (GetRegs pid) m3 = (Inr regs, m4)"
    by (simp add: child_calls)
  obtain m5 where 5: "restore_protections child_kernel pid (sm_vmas sample_metadata) m3 = (OK (), m5)"
  proof -
    obtain m5 where "inject_all child_kernel pid (map mprotect_injection
        (protection_order (reg_rip regs) (sm_vmas sample_metadata))) m4 = (OK (), m5)"
      using child_inject_all by blast
    then show ?thesis using that 4 by (simp add: restore_protections_injects)
  qed
  have "restore_memory child_kernel pid sample_file sample_metadata m = (OK (), m5)"
    using 1 2 5 by (simp add: restore_memory_def restore_kernel_maps_def Let_def sample_metadata_fields(2,3) m3_def)
  then show ?thesis
    by (simp add: restore_stopped_def set_final_regs_def set_final_xstate_def child_calls)
qed

definition restore_config :: ksnap_config where
  "restore_config = sample_config\<lparr>cfg_mode := Some ''RESTORE''\<rparr>"

definition restore_start :: "traced machine" where
  "restore_start = \<lparr>world = entry_child, log = []\<rparr>"

lemma child_restorer: "\<exists>m'. restorer child_kernel junk restore_config m = (Parent (OK ()), m')"
proof -
  have path: "build_snapshot_path restore_config = OK ''/tmp/s''" by code_simp
  obtain m1 where 1: "sys_text child_kernel (OpenSnapshot ''/tmp/s'') m = (Inr (sample_file, False), m1)"
    by (simp add: child_calls)
  obtain m2 where 2: "read_snapshot_metadata child_kernel sample_file m1 = (OK sample_metadata, m2)"
    using child_kernel_metadata unfolding sample_metadata_def by blast
  obtain m3 where 3: "sys_int child_kernel Fork m2 = (Inr 43, m3)" by (simp add: child_calls)
  obtain m4 where 4: "sys_int child_kernel (Waitpid 43) m3 = (Inr 0x137F, m4)" by (simp add: child_calls)
  obtain m5 where 5: "restore_stopped child_kernel 43 sample_file sample_metadata m4 = (OK (), m5)"
    using child_restore_stopped by blast
  have "\<exists>m6. restore_parent child_kernel junk 43 sample_file sample_metadata m3 = (OK (), m6)"
    using 4 5 by (simp add: restore_parent_def WIFSTOPPED_def)
  then show ?thesis
    using path 1 2 3 by (auto simp: restorer_def)
qed

lemma sample_junk: "\<not> WIFSTOPPED 0"
  by (simp add: WIFSTOPPED_def)

lemma sample_maps_laws: "procfs_maps_laws sample_kernel pid"
proof -
  have "dumped_lines (maps_lines sample_maps) = [sample_line]"
    by (simp add: sample_maps_lines dumped_lines_def sample_classify)
  then show ?thesis
    by (auto simp: procfs_maps_laws_def sample_kernel_def sample_reply_def sample_text_proc lines_placed_def
        placed_def sample_line_def)
qed

text \<open>No write into the child fails.\<close>

definition keeps_pokes :: "'w machine \<Rightarrow> 'w machine \<Rightarrow> bool" where
  "keeps_pokes m m' \<longleftrightarrow> (pokes_succeed m \<longrightarrow> pokes_succeed m')"

lemma child_kernel_poke: "child_kernel c w = (r, w') \<Longrightarrow> is_poke c \<Longrightarrow> as_unit r = Inr ()"
  by (cases c) (auto simp: child_kernel_def)

lemma keeps_pokes_frame: "frame child_kernel keeps_pokes P"
  by unfold_locales
    (auto simp: keeps_pokes_def pokes_succeed_def call_def split: prod.splits dest: child_kernel_poke)

lemma keeps_pokes_restoration: "restoration child_kernel pid keeps_pokes"
  using keeps_pokes_frame by (simp add: restoration_def)

lemma restorer_pokes_succeed:
  assumes run: "restorer child_kernel junk config m = (Parent (OK ()), m')" and "pokes_succeed m"
  shows "pokes_succeed m'"
proof -
  note after = frame.after[OF keeps_pokes_frame[where P = "\<lambda>_. True"]]
  obtain path content err ma md mb pid mc where r:
    "build_snapshot_path config = OK path" "sys_text child_kernel (OpenSnapshot path) m = (Inr (content, err), ma)"
    "read_snapshot_metadata child_kernel content ma = (OK md, mb)" "sys_int child_kernel Fork mb = (Inr pid, mc)"
    "0 < pid" "restore_parent child_kernel junk pid content md mc = (OK (), m')"
    by (rule restorer_OK[OF run])
  obtain w m1 m2 where p: "sys_int child_kernel (Waitpid pid) mc = (w, m1)"
    "WIFSTOPPED (case w of Inl e \<Rightarrow> junk | Inr s \<Rightarrow> s)"
    "restore_stopped child_kernel pid content md m1 = (OK (), m2)"
    "m' = snd (sys_unit child_kernel (Waitpid pid) (snd (sys_unit child_kernel (Detach pid) m2)))"
    by (rule restore_parent_OK[OF r(6)])
  have 0: "keeps_pokes m m" by (simp add: keeps_pokes_def)
  have "keeps_pokes m ma" using after(4)[OF TrueI 0, of "OpenSnapshot path"] r(2) by simp
  moreover have "keeps_pokes ma mb"
    using read_snapshot_metadata_validating[OF r(3)]
    by (fastforce simp: extends_def keeps_pokes_def pokes_succeed_def list_all_iff elim: is_poke.elims)
  ultimately have "keeps_pokes m mb" by (simp add: keeps_pokes_def)
  from after(2)[OF TrueI this, of Fork] r(4) have "keeps_pokes m mc" by simp
  from after(2)[OF TrueI this, of "Waitpid pid"] p(1) have "keeps_pokes m m1" by simp
  from restoration.restore_stopped[OF keeps_pokes_restoration this, of pid content md] p(3)
  have "keeps_pokes m m2" by simp
  from after(1)[OF TrueI after(1)[OF TrueI this, of "Detach pid"], of "Waitpid pid"] p(4)
  show ?thesis using assms(2) by (simp add: keeps_pokes_def)
qed

subsection \<open>Its kernel mapping\<close>

definition vdso_map :: "u64 \<Rightarrow> kernel_map" where
  "vdso_map a = \<lparr>km_start_address = a, km_size = 0x1000, km_name = ''[vdso]'' @ replicate 26 NUL\<rparr>"

definition vdso_header :: "u64 \<Rightarrow> ksnap_dump_header" where
  "vdso_header a = make_header sample_regs (zeros 576) ''/bin/x'' [sample_vma] [] empty_pool [vdso_map a]"

lemma vdso_header_map:
  "unat (dh_kernel_map_count (vdso_header a)) = 1" "dh_kernel_maps (vdso_header a) ! 0 = vdso_map a"
  by (simp_all add: vdso_header_def make_header_def Let_def)

lemma vdso_name: "kernel_map_name (vdso_header a) 0 = ''[vdso]''"
proof -
  have "storable (zeros 576) ''/bin/x'' [sample_vma] [] empty_pool [vdso_map a]"
    using sample_storable
    by (simp add: storable_def vdso_map_def kernel_map_wf_def KSNAP_KERNEL_MAP_NAME_LEN_def KSNAP_MAX_KERNEL_MAPS_def)
  then have "header_wf (vdso_header a)" unfolding vdso_header_def by (rule make_header_wf)
  then have "kernel_map_name (vdso_header a) 0 = c_str (km_name (vdso_map a))"
    using kernel_map_name_terminated[of "vdso_header a" 0]
    by (simp add: vdso_header_map KSNAP_MAX_KERNEL_MAPS_def vdso_map_def)
  then show ?thesis by (simp add: vdso_map_def c_str_def)
qed

lemma vdso_found: "\<exists>m'. find_named_map child_kernel pid ''[vdso]'' m = (OK (0x7000, 0x1000), m')"
proof -
  have "maps_lines vdso_maps = [\<lparr>ml_start = 0x7000, ml_end = 0x8000, ml_file_offset = 0,
      ml_privileges = ''r-xp'', ml_path = ''[vdso]''\<rparr>]"
    by code_simp
  then show ?thesis by (simp add: find_named_map_def child_calls)
qed

lemma vdso_child_has: "child_has_maps child_kernel pid (vdso_header a) (\<lambda>_. (0x7000, 0x1000))"
proof -
  have "fst (find_named_map child_kernel pid ''[vdso]'' m) = OK (0x7000, 0x1000)" for m
    using vdso_found[of pid m] by auto
  then show ?thesis by (simp add: child_has_maps_def vdso_header_map(1) vdso_name)
qed

lemma vdso_moves: "\<exists>m'. restore_kernel_maps child_kernel pid (vdso_header 0x9000) m = (OK (), m')"
proof -
  obtain m1 where 1: "find_named_map child_kernel pid ''[vdso]'' m = (OK (0x7000, 0x1000), m1)"
    using vdso_found by blast
  obtain m2 where 2: "find_named_map child_kernel pid ''[vdso]'' m1 = (OK (0x7000, 0x1000), m2)"
    using vdso_found by blast
  obtain m3 where "inject_checked child_kernel pid (mremap_injection 0x7000 0x1000 (vdso_map 0x9000)) m2 = (OK (), m3)"
    using child_inject by blast
  then show ?thesis
    using 1 2
    by (simp add: restore_kernel_maps_def Let_def vdso_header_map vdso_name vdso_map_def ranges_overlap_def
        widen_ranges_def empty_ranges_def)
qed

section \<open>Descriptors\<close>

text \<open>A process with its descriptors; the next open file gets the number \<open>next_file\<close>.\<close>

record fd_state =
  fs_tab :: fd_table
  fs_files :: "nat \<Rightarrow> open_file"
  next_file :: nat

definition lowest_free :: "fd_table \<Rightarrow> int" where
  "lowest_free t = (if t 0 = None then 0 else if t 1 = None then 1 else if t 2 = None then 2
     else if t 3 = None then 3 else 4)"

text \<open>Enough for what is run below: an \<open>open\<close> that finds no number up to 4, or whose next file is
  in use, is refused.\<close>

definition fd_kernel :: "fd_state kernel" where
  "fd_kernel req s =
     (case req of
        CloseRange n \<Rightarrow> (RInt 0, s\<lparr>fs_tab := (\<lambda>j. if j < int n then fs_tab s j else None)\<rparr>)
      | OpenFile path flags \<Rightarrow>
          (let n = lowest_free (fs_tab s); i = next_file s in
           if fs_tab s n \<noteq> None \<or> i \<in> ran (fs_tab s) then (RErr ENOMEM, s)
           else (RInt n, s\<lparr>fs_tab := (fs_tab s)(n \<mapsto> i),
             fs_files := (fs_files s)(i := \<lparr>of_path = path, of_flags = flags, of_position = 0\<rparr>),
             next_file := Suc i\<rparr>))
      | Lseek n pos \<Rightarrow>
          (case fs_tab s n of
             None \<Rightarrow> (RErr EINVAL, s)
           | Some i \<Rightarrow> (RInt 0, s\<lparr>fs_files := (fs_files s)(i := (fs_files s i)\<lparr>of_position := pos\<rparr>)\<rparr>))
      | Dup2 a b \<Rightarrow>
          (case fs_tab s a of
             None \<Rightarrow> (RErr EINVAL, s)
           | Some i \<Rightarrow> (RInt 0, s\<lparr>fs_tab := (fs_tab s)(b \<mapsto> i)\<rparr>))
      | CloseFd n \<Rightarrow> (RInt 0, s\<lparr>fs_tab := (fs_tab s)(n := None)\<rparr>)
      | _ \<Rightarrow> (RInt 0, s))"

lemma lowest_free_laws: "0 \<le> lowest_free t" "0 \<le> j \<Longrightarrow> j < lowest_free t \<Longrightarrow> t j \<noteq> None"
proof -
  show "0 \<le> lowest_free t" by (simp add: lowest_free_def)
  assume j: "0 \<le> j" "j < lowest_free t"
  then have "j = 0 \<or> j = 1 \<or> j = 2 \<or> j = 3" by (auto simp: lowest_free_def split: if_splits)
  then show "t j \<noteq> None" using j by (elim disjE) (auto simp: lowest_free_def split: if_splits)
qed

lemma fd_kernel_posix: "posix_descriptors fd_kernel fs_tab fs_files"
  unfolding posix_descriptors_def
proof (intro conjI)
  show "\<forall>w path flags n. fst (fd_kernel (OpenFile path flags) w) = RInt n \<longrightarrow>
        0 \<le> n \<and> fs_tab w n = None \<and> (\<forall>j. 0 \<le> j \<and> j < n \<longrightarrow> fs_tab w j \<noteq> None) \<and>
        (\<exists>i. i \<notin> ran (fs_tab w) \<and> fs_tab (snd (fd_kernel (OpenFile path flags) w)) = (fs_tab w)(n \<mapsto> i) \<and>
           fs_files (snd (fd_kernel (OpenFile path flags) w)) =
             (fs_files w)(i := \<lparr>of_path = path, of_flags = flags, of_position = 0\<rparr>))"
  proof (intro allI impI)
    fix w path flags n
    assume "fst (fd_kernel (OpenFile path flags) w) = RInt n"
    then have "n = lowest_free (fs_tab w)" "fs_tab w n = None" "next_file w \<notin> ran (fs_tab w)"
      "snd (fd_kernel (OpenFile path flags) w) = w\<lparr>fs_tab := (fs_tab w)(n \<mapsto> next_file w),
         fs_files := (fs_files w)(next_file w := \<lparr>of_path = path, of_flags = flags, of_position = 0\<rparr>),
         next_file := Suc (next_file w)\<rparr>"
      by (auto simp: fd_kernel_def Let_def split: if_splits)
    then show "0 \<le> n \<and> fs_tab w n = None \<and> (\<forall>j. 0 \<le> j \<and> j < n \<longrightarrow> fs_tab w j \<noteq> None) \<and>
        (\<exists>i. i \<notin> ran (fs_tab w) \<and> fs_tab (snd (fd_kernel (OpenFile path flags) w)) = (fs_tab w)(n \<mapsto> i) \<and>
           fs_files (snd (fd_kernel (OpenFile path flags) w)) =
             (fs_files w)(i := \<lparr>of_path = path, of_flags = flags, of_position = 0\<rparr>))"
      using lowest_free_laws by auto
  qed
qed (auto simp: fd_kernel_def split: option.splits)

text \<open>A table with one file and a copy of it, and a process that has only standard input, output
  and error.\<close>

definition sample_fds :: "fd_descriptor list" where
  "sample_fds =
     [\<lparr>fdd_fd = 5, fdd_dup_of = -1, fdd_flags = 0x80002, fdd_path_offset = 0, fdd_path_len = 2,
       fdd_reserved = 0, fdd_position = 7\<rparr>,
      \<lparr>fdd_fd = 6, fdd_dup_of = 5, fdd_flags = 2, fdd_path_offset = 0, fdd_path_len = 2,
       fdd_reserved = 0, fdd_position = 7\<rparr>]"

definition fd_start :: "fd_state machine" where
  "fd_start = \<lparr>world = \<lparr>fs_tab = [0 \<mapsto> 0, 1 \<mapsto> 1, 2 \<mapsto> 2],
     fs_files = (\<lambda>_. \<lparr>of_path = [], of_flags = 0, of_position = 0\<rparr>), next_file = 3\<rparr>, log = []\<rparr>"

lemma sample_fds_valid: "fd_table_valid (''/a'' @ [NUL]) sample_fds"
proof -
  have "check_fd_table (''/a'' @ [NUL]) 3 [] sample_fds" by code_simp
  then show ?thesis using check_fd_table_iff[of 3 "''/a'' @ [NUL]" "[]" sample_fds] by simp
qed

lemma sample_fds_open: "\<exists>m'. open_snapshot_fds fd_kernel sample_fds (''/a'' @ [NUL]) fd_start = (OK (), m')"
  by (simp add: open_snapshot_fds_def open_snapshot_fd_def sample_fds_def fd_start_def sys_defs call_def
      fd_kernel_def lowest_free_def Let_def O_CLOEXEC_def O_PATH_def ran_def)

end
