(* ===== verification/Json.thy ===== *)
theory Json
  imports CLib
begin

text \<open>
  \<open>print_json_string\<close> of \<open>src/checker.c\<close>, and the text format its output belongs to: the values a
  report is made of, how they are written, and a reader for them. The reader is the contract of
  the report, the role \<open>json.loads\<close> plays for the callers of the engine; it rejects control characters
  inside a string and takes numbers without fraction or exponent. Texts are bytes.
\<close>

section \<open>Strings\<close>

abbreviation DQUOTE :: char where "DQUOTE \<equiv> CHR 0x22"
abbreviation BACKSLASH :: char where "BACKSLASH \<equiv> CHR 0x5C"

text \<open>The body of the loop.\<close>

definition escape_json :: "char \<Rightarrow> string" where
  "escape_json c =
     (if c = DQUOTE then [BACKSLASH, DQUOTE]
      else if c = BACKSLASH then [BACKSLASH, BACKSLASH]
      else if c = CHR 0x0A then BACKSLASH # ''n''
      else if c = CHR 0x0D then BACKSLASH # ''r''
      else if c = CHR 0x09 then BACKSLASH # ''t''
      else if (of_char c :: nat) < 0x20 then BACKSLASH # ''u'' @ hex4 (of_char c)
      else [c])"

definition print_json_string :: "bytes \<Rightarrow> string" where
  "print_json_string value =
     DQUOTE # concat (List.map escape_json (c_str value)) @ [DQUOTE]"

section \<open>Values\<close>

datatype json =
    JBool bool
  | JNum int
  | JStr string
  | JArr "json list"
  | JObj "(string \<times> json) list"

text \<open>The text of a value, without blanks.\<close>

definition json_bool :: "bool \<Rightarrow> string" where
  "json_bool b = (if b then ''true'' else ''false'')"

fun render :: "json \<Rightarrow> string" and render_items :: "json list \<Rightarrow> string"
  and render_members :: "(string \<times> json) list \<Rightarrow> string" where
  "render (JBool b) = json_bool b"
| "render (JNum i) = dec_int i"
| "render (JStr s) = print_json_string s"
| "render (JArr js) = ''['' @ render_items js @ '']''"
| "render (JObj kvs) = ''{'' @ render_members kvs @ ''}''"
| "render_items [] = []"
| "render_items [j] = render j"
| "render_items (j # js) = render j @ '','' @ render_items js"
| "render_members [] = []"
| "render_members [(key, j)] = print_json_string key @ '':'' @ render j"
| "render_members ((key, j) # kvs) = print_json_string key @ '':'' @ render j @ '','' @ render_members kvs"

section \<open>Reading\<close>

definition hex_value :: "string \<Rightarrow> nat option" where
  "hex_value ds = (if list_all (base_digit 16) ds then Some (digits_value 16 ds) else None)"

text \<open>The characters of a string after its opening quote.\<close>

fun read_chars :: "string \<Rightarrow> (string \<times> string) option" where
  "read_chars [] = None"
| "read_chars (c # s) =
     (if c = DQUOTE then Some ([], s)
      else if (of_char c :: nat) < 0x20 then None
      else if c \<noteq> BACKSLASH then map_option (map_prod (Cons c) id) (read_chars s)
      else (case s of
          [] \<Rightarrow> None
        | e # s1 \<Rightarrow>
            if e = DQUOTE \<or> e = BACKSLASH \<or> e = CHR ''/'' then map_option (map_prod (Cons e) id) (read_chars s1)
            else if e = CHR ''n'' then map_option (map_prod (Cons (CHR 0x0A)) id) (read_chars s1)
            else if e = CHR ''r'' then map_option (map_prod (Cons (CHR 0x0D)) id) (read_chars s1)
            else if e = CHR ''t'' then map_option (map_prod (Cons (CHR 0x09)) id) (read_chars s1)
            else if e = CHR ''b'' then map_option (map_prod (Cons (CHR 0x08)) id) (read_chars s1)
            else if e = CHR ''f'' then map_option (map_prod (Cons (CHR 0x0C)) id) (read_chars s1)
            else if e = CHR ''u'' then
              (case s1 of
                 a # b # c # d # s2 \<Rightarrow>
                   (case hex_value [a, b, c, d] of
                      None \<Rightarrow> None
                    | Some v \<Rightarrow>
                        if v < 256 then map_option (map_prod (Cons (char_of v)) id) (read_chars s2) else None)
               | _ \<Rightarrow> None)
            else None))"

definition read_string :: "string \<Rightarrow> (string \<times> string) option" where
  "read_string s = (case s of [] \<Rightarrow> None | c # r \<Rightarrow> if c = DQUOTE then read_chars r else None)"

definition read_number :: "string \<Rightarrow> (int \<times> string) option" where
  "read_number s =
     (let neg = (s \<noteq> [] \<and> hd s = CHR ''-''); t = (if neg then tl s else s);
          ds = takeWhile isdigit t
      in if ds = [] then None
         else Some (if neg then - int (digits_value 10 ds) else int (digits_value 10 ds), dropWhile isdigit t))"

text \<open>Values nest at most \<open>n\<close> deep; the length of the text is always enough.\<close>

fun read_value :: "nat \<Rightarrow> string \<Rightarrow> (json \<times> string) option"
  and read_items :: "nat \<Rightarrow> string \<Rightarrow> (json list \<times> string) option"
  and read_members :: "nat \<Rightarrow> string \<Rightarrow> ((string \<times> json) list \<times> string) option" where
  "read_value 0 s = None"
| "read_value (Suc n) s =
     (if take 4 s = ''true'' then Some (JBool True, drop 4 s)
      else if take 5 s = ''false'' then Some (JBool False, drop 5 s)
      else if take 1 s = [DQUOTE] then map_option (map_prod JStr id) (read_string s)
      else if take 2 s = ''[]'' then Some (JArr [], drop 2 s)
      else if take 1 s = ''['' then map_option (map_prod JArr id) (read_items n (drop 1 s))
      else if take 2 s = ''{}'' then Some (JObj [], drop 2 s)
      else if take 1 s = ''{'' then map_option (map_prod JObj id) (read_members n (drop 1 s))
      else map_option (map_prod JNum id) (read_number s))"
| "read_items 0 s = None"
| "read_items (Suc n) s =
     (case read_value n s of
        None \<Rightarrow> None
      | Some (j, r) \<Rightarrow>
          if take 1 r = '','' then map_option (map_prod (Cons j) id) (read_items n (drop 1 r))
          else if take 1 r = '']'' then Some ([j], drop 1 r)
          else None)"
| "read_members 0 s = None"
| "read_members (Suc n) s =
     (case read_string s of
        None \<Rightarrow> None
      | Some (key, r0) \<Rightarrow>
          if take 1 r0 \<noteq> '':'' then None
          else (case read_value n (drop 1 r0) of
              None \<Rightarrow> None
            | Some (j, r) \<Rightarrow>
                if take 1 r = '','' then map_option (map_prod (Cons (key, j)) id) (read_members n (drop 1 r))
                else if take 1 r = ''}'' then Some ([(key, j)], drop 1 r)
                else None))"

text \<open>One value, and blanks after it.\<close>

definition parse_json :: "string \<Rightarrow> json option" where
  "parse_json s =
     (case read_value (length s) s of
        Some (j, r) \<Rightarrow> if list_all isspace r then Some j else None
      | None \<Rightarrow> None)"

section \<open>Round trips\<close>

lemma hex_value_hex4: "n < 32 \<Longrightarrow> hex_value (hex4 n) = Some n"
proof -
  have "list_all (\<lambda>n. hex_value (hex4 n) = Some n) [0..<32]" by code_simp
  then show "n < 32 \<Longrightarrow> hex_value (hex4 n) = Some n" by (simp add: list_all_iff)
qed

lemma read_chars_escape: "read_chars (escape_json c @ s) = map_option (map_prod (Cons c) id) (read_chars s)"
proof (cases "(of_char c :: nat) < 32")
  case True
  obtain h where h: "hex4 (of_char c) = [h 3, h 2, h 1, h (0 :: nat)]"
    using that[of "\<lambda>i. digit_char (of_char c div 16 ^ i mod 16)"] by (simp add: hex4_def)
  show ?thesis using True hex_value_hex4[OF True] h by (simp add: escape_json_def)
qed (simp add: escape_json_def)

lemma read_chars_concat:
  "read_chars (concat (List.map escape_json v) @ DQUOTE # s) = Some (v, s)"
  by (induction v) (simp_all add: read_chars_escape)

lemma read_string_print: "read_string (print_json_string v @ s) = Some (c_str v, s)"
  by (simp add: read_string_def print_json_string_def read_chars_concat)

lemma digit_char_10:
  assumes "d < 10"
  shows "isdigit (digit_char d)" "digit_val (digit_char d) = d"
  using assms by (simp_all add: digit_char_def isdigit_def digit_val_def)

lemma dec_nat_digits: "list_all isdigit (dec_nat n)" "dec_nat n \<noteq> []" "digits_value 10 (dec_nat n) = n"
proof -
  have "list_all isdigit (dec_nat n) \<and> dec_nat n \<noteq> [] \<and> digits_value 10 (dec_nat n) = n"
  proof (induction n rule: less_induct)
    case (less n)
    then show ?case
      by (subst (1 2 3) dec_nat.simps)
        (simp add: digit_char_10 digits_value_append, simp add: digit_char_10 digits_value_def)
  qed
  then show "list_all isdigit (dec_nat n)" "dec_nat n \<noteq> []" "digits_value 10 (dec_nat n) = n" by auto
qed

definition no_digit :: "string \<Rightarrow> bool" where
  "no_digit s \<longleftrightarrow> (case s of [] \<Rightarrow> True | c # _ \<Rightarrow> \<not> isdigit c)"

lemma digits_stop:
  assumes "list_all isdigit ds" "no_digit r"
  shows "takeWhile isdigit (ds @ r) = ds" "dropWhile isdigit (ds @ r) = r"
  using assms by (induction ds; cases r; simp add: no_digit_def)+

lemma dec_nat_Cons:
  obtains d ds where "dec_nat n = d # ds" "isdigit d"
  using dec_nat_digits[of n] by (cases "dec_nat n") auto

lemma read_number_dec: "no_digit r \<Longrightarrow> read_number (dec_int i @ r) = Some (i, r)"
proof (cases "i < 0")
  case True
  then show "no_digit r \<Longrightarrow> ?thesis"
    using dec_nat_digits[of "nat (- i)"] digits_stop[of "dec_nat (nat (- i))" r]
    by (simp add: read_number_def dec_int_def)
next
  case False
  obtain d ds where d: "dec_nat (nat i) = d # ds" "isdigit d" by (rule dec_nat_Cons)
  then have "d \<noteq> CHR ''-''" by (auto simp: isdigit_def)
  then show "no_digit r \<Longrightarrow> ?thesis"
    using False dec_nat_digits[of "nat i"] digits_stop[of "dec_nat (nat i)" r] d
    by (simp add: read_number_def dec_int_def)
qed

text \<open>Values whose strings are C strings.\<close>

fun json_ok :: "json \<Rightarrow> bool" where
  "json_ok (JStr s) \<longleftrightarrow> NUL \<notin> set s"
| "json_ok (JArr js) \<longleftrightarrow> (\<forall>j \<in> set js. json_ok j)"
| "json_ok (JObj kvs) \<longleftrightarrow> (\<forall>p \<in> set kvs. NUL \<notin> set (fst p) \<and> json_ok (snd p))"
| "json_ok _ \<longleftrightarrow> True"

text \<open>The first character tells what kind of value follows.\<close>

lemma print_json_string_Cons: "\<exists>z. print_json_string s = DQUOTE # z"
  by (simp add: print_json_string_def)

lemma dec_int_Cons: "\<exists>d z. dec_int i = d # z \<and> (d = CHR ''-'' \<or> isdigit d)"
  by (rule dec_nat_Cons[of "nat i"]) (auto simp: dec_int_def)

lemma render_Cons:
  "\<exists>c z. render j = c # z \<and> (c \<in> set ''tf-[{'' \<or> c = DQUOTE \<or> isdigit c)"
  using print_json_string_Cons dec_int_Cons
  by (cases j) (fastforce simp: json_bool_def)+

lemma render_items_Cons:
  assumes "js \<noteq> []"
  obtains c z where "render_items js = c # z" "c \<noteq> CHR '']''"
proof -
  obtain j js' where js: "js = j # js'" using assms by (cases js) auto
  obtain c z where c: "render j = c # z" "c \<in> set ''tf-[{'' \<or> c = DQUOTE \<or> isdigit c"
    using render_Cons by blast
  then have "c \<noteq> CHR '']''" by (auto simp: isdigit_def)
  then show ?thesis using that js c(1) by (cases js') auto
qed

lemma render_members_Cons: "kvs \<noteq> [] \<Longrightarrow> \<exists>z. render_members kvs = DQUOTE # z"
  by (cases kvs rule: render_members.cases) (simp_all add: print_json_string_def)

lemma read_value_number:
  assumes "no_digit r"
  shows "read_value (Suc n) (dec_int i @ r) = Some (JNum i, r)"
proof -
  obtain d z where "dec_int i = d # z" "d = CHR ''-'' \<or> isdigit d" using dec_int_Cons by blast
  then show ?thesis using read_number_dec[OF assms, of i] by (auto simp: isdigit_def)
qed

lemma read_value_string: "read_value (Suc n) (print_json_string v @ r) = Some (JStr (c_str v), r)"
  using read_string_print[of v r] by (simp add: print_json_string_def)

lemma read_render:
  "json_ok j \<Longrightarrow> length (render j) \<le> n \<Longrightarrow> no_digit r \<Longrightarrow> read_value n (render j @ r) = Some (j, r)"
  "js \<noteq> [] \<Longrightarrow> \<forall>j \<in> set js. json_ok j \<Longrightarrow> length (render_items js) < n \<Longrightarrow>
     read_items n (render_items js @ CHR '']'' # r) = Some (js, r)"
  "kvs \<noteq> [] \<Longrightarrow> \<forall>p \<in> set kvs. NUL \<notin> set (fst p) \<and> json_ok (snd p) \<Longrightarrow> length (render_members kvs) < n \<Longrightarrow>
     read_members n (render_members kvs @ CHR ''}'' # r) = Some (kvs, r)"
proof (induction j and js and kvs arbitrary: n r and n r and n r rule: render_render_items_render_members.induct)
  case (1 b)
  then show ?case by (cases n) (auto simp: json_bool_def split: if_splits)
next
  case (2 i)
  then show ?case using dec_int_Cons[of i] by (cases n) (auto simp: read_value_number simp del: read_value.simps)
next
  case (3 s)
  then obtain n' where "n = Suc n'" by (cases n) (auto simp: print_json_string_def)
  then show ?case using 3 by (simp add: read_value_string c_str_id del: read_value.simps)
next
  case (4 js)
  then obtain n' where n: "n = Suc n'" by (cases n) auto
  show ?case
  proof (cases "js = []")
    case False
    obtain c z where "render_items js = c # z" "c \<noteq> CHR '']''" using render_items_Cons[OF False] .
    then show ?thesis using 4 False n by simp
  qed (simp add: n)
next
  case (5 kvs)
  then obtain n' where n: "n = Suc n'" by (cases n) auto
  show ?case
  proof (cases "kvs = []")
    case False
    obtain z where "render_members kvs = DQUOTE # z" using render_members_Cons[OF False] by blast
    then show ?thesis using 5 False n by simp
  qed (simp add: n)
next
  case 6
  then show ?case by simp
next
  case (7 j)
  then show ?case by (cases n) (auto simp: no_digit_def isdigit_def)
next
  case (8 j j2 js)
  then show ?case by (cases n) (auto simp: no_digit_def isdigit_def)
next
  case 9
  then show ?case by simp
next
  case (10 key j)
  then show ?case by (cases n) (auto simp: read_string_print c_str_id no_digit_def isdigit_def)
next
  case (11 key j p kvs)
  then show ?case by (cases n) (auto simp: read_string_print c_str_id no_digit_def isdigit_def)
qed

text \<open>A rendered value reads back, alone or with blanks after it.\<close>

lemma parse_render:
  assumes "json_ok j" "list_all isspace blanks"
  shows "parse_json (render j @ blanks) = Some j"
proof -
  have "no_digit blanks" using assms(2) by (cases blanks) (auto simp: no_digit_def isspace_def isdigit_def)
  then show ?thesis
    using read_render(1)[OF assms(1), of "length (render j @ blanks)" blanks] assms(2) by (simp add: parse_json_def)
qed

section \<open>What the text is made of\<close>

lemma escape_json_control: "c \<in> set (escape_json x) \<Longrightarrow> (of_char x :: nat) < 0x20 \<Longrightarrow> 0x20 \<le> (of_char c :: nat)"
proof -
  have "list_all (\<lambda>n. list_all (\<lambda>c. 0x20 \<le> (of_char c :: nat)) (hex4 n)) [0..<32]" by code_simp
  then show "c \<in> set (escape_json x) \<Longrightarrow> (of_char x :: nat) < 0x20 \<Longrightarrow> 0x20 \<le> (of_char c :: nat)"
    by (auto simp: escape_json_def list_all_iff split: if_splits)
qed

text \<open>No control character, a newline in particular, is printed.\<close>

lemma print_json_string_printable: "c \<in> set (print_json_string v) \<Longrightarrow> 0x20 \<le> (of_char c :: nat)"
proof -
  have "0x20 \<le> (of_char c :: nat)" if "c \<in> set (escape_json x)" for x
    using that escape_json_control[of c x]
    by (cases "(of_char x :: nat) < 0x20") (auto simp: escape_json_def split: if_splits)
  then show "c \<in> set (print_json_string v) \<Longrightarrow> 0x20 \<le> (of_char c :: nat)"
    by (auto simp: print_json_string_def)
qed

text \<open>A byte outside of ASCII is printed as it is.\<close>

lemma print_json_string_high:
  "filter (\<lambda>c. 0x80 \<le> (of_char c :: nat)) (print_json_string v) = filter (\<lambda>c. 0x80 \<le> (of_char c :: nat)) (c_str v)"
proof -
  have low: "list_all (\<lambda>n. list_all (\<lambda>c. (of_char c :: nat) < 0x80) (hex4 n)) [0..<32]" by code_simp
  have "filter (\<lambda>c. 0x80 \<le> (of_char c :: nat)) (escape_json x) = filter (\<lambda>c. 0x80 \<le> (of_char c :: nat)) [x]" for x
    using low by (auto simp: escape_json_def filter_empty_conv list_all_iff not_le)
  then have "filter (\<lambda>c. 0x80 \<le> (of_char c :: nat)) (concat (List.map escape_json s)) = filter (\<lambda>c. 0x80 \<le> (of_char c :: nat)) s" for s
    by (induction s) simp_all
  then show ?thesis by (simp add: print_json_string_def)
qed

end
