(* ===== verification/Checker.thy ===== *)
theory Checker
  imports Json Fds DumpFormat
begin

text \<open>
  \<open>include/checker.h\<close> and \<open>src/checker.c\<close>: whether a process can be dumped and restored, as a list of
  reasons against it and a list of facts, printed as one JSON object on a line. \<open>strerror\<close> is the
  function of the C library, its texts depend on the locale. The \<open>printf\<close>s of one report are one
  call of \<open>Puts\<close>. Counters of the type \<open>int\<close> are unbounded, one of them counts at most the
  entries of a directory or the words of a file; the \<open>uint32_t\<close> ones wrap around.
\<close>

section \<open>Reports\<close>

definition KSNAP_CHECK_EXIT_DUMPABLE :: int where "KSNAP_CHECK_EXIT_DUMPABLE = 0"
definition KSNAP_CHECK_EXIT_ERROR :: int where "KSNAP_CHECK_EXIT_ERROR = 1"
definition KSNAP_CHECK_EXIT_BLOCKED :: int where "KSNAP_CHECK_EXIT_BLOCKED = 11"

definition KSNAP_MAX_REASONS :: nat where "KSNAP_MAX_REASONS = 8"
definition COMM_LEN :: nat where "COMM_LEN = 64"
definition DETAIL_LEN :: nat where "DETAIL_LEN = 160"

record check_reason =
  rs_code :: string
  rs_detail :: string

text \<open>\<open>reason_count\<close> is the length of the list of reasons.\<close>

record check_report =
  cr_pid :: int
  cr_comm :: string
  cr_state :: char
  cr_threads :: int
  cr_tracer_pid :: int
  cr_argc :: int
  cr_open_fds :: int
  cr_volatile_fds :: int
  cr_dumpable_fds :: int
  cr_children :: int
  cr_uid :: u32
  cr_rss_kb :: u64
  cr_exe_path :: string
  cr_dumpable_vmas :: u32
  cr_kernel_maps :: u32
  cr_shared_vmas :: u32
  cr_device_vmas :: u32
  cr_snapshot_bytes :: u64
  cr_ptrace_probed :: bool
  cr_ptrace_ok :: bool
  cr_reasons :: "check_reason list"

definition initial_report :: "int \<Rightarrow> check_report" where
  "initial_report pid =
     \<lparr>cr_pid = pid, cr_comm = [], cr_state = CHR ''?'', cr_threads = 0, cr_tracer_pid = 0, cr_argc = 0,
      cr_open_fds = 0, cr_volatile_fds = 0, cr_dumpable_fds = 0, cr_children = 0, cr_uid = 0, cr_rss_kb = 0,
      cr_exe_path = [], cr_dumpable_vmas = 0, cr_kernel_maps = 0, cr_shared_vmas = 0, cr_device_vmas = 0,
      cr_snapshot_bytes = 0, cr_ptrace_probed = False, cr_ptrace_ok = False, cr_reasons = []\<rparr>"

text \<open>The detail is formatted by the caller; \<open>vsnprintf\<close> cuts it off.\<close>

definition add_reason :: "string \<Rightarrow> string \<Rightarrow> check_report \<Rightarrow> check_report" where
  "add_reason code detail rep =
     (if length (cr_reasons rep) = KSNAP_MAX_REASONS then rep
      else rep\<lparr>cr_reasons := cr_reasons rep @ [\<lparr>rs_code = code, rs_detail = take (DETAIL_LEN - 1) detail\<rparr>]\<rparr>)"

text \<open>The two reasons for a file of \<open>/proc\<close> that does not open.\<close>

definition not_permitted :: "errno \<Rightarrow> bool" where
  "not_permitted e \<longleftrightarrow> e = EACCES \<or> e = EPERM"

definition add_unopened :: "int \<Rightarrow> string \<Rightarrow> errno \<Rightarrow> check_report \<Rightarrow> check_report" where
  "add_unopened pid file_name e rep =
     (if not_permitted e then
        add_reason ''not_inspectable'' (proc_path pid file_name @ '' cannot be read, run the engine as root'') rep
      else add_reason ''gone'' ''the process disappeared while it was inspected'' rep)"

section \<open>Status\<close>

text \<open>The format of a line: its name, a colon and a tabulator, which skips any blanks, and one
  conversion.\<close>

definition status_format :: "string \<Rightarrow> directive \<Rightarrow> directive list" where
  "status_format field conversion = fmt_text (field @ [CHR 0x09]) @ [conversion]"

definition status_line :: "check_report \<Rightarrow> bytes \<Rightarrow> check_report" where
  "status_line rep line =
     (if starts_with line ''Name:'' then
        (case sscanf (status_format ''Name:'' (FLine (COMM_LEN - 1))) line of
           [SStr v] \<Rightarrow> rep\<lparr>cr_comm := v\<rparr> | _ \<Rightarrow> rep)
      else if starts_with line ''State:'' then
        (case sscanf (status_format ''State:'' FChar) line of
           [SChar v] \<Rightarrow> rep\<lparr>cr_state := v\<rparr> | _ \<Rightarrow> rep)
      else if starts_with line ''Uid:'' then
        (case sscanf (status_format ''Uid:'' FDecUint) line of
           [SUint v] \<Rightarrow> rep\<lparr>cr_uid := v\<rparr> | _ \<Rightarrow> rep)
      else if starts_with line ''Threads:'' then
        (case sscanf (status_format ''Threads:'' FDecInt) line of
           [SInt v] \<Rightarrow> rep\<lparr>cr_threads := v\<rparr> | _ \<Rightarrow> rep)
      else if starts_with line ''TracerPid:'' then
        (case sscanf (status_format ''TracerPid:'' FDecInt) line of
           [SInt v] \<Rightarrow> rep\<lparr>cr_tracer_pid := v\<rparr> | _ \<Rightarrow> rep)
      else if starts_with line ''VmRSS:'' then
        (case sscanf (status_format ''VmRSS:'' FDecLong) line of
           [SUlong v] \<Rightarrow> rep\<lparr>cr_rss_kb := v\<rparr> | _ \<Rightarrow> rep)
      else rep)"

text \<open>\<open>ERROR\<close> comes with the report as well, the reason is in it.\<close>

definition read_status_fields ::
    "'w kernel \<Rightarrow> int \<Rightarrow> check_report \<Rightarrow> 'w machine \<Rightarrow> (unit rc \<times> check_report) \<times> 'w machine" where
  "read_status_fields k pid rep m =
     (case sys_text k (OpenText (proc_path pid ''status'')) m of
        (Inl e, m') \<Rightarrow> ((ERROR, add_unopened pid ''status'' e rep), m')
      | (Inr (content, err), m') \<Rightarrow> ((OK (), foldl status_line rep (stream_lines 512 content)), m'))"

section \<open>Command line\<close>

fun count_arguments :: "bytes \<Rightarrow> bool \<Rightarrow> nat \<Rightarrow> nat" where
  "count_arguments [] pending argument_count = (if pending then Suc argument_count else argument_count)"
| "count_arguments (character # rest) pending argument_count =
     (if character = NUL then count_arguments rest False (if pending then Suc argument_count else argument_count)
      else count_arguments rest True argument_count)"

definition read_cmdline_argc ::
    "'w kernel \<Rightarrow> int \<Rightarrow> check_report \<Rightarrow> 'w machine \<Rightarrow> check_report \<times> 'w machine" where
  "read_cmdline_argc k pid rep m =
     (case sys_text k (OpenText (proc_path pid ''cmdline'')) m of
        (Inl e, m') \<Rightarrow> (rep, m')
      | (Inr (content, err), m') \<Rightarrow> (rep\<lparr>cr_argc := int (count_arguments content False 0)\<rparr>, m'))"

section \<open>Executable\<close>

definition probe_exe ::
    "'w kernel \<Rightarrow> (errno \<Rightarrow> string) \<Rightarrow> int \<Rightarrow> check_report \<Rightarrow> 'w machine \<Rightarrow> check_report \<times> 'w machine" where
  "probe_exe k strerror pid rep m =
     (case sys_readlink k (proc_path pid ''exe'') (PATH_MAX - 1) m of
        (Inl e, m1) \<Rightarrow>
          (if not_permitted e then
             add_reason ''not_inspectable'' (proc_path pid ''exe'' @ '' cannot be read, run the engine as root'') rep
           else add_reason ''exe_unreadable'' (''the executable path cannot be resolved: '' @ strerror e) rep, m1)
      | (Inr path, m1) \<Rightarrow>
          if length path \<le> MIN_LEN_PATH then
            (add_reason ''exe_unreadable'' ''the executable path is empty'' (rep\<lparr>cr_exe_path := path\<rparr>), m1)
          else if has_deleted_suffix path then
            (add_reason ''exe_deleted'' ''the executable no longer exists, the restore could not exec it''
               (rep\<lparr>cr_exe_path := take (length path - length DELETED_SUFFIX) path\<rparr>), m1)
          else (case sys_unit k (Access path) m1 of
              (Inr _, m2) \<Rightarrow> (rep\<lparr>cr_exe_path := path\<rparr>, m2)
            | (Inl e, m2) \<Rightarrow>
                (add_reason ''exe_not_executable'' (''the executable cannot be run by the engine: '' @ strerror e)
                   (rep\<lparr>cr_exe_path := path\<rparr>), m2)))"

section \<open>Mappings\<close>

text \<open>The report with the two buffers of the walk: the first shared mapping and the first one of a
  device.\<close>

type_synonym map_scan = "check_report \<times> string \<times> string"

fun scan_line :: "map_scan \<Rightarrow> maps_line \<Rightarrow> map_scan" where
  "scan_line (rep, first_shared, first_device) parsed =
     (case classify_maps_line parsed of
        VMA_KERNEL \<Rightarrow> (rep\<lparr>cr_kernel_maps := cr_kernel_maps rep + 1\<rparr>, first_shared, first_device)
      | VMA_SKIP_SHARED \<Rightarrow>
          (rep\<lparr>cr_shared_vmas := cr_shared_vmas rep + 1\<rparr>,
           if first_shared = [] then
             (if ml_path parsed \<noteq> [] then ml_path parsed else ''an anonymous mapping'')
           else first_shared,
           first_device)
      | VMA_DUMP \<Rightarrow>
          (let device = starts_with (ml_path parsed) ''/dev/'' in
           (rep\<lparr>cr_device_vmas := cr_device_vmas rep + (if device then 1 else 0),
                cr_dumpable_vmas := cr_dumpable_vmas rep + 1,
                cr_snapshot_bytes := cr_snapshot_bytes rep + (ml_end parsed - ml_start parsed)\<rparr>,
            first_shared,
            if device \<and> first_device = [] then ml_path parsed else first_device))
      | _ \<Rightarrow> (rep, first_shared, first_device))"

definition judge_maps :: "int \<Rightarrow> bool \<Rightarrow> map_scan \<Rightarrow> check_report" where
  "judge_maps pid err scan =
     (let (rep, first_shared, first_device) = scan;
          rep = (if err then add_reason ''gone'' ''reading the mappings failed halfway'' rep else rep);
          rep = (if cr_shared_vmas rep > 0 then
              add_reason ''shared_mapping''
                (dec_nat (unat (cr_shared_vmas rep)) @ '' shared '' @
                 (if cr_shared_vmas rep = 1 then ''mapping'' else ''mappings'') @
                 '' would be dropped silently, first '' @ first_shared) rep
            else rep);
          rep = (if cr_device_vmas rep > 0 then
              add_reason ''device_mapping''
                (first_device @ '' cannot be read through '' @ proc_path pid ''mem'') rep
            else rep);
          rep = (if unat (cr_kernel_maps rep) > KSNAP_MAX_KERNEL_MAPS then
              add_reason ''too_many_kernel_maps''
                (''the snapshot format holds '' @ dec_nat KSNAP_MAX_KERNEL_MAPS @
                 '' kernel mappings, found '' @ dec_nat (unat (cr_kernel_maps rep))) rep
            else rep)
      in if cr_dumpable_vmas rep = 0 then
           add_reason ''no_dumpable_mapping'' ''no mapping the engine would copy'' rep
         else rep)"

definition scan_maps ::
    "'w kernel \<Rightarrow> int \<Rightarrow> check_report \<Rightarrow> 'w machine \<Rightarrow> check_report \<times> 'w machine" where
  "scan_maps k pid rep m =
     (case sys_text k (OpenText (proc_path pid ''maps'')) m of
        (Inl e, m') \<Rightarrow> (add_unopened pid ''maps'' e rep, m')
      | (Inr (content, err), m') \<Rightarrow>
          (judge_maps pid err (foldl scan_line (rep, [], []) (maps_lines content)), m'))"

section \<open>Descriptors\<close>

fun scan_entries ::
    "'w kernel \<Rightarrow> int \<Rightarrow> string list \<Rightarrow> check_report \<Rightarrow> 'w machine \<Rightarrow> check_report \<times> 'w machine" where
  "scan_entries k pid [] rep m = (rep, m)"
| "scan_entries k pid (d_name # rest) rep m =
     (if \<not> isdigit (char_at d_name 0) then scan_entries k pid rest rep m
      else (case classify_fd k pid (atoi d_name) m of
          ((fd_class, target), m1) \<Rightarrow>
            if fd_class = FD_SKIP_STDIO then scan_entries k pid rest rep m1
            else scan_entries k pid rest
              (rep\<lparr>cr_open_fds := cr_open_fds rep + 1,
                   cr_volatile_fds := cr_volatile_fds rep + (if fd_class = FD_SKIP_VOLATILE then 1 else 0),
                   cr_dumpable_fds := cr_dumpable_fds rep + (if fd_class = FD_DUMP then 1 else 0)\<rparr>) m1))"

definition scan_fds ::
    "'w kernel \<Rightarrow> int \<Rightarrow> check_report \<Rightarrow> 'w machine \<Rightarrow> check_report \<times> 'w machine" where
  "scan_fds k pid rep m =
     (case sys_names k (ListDir (proc_path pid ''fd'')) m of
        (Inl e, m') \<Rightarrow> (rep, m')
      | (Inr names, m') \<Rightarrow> scan_entries k pid names rep m')"

section \<open>Children\<close>

text \<open>\<open>fscanf (stream, "%d", ...)\<close> until it converts nothing.\<close>

lemma strip_sign_length: "length (snd (strip_sign s)) \<le> length s"
  by (cases s) auto

lemma scan_long_progress: "scan_long s = Some (v, r) \<Longrightarrow> length r < length s"
proof -
  assume "scan_long s = Some (v, r)"
  then obtain neg w where "scan_magnitude 10 s = Some (neg, w, r)"
    by (auto simp: scan_long_def split: option.splits)
  then obtain t where t: "strip_sign (dropWhile isspace s) = (neg, t)" "takeWhile (base_digit 10) t \<noteq> []"
      "r = dropWhile (base_digit 10) t"
    by (cases "(10 :: nat, snd (strip_sign (dropWhile isspace s)))" rule: strip_0x.cases)
      (auto simp: scan_magnitude_def Let_def split: prod.splits if_splits)
  have "length r < length t"
    using t(2,3) by (cases t) (auto simp: less_Suc_eq_le length_dropWhile_le split: if_splits)
  also have "length t \<le> length (dropWhile isspace s)"
    using strip_sign_length[of "dropWhile isspace s"] t(1) by simp
  also have "\<dots> \<le> length s" by (rule length_dropWhile_le)
  finally show ?thesis .
qed

function count_numbers :: "bytes \<Rightarrow> nat" where
  "count_numbers s = (case scan_long s of None \<Rightarrow> 0 | Some (child, r) \<Rightarrow> Suc (count_numbers r))"
  by pat_completeness auto
termination
  by (relation "measure length") (auto dest: scan_long_progress)

declare count_numbers.simps [simp del]

definition count_children ::
    "'w kernel \<Rightarrow> int \<Rightarrow> check_report \<Rightarrow> 'w machine \<Rightarrow> check_report \<times> 'w machine" where
  "count_children k pid rep m =
     (case sys_text k (OpenText (proc_path pid (''task/'' @ dec_int pid @ ''/children''))) m of
        (Inl e, m') \<Rightarrow> (rep, m')
      | (Inr (content, err), m') \<Rightarrow>
          (rep\<lparr>cr_children := cr_children rep + int (count_numbers content)\<rparr>, m'))"

section \<open>Tracing\<close>

definition probe_ptrace ::
    "'w kernel \<Rightarrow> (errno \<Rightarrow> string) \<Rightarrow> int \<Rightarrow> check_report \<Rightarrow> 'w machine \<Rightarrow> check_report \<times> 'w machine" where
  "probe_ptrace k strerror pid rep m =
     (let rep = rep\<lparr>cr_ptrace_probed := True\<rparr> in
      case sys_unit k (Seize pid) m of
        (Inl e, m1) \<Rightarrow> (add_reason ''ptrace_refused'' (''cannot seize the process: '' @ strerror e) rep, m1)
      | (Inr _, m1) \<Rightarrow>
          (case sys_unit k (Interrupt pid) m1 of
             (Inl e, m2) \<Rightarrow>
               (add_reason ''ptrace_refused'' (''cannot interrupt the process: '' @ strerror e) rep,
                snd (sys_unit k (Detach pid) m2))
           | (Inr _, m2) \<Rightarrow>
               (case sys_int k (Waitpid pid) m2 of
                  (waited, m3) \<Rightarrow>
                    (let rep = (case waited of
                           Inr status \<Rightarrow>
                             if WIFSTOPPED status then rep\<lparr>cr_ptrace_ok := True\<rparr>
                             else add_reason ''ptrace_refused'' ''the process did not stop for the engine'' rep
                         | Inl e \<Rightarrow> add_reason ''ptrace_refused'' ''the process did not stop for the engine'' rep)
                     in case sys_unit k (Detach pid) m3 of
                          (Inl e, m4) \<Rightarrow>
                            ((add_reason ''ptrace_refused'' (''cannot detach again: '' @ strerror e) rep)
                               \<lparr>cr_ptrace_ok := False\<rparr>, m4)
                        | (Inr _, m4) \<Rightarrow> (rep, m4)))))"

section \<open>The report as text\<close>

text \<open>A name or a code between quotes, printed as it is, and a member of an object with the comma
  before it.\<close>

definition quoted :: "string \<Rightarrow> string" where
  "quoted s = DQUOTE # s @ [DQUOTE]"

definition json_member :: "string \<Rightarrow> string \<Rightarrow> string" where
  "json_member field v = '','' @ quoted field @ '':'' @ v"

text \<open>The loop over the reasons, all but the first one after a comma.\<close>

fun print_reasons :: "bool \<Rightarrow> check_reason list \<Rightarrow> string" where
  "print_reasons first [] = []"
| "print_reasons first (reason # rest) =
     (if first then [] else '','') @ ''{'' @ quoted ''code'' @ '':'' @ quoted (rs_code reason) @
     json_member ''detail'' (print_json_string (rs_detail reason)) @ ''}'' @ print_reasons False rest"

definition print_report :: "check_report \<Rightarrow> string" where
  "print_report rep =
     ''{'' @ quoted ''pid'' @ '':'' @ dec_int (cr_pid rep) @
     json_member ''dumpable'' (json_bool (cr_reasons rep = [])) @
     json_member ''reasons'' ''['' @ print_reasons True (cr_reasons rep) @ '']'' @
     json_member ''facts'' ''{'' @ quoted ''comm'' @ '':'' @ print_json_string (cr_comm rep) @
     json_member ''state'' (quoted [cr_state rep]) @
     json_member ''threads'' (dec_int (cr_threads rep)) @
     json_member ''tracer_pid'' (dec_int (cr_tracer_pid rep)) @
     json_member ''uid'' (dec_nat (unat (cr_uid rep))) @
     json_member ''rss_kb'' (dec_nat (unat (cr_rss_kb rep))) @
     json_member ''argc'' (dec_int (cr_argc rep)) @
     json_member ''exe'' (print_json_string (cr_exe_path rep)) @
     json_member ''open_fds'' (dec_int (cr_open_fds rep)) @
     json_member ''volatile_fds'' (dec_int (cr_volatile_fds rep)) @
     json_member ''dumpable_fds'' (dec_int (cr_dumpable_fds rep)) @
     json_member ''children'' (dec_int (cr_children rep)) @
     json_member ''dumpable_vmas'' (dec_nat (unat (cr_dumpable_vmas rep))) @
     json_member ''kernel_maps'' (dec_nat (unat (cr_kernel_maps rep))) @
     json_member ''shared_vmas'' (dec_nat (unat (cr_shared_vmas rep))) @
     json_member ''device_vmas'' (dec_nat (unat (cr_device_vmas rep))) @
     json_member ''snapshot_bytes'' (dec_nat (unat (cr_snapshot_bytes rep))) @
     json_member ''ptrace_probed'' (json_bool (cr_ptrace_probed rep)) @
     json_member ''ptrace_ok'' (json_bool (cr_ptrace_ok rep)) @
     ''}}'' @ [CHR 0x0A]"

section \<open>One process, or all of them\<close>

text \<open>The verdicts that need no further file.\<close>

definition cheap_verdicts :: "check_report \<Rightarrow> check_report" where
  "cheap_verdicts rep =
     (let rep = (if cr_threads rep > 1 then
              add_reason ''multi_threaded''
                (''the dump seizes the main thread only, this process has '' @ dec_int (cr_threads rep)) rep
            else rep);
          rep = (if cr_state rep = CHR ''Z'' \<or> cr_state rep = CHR ''X'' then
              add_reason ''zombie'' ''the process is dead, there is no address space to copy'' rep
            else rep);
          rep = (if cr_tracer_pid rep \<noteq> 0 then
              add_reason ''already_traced''
                (''process '' @ dec_int (cr_tracer_pid rep) @ '' is tracing it, ptrace allows one tracer'') rep
            else rep)
      in if cr_argc rep = 0 then
           add_reason ''kernel_thread'' ''kernel threads own no memory that could be snapshotted'' rep
         else rep)"

text \<open>The report of one process, up to the point where it is printed.\<close>

definition make_report ::
    "'w kernel \<Rightarrow> (errno \<Rightarrow> string) \<Rightarrow> int \<Rightarrow> bool \<Rightarrow> 'w machine \<Rightarrow> (unit rc \<times> check_report) \<times> 'w machine" where
  "make_report k strerror pid probe m =
     (case read_status_fields k pid (initial_report pid) m of
        ((ERROR, rep), m) \<Rightarrow> ((ERROR, rep), m)
      | ((OK _, rep), m) \<Rightarrow>
     (case read_cmdline_argc k pid rep m of
        (rep, m) \<Rightarrow>
     (let rep = cheap_verdicts rep in
      if cr_reasons rep \<noteq> [] then ((ERROR, rep), m)
      else
     (case probe_exe k strerror pid rep m of (rep, m) \<Rightarrow>
     (case scan_maps k pid rep m of (rep, m) \<Rightarrow>
     (case scan_fds k pid rep m of (rep, m) \<Rightarrow>
     (case count_children k pid rep m of (rep, m) \<Rightarrow>
     (case (if probe \<and> cr_reasons rep = [] then probe_ptrace k strerror pid rep m else (rep, m)) of
        (rep, m) \<Rightarrow> ((if cr_reasons rep = [] then OK () else ERROR, rep), m)))))))))"

definition check_one ::
    "'w kernel \<Rightarrow> (errno \<Rightarrow> string) \<Rightarrow> int \<Rightarrow> bool \<Rightarrow> 'w machine \<Rightarrow> int \<times> 'w machine" where
  "check_one k strerror pid probe m =
     (case make_report k strerror pid probe m of
        ((r, rep), m1) \<Rightarrow>
          (if r = OK () then KSNAP_CHECK_EXIT_DUMPABLE else KSNAP_CHECK_EXIT_BLOCKED,
           snd (call k (Puts (print_report rep)) m1)))"

fun check_entries ::
    "'w kernel \<Rightarrow> (errno \<Rightarrow> string) \<Rightarrow> int \<Rightarrow> string list \<Rightarrow> 'w machine \<Rightarrow> 'w machine" where
  "check_entries k strerror self [] m = m"
| "check_entries k strerror self (d_name # rest) m =
     (if \<not> isdigit (char_at d_name 0) then check_entries k strerror self rest m
      else let pid = atoi d_name in
        if pid \<le> 0 \<or> pid = self then check_entries k strerror self rest m
        else check_entries k strerror self rest (snd (check_one k strerror pid False m)))"

text \<open>\<open>getpid\<close> does not fail; no entry has the number -1.\<close>

definition check_all :: "'w kernel \<Rightarrow> (errno \<Rightarrow> string) \<Rightarrow> 'w machine \<Rightarrow> int \<times> 'w machine" where
  "check_all k strerror m =
     (case sys_names k (ListDir ''/proc'') m of
        (Inl e, m1) \<Rightarrow> (KSNAP_CHECK_EXIT_ERROR, m1)
      | (Inr names, m1) \<Rightarrow>
          (case sys_int k Getpid m1 of
             (self, m2) \<Rightarrow>
               (KSNAP_CHECK_EXIT_DUMPABLE,
                check_entries k strerror (case self of Inr pid \<Rightarrow> pid | Inl e \<Rightarrow> -1) names m2)))"

definition check :: "'w kernel \<Rightarrow> (errno \<Rightarrow> string) \<Rightarrow> ksnap_config \<Rightarrow> 'w machine \<Rightarrow> int \<times> 'w machine" where
  "check k strerror config m =
     (if cfg_pid config = -1 then check_all k strerror m
      else check_one k strerror (cfg_pid config) True m)"

end
