(* ===== verification/Checked.thy ===== *)
theory Checked
  imports Checker
begin

text \<open>
  What \<open>check\<close> promises: a report is one line of JSON that reads back as what was found, the exit code
  and the field \<open>dumpable\<close> say the same, no reason is lost, a process that was probed is let go,
  and a sweep only looks.
\<close>

section \<open>Reasons\<close>

text \<open>The codes of the contract.\<close>

definition reason_codes :: "string list" where
  "reason_codes =
     [''multi_threaded'', ''zombie'', ''already_traced'', ''ptrace_refused'', ''kernel_thread'',
      ''exe_unreadable'', ''exe_deleted'', ''exe_not_executable'', ''shared_mapping'', ''device_mapping'',
      ''too_many_kernel_maps'', ''no_dumpable_mapping'', ''not_inspectable'', ''gone'']"

definition reason_ok :: "check_reason \<Rightarrow> bool" where
  "reason_ok r \<longleftrightarrow> rs_code r \<in> set reason_codes \<and> length (rs_detail r) < DETAIL_LEN"

text \<open>At most \<open>n\<close> reasons were added, and the texts a report holds still fit their buffers.\<close>

definition texts_ok :: "check_report \<Rightarrow> bool" where
  "texts_ok rep \<longleftrightarrow> length (cr_comm rep) < COMM_LEN \<and> NUL \<notin> set (cr_comm rep) \<and>
     length (cr_exe_path rep) < PATH_MAX \<and> NUL \<notin> set (cr_exe_path rep)"

definition adds :: "nat \<Rightarrow> check_report \<Rightarrow> check_report \<Rightarrow> bool" where
  "adds n rep rep' \<longleftrightarrow>
     (\<exists>new. cr_reasons rep' = cr_reasons rep @ new \<and> length new \<le> n \<and> list_all reason_ok new) \<and>
     (texts_ok rep \<longrightarrow> texts_ok rep') \<and> cr_pid rep' = cr_pid rep"

lemma add_reason_nonempty [simp]: "cr_reasons (add_reason code detail rep) \<noteq> []"
  by (auto simp: add_reason_def KSNAP_MAX_REASONS_def)

lemma adds_trans: "adds i rep rep' \<Longrightarrow> adds j rep' rep'' \<Longrightarrow> i + j \<le> n \<Longrightarrow> adds n rep rep''"
  by (fastforce simp: adds_def)

lemma adds_le: "adds i rep rep' \<Longrightarrow> i \<le> j \<Longrightarrow> adds j rep rep'"
  by (fastforce simp: adds_def)

lemma adds_same:
  "cr_reasons rep' = cr_reasons rep \<Longrightarrow> cr_pid rep' = cr_pid rep \<Longrightarrow> cr_comm rep' = cr_comm rep \<Longrightarrow> cr_exe_path rep' = cr_exe_path rep \<Longrightarrow>
   adds n rep rep'"
  by (simp add: adds_def texts_ok_def)

lemma adds_refl [simp]: "adds n rep rep"
  by (simp add: adds_same)

lemma adds_reason: "code \<in> set reason_codes \<Longrightarrow> adds (Suc 0) rep (add_reason code detail rep)"
  by (auto simp: adds_def add_reason_def reason_ok_def texts_ok_def DETAIL_LEN_def)

lemma adds_reason_if:
  "code \<in> set reason_codes \<Longrightarrow> adds n rep rep' \<Longrightarrow> adds (Suc n) rep (if b then add_reason code detail rep' else rep')"
  using adds_trans[OF _ adds_reason] adds_le by auto

lemma adds_unopened: "adds (Suc 0) rep (add_unopened pid file_name e rep)"
  by (simp add: add_unopened_def reason_codes_def adds_reason)

lemma texts_okI:
  "length s < COMM_LEN \<Longrightarrow> NUL \<notin> set s \<Longrightarrow> adds n rep (rep\<lparr>cr_comm := s\<rparr>)"
  "length s < PATH_MAX \<Longrightarrow> NUL \<notin> set s \<Longrightarrow> adds n rep (rep\<lparr>cr_exe_path := s\<rparr>)"
  by (auto simp: adds_def texts_ok_def)

text \<open>One conversion: the report as it was, or with the value.\<close>

lemma scanned_one:
  "P d \<Longrightarrow> (\<And>v. xs = [SStr v] \<Longrightarrow> P (f1 v)) \<Longrightarrow> P (case xs of [SStr v] \<Rightarrow> f1 v | _ \<Rightarrow> d)"
  "P d \<Longrightarrow> (\<And>v. xs = [SChar v] \<Longrightarrow> P (f2 v)) \<Longrightarrow> P (case xs of [SChar v] \<Rightarrow> f2 v | _ \<Rightarrow> d)"
  "P d \<Longrightarrow> (\<And>v. xs = [SUint v] \<Longrightarrow> P (f3 v)) \<Longrightarrow> P (case xs of [SUint v] \<Rightarrow> f3 v | _ \<Rightarrow> d)"
  "P d \<Longrightarrow> (\<And>v. xs = [SInt v] \<Longrightarrow> P (f4 v)) \<Longrightarrow> P (case xs of [SInt v] \<Rightarrow> f4 v | _ \<Rightarrow> d)"
  "P d \<Longrightarrow> (\<And>v. xs = [SUlong v] \<Longrightarrow> P (f5 v)) \<Longrightarrow> P (case xs of [SUlong v] \<Rightarrow> f5 v | _ \<Rightarrow> d)"
  by (simp_all split: list.splits scanned.splits)

lemma if_rule: "(b \<Longrightarrow> P x) \<Longrightarrow> (\<not> b \<Longrightarrow> P y) \<Longrightarrow> P (if b then x else y)"
  by simp

lemma status_line_cases:
  assumes "P rep"
    and "\<And>v. sscanf (status_format ''Name:'' (FLine (COMM_LEN - 1))) line = [SStr v] \<Longrightarrow> P (rep\<lparr>cr_comm := v\<rparr>)"
    and "\<And>v. sscanf (status_format ''State:'' FChar) line = [SChar v] \<Longrightarrow> P (rep\<lparr>cr_state := v\<rparr>)"
    and "\<And>v. P (rep\<lparr>cr_uid := v\<rparr>)" and "\<And>v. P (rep\<lparr>cr_threads := v\<rparr>)"
    and "\<And>v. P (rep\<lparr>cr_tracer_pid := v\<rparr>)" and "\<And>v. P (rep\<lparr>cr_rss_kb := v\<rparr>)"
  shows "P (status_line rep line)"
  unfolding status_line_def
  by (intro if_rule[where P = P] scanned_one[where P = P] assms)

lemma scanned_comm:
  assumes "sscanf (status_format ''Name:'' (FLine (COMM_LEN - 1))) line = [SStr v]"
  shows "length v < COMM_LEN" "NUL \<notin> set v"
proof -
  have "length v \<le> COMM_LEN - 1"
    using assms
    by (auto simp: sscanf_def status_format_def fmt_text_def isspace_def Let_def split: option.splits if_splits list.splits)
  then show "length v < COMM_LEN" by (simp add: COMM_LEN_def)
  show "NUL \<notin> set v"
    using sscanf_no_NUL[of v "status_format ''Name:'' (FLine (COMM_LEN - 1))" line] assms by simp
qed

lemma adds_status_line: "adds 0 rep (status_line rep line)"
  by (rule status_line_cases) (intro texts_okI scanned_comm adds_same; simp)+

lemma adds_status_lines: "adds 0 rep (foldl status_line rep lines)"
  by (induction lines arbitrary: rep) (auto intro: adds_trans[OF adds_status_line])

lemma adds_read_status_fields:
  assumes "read_status_fields k pid rep m = ((r, rep'), m')"
  shows "r = ERROR \<Longrightarrow> adds 1 rep rep' \<and> (cr_reasons rep = [] \<longrightarrow> cr_reasons rep' \<noteq> [])" "r = OK () \<Longrightarrow> adds 0 rep rep'"
proof -
  have "cr_reasons rep = [] \<Longrightarrow> cr_reasons (add_unopened pid name e rep) \<noteq> []" for name e
    by (simp add: add_unopened_def add_reason_def KSNAP_MAX_REASONS_def)
  then show "r = ERROR \<Longrightarrow> adds 1 rep rep' \<and> (cr_reasons rep = [] \<longrightarrow> cr_reasons rep' \<noteq> [])" "r = OK () \<Longrightarrow> adds 0 rep rep'"
    using assms by (auto simp: read_status_fields_def adds_unopened adds_status_lines split: prod.splits sum.splits)
qed

lemma adds_read_cmdline_argc: "read_cmdline_argc k pid rep m = (rep', m') \<Longrightarrow> adds 0 rep rep'"
  by (auto simp: read_cmdline_argc_def adds_same split: prod.splits sum.splits)

lemma adds_cheap_verdicts: "adds 4 rep (cheap_verdicts rep)"
proof -
  have "adds (Suc (Suc (Suc (Suc 0)))) rep (cheap_verdicts rep)"
    unfolding cheap_verdicts_def Let_def by (intro adds_reason_if adds_refl) (simp_all add: reason_codes_def)
  then show ?thesis by (simp add: numeral_eq_Suc)
qed

lemma adds_probe_exe:
  assumes "probe_exe k strerror pid rep m = (rep', m')"
  shows "adds 1 rep rep'"
proof -
  have then_reason: "adds 1 rep (add_reason code detail rep1)"
    if "code \<in> set reason_codes" "adds 0 rep rep1" for code detail rep1
    using adds_trans[OF that(2) adds_reason[OF that(1)]] by simp
  have path: "adds n rep (rep\<lparr>cr_exe_path := take i path\<rparr>)"
    if "sys_readlink k (proc_path pid ''exe'') (PATH_MAX - 1) m = (Inr path, m1)" for n path m1 i
    using sys_readlink_result[OF that] by (intro texts_okI(2)) (auto simp: PATH_MAX_def min_def dest: in_set_takeD)
  have codes: "''exe_unreadable'' \<in> set reason_codes" "''exe_deleted'' \<in> set reason_codes"
    "''exe_not_executable'' \<in> set reason_codes" "''not_inspectable'' \<in> set reason_codes"
    by (simp_all add: reason_codes_def)
  obtain x m1 where x: "sys_readlink k (proc_path pid ''exe'') (PATH_MAX - 1) m = (x, m1)" by fastforce
  show ?thesis
  proof (cases x)
    case (Inl e)
    then show ?thesis
      using assms x then_reason[OF codes(4) adds_refl] then_reason[OF codes(1) adds_refl]
      by (auto simp: probe_exe_def split: if_splits)
  next
    case (Inr path)
    note all = path[OF x[unfolded Inr]]
    have whole: "adds n rep (rep\<lparr>cr_exe_path := path\<rparr>)" for n using all[of n "length path"] by simp
    show ?thesis
      using assms x Inr then_reason[OF codes(1) whole] then_reason[OF codes(2) all] then_reason[OF codes(3) whole] whole
      by (auto simp: probe_exe_def split: if_splits prod.splits sum.splits)
  qed
qed

lemma adds_scan_line: "adds 0 (fst scan) (fst (scan_line scan parsed))"
  by (cases scan) (auto simp: adds_same Let_def split: vma_class.split)

lemma adds_scan_lines: "adds 0 (fst scan) (fst (foldl scan_line scan ps))"
proof (induction ps arbitrary: scan)
  case (Cons p ps)
  then show ?case using adds_trans[OF adds_scan_line Cons.IH] by simp
qed simp

lemma adds_judge_maps: "adds 5 (fst scan) (judge_maps pid err scan)"
proof -
  obtain rep fs fd where scan: "scan = (rep, fs, fd)" by (cases scan)
  have "adds (Suc (Suc (Suc (Suc (Suc 0))))) rep (judge_maps pid err scan)"
    unfolding judge_maps_def scan prod.case Let_def
    by (intro adds_reason_if adds_refl) (simp_all add: reason_codes_def)
  then show ?thesis by (simp add: scan numeral_eq_Suc)
qed

lemma adds_scan_maps: "scan_maps k pid rep m = (rep', m') \<Longrightarrow> adds 5 rep rep'"
  using adds_le[OF adds_unopened, of 5]
    adds_trans[OF adds_scan_lines[of "(rep, [], [])"] adds_judge_maps, of 5]
  by (auto simp: scan_maps_def split: prod.splits sum.splits)

lemma adds_scan_entries: "scan_entries k pid names rep m = (rep', m') \<Longrightarrow> adds 0 rep rep'"
proof (induction names arbitrary: rep m)
  case (Cons d_name names)
  obtain c t m1 where cls: "classify_fd k pid (atoi d_name) m = ((c, t), m1)" by (metis surj_pair)
  have "\<exists>rep1 m1. scan_entries k pid names rep1 m1 = (rep', m') \<and> adds 0 rep rep1"
    using Cons.prems cls by (auto simp: adds_same split: if_splits)
  then show ?case using Cons.IH adds_trans[of 0 _ _ 0 _ 0] by fastforce
qed simp

lemma adds_scan_fds: "scan_fds k pid rep m = (rep', m') \<Longrightarrow> adds 0 rep rep'"
  by (auto simp: scan_fds_def adds_scan_entries split: prod.splits sum.splits)

lemma adds_count_children: "count_children k pid rep m = (rep', m') \<Longrightarrow> adds 0 rep rep'"
  by (auto simp: count_children_def adds_same split: prod.splits sum.splits)

lemma probe_ptrace_cases:
  assumes "probe_ptrace k strerror pid rep m = (rep', m')"
  defines "rep1 \<equiv> rep\<lparr>cr_ptrace_probed := True\<rparr>" and "refuse \<equiv> add_reason ''ptrace_refused''"
  shows "(\<exists>d. rep' = refuse d rep1) \<or> rep' = rep1\<lparr>cr_ptrace_ok := True\<rparr> \<or>
    (\<exists>d. rep' = (refuse d (rep1\<lparr>cr_ptrace_ok := True\<rparr>))\<lparr>cr_ptrace_ok := False\<rparr>) \<or>
    (\<exists>d d'. rep' = (refuse d (refuse d' rep1))\<lparr>cr_ptrace_ok := False\<rparr>)"
proof -
  obtain x1 m1 where 1: "sys_unit k (Seize pid) m = (x1, m1)" by fastforce
  obtain x2 m2 where 2: "sys_unit k (Interrupt pid) m1 = (x2, m2)" by fastforce
  obtain x3 m3 where 3: "sys_int k (Waitpid pid) m2 = (x3, m3)" by fastforce
  obtain x4 m4 where 4: "sys_unit k (Detach pid) m3 = (x4, m4)" by fastforce
  show ?thesis
    using assms(1) 1 2 3 4
    by (cases x1; cases x2; cases x3; cases x4) (auto simp: probe_ptrace_def Let_def rep1_def refuse_def split: if_splits)
qed

lemma adds_probe_ptrace:
  assumes "probe_ptrace k strerror pid rep m = (rep', m')"
  shows "adds 2 rep rep'"
    "cr_reasons rep' = [] \<Longrightarrow> cr_ptrace_ok rep'"
    "cr_ptrace_probed rep'"
proof -
  have code: "''ptrace_refused'' \<in> set reason_codes" by (simp add: reason_codes_def)
  let ?new = "\<lambda>d. \<lparr>rs_code = ''ptrace_refused'', rs_detail = take (DETAIL_LEN - 1) d\<rparr>"
  have new: "reason_ok (?new d)" for d using code by (simp add: reason_ok_def DETAIL_LEN_def)
  have "cr_reasons rep' \<in> {cr_reasons rep} \<union> range (\<lambda>d. cr_reasons rep @ [?new d]) \<union>
      range (\<lambda>(d, e). cr_reasons rep @ [?new d, ?new e])"
    using probe_ptrace_cases[OF assms] by (elim disjE exE) (auto simp: add_reason_def)
  moreover have "cr_pid rep' = cr_pid rep"
    using probe_ptrace_cases[OF assms] by (elim disjE exE) (auto simp: add_reason_def)
  moreover have "texts_ok rep' \<longleftrightarrow> texts_ok rep"
    using probe_ptrace_cases[OF assms] by (elim disjE exE) (auto simp: add_reason_def texts_ok_def)
  ultimately show "adds 2 rep rep'" using new by (auto simp: adds_def)
  show "cr_reasons rep' = [] \<Longrightarrow> cr_ptrace_ok rep'"
    using probe_ptrace_cases[OF assms] by (elim disjE exE) simp_all
  show "cr_ptrace_probed rep'"
    using probe_ptrace_cases[OF assms] by (elim disjE exE) (simp_all add: add_reason_def)
qed

section \<open>A report and its verdict\<close>

text \<open>The three ways a report comes about: the process cannot be looked at, it is out of scope, or every
  part of it was looked at.\<close>

lemma make_report_cases:
  assumes "make_report k strerror pid probe m = ((r, rep), m')"
  obtains (unread) "read_status_fields k pid (initial_report pid) m = ((ERROR, rep), m')" "r = ERROR"
  | (cheap) rep1 m1 rep2 where "read_status_fields k pid (initial_report pid) m = ((OK (), rep1), m1)"
      "read_cmdline_argc k pid rep1 m1 = (rep2, m')" "rep = cheap_verdicts rep2" "cr_reasons rep \<noteq> []" "r = ERROR"
  | (full) rep1 m1 rep2 m2 rep3 m3 rep4 m4 rep5 m5 rep6 m6 where
      "read_status_fields k pid (initial_report pid) m = ((OK (), rep1), m1)"
      "read_cmdline_argc k pid rep1 m1 = (rep2, m2)" "cr_reasons (cheap_verdicts rep2) = []"
      "probe_exe k strerror pid (cheap_verdicts rep2) m2 = (rep3, m3)" "scan_maps k pid rep3 m3 = (rep4, m4)"
      "scan_fds k pid rep4 m4 = (rep5, m5)" "count_children k pid rep5 m5 = (rep6, m6)"
      "(if probe \<and> cr_reasons rep6 = [] then probe_ptrace k strerror pid rep6 m6 else (rep6, m6)) = (rep, m')"
      "r = (if cr_reasons rep = [] then OK () else ERROR)"
proof -
  obtain s rep1 m1 where 1: "read_status_fields k pid (initial_report pid) m = ((s, rep1), m1)" by (metis surj_pair)
  show ?thesis
  proof (cases s)
    case ERROR
    then show ?thesis using assms 1 unread by (simp add: make_report_def)
  next
    case (OK u)
    obtain rep2 m2 where 2: "read_cmdline_argc k pid rep1 m1 = (rep2, m2)" by fastforce
    show ?thesis
    proof (cases "cr_reasons (cheap_verdicts rep2) = []")
      case False
      then show ?thesis using assms 1 2 OK cheap by (simp add: make_report_def Let_def)
    next
      case True
      obtain rep3 m3 where 3: "probe_exe k strerror pid (cheap_verdicts rep2) m2 = (rep3, m3)" by fastforce
      obtain rep4 m4 where 4: "scan_maps k pid rep3 m3 = (rep4, m4)" by fastforce
      obtain rep5 m5 where 5: "scan_fds k pid rep4 m4 = (rep5, m5)" by fastforce
      obtain rep6 m6 where 6: "count_children k pid rep5 m5 = (rep6, m6)" by fastforce
      obtain rep7 m7 where 7: "(if probe \<and> cr_reasons rep6 = [] then probe_ptrace k strerror pid rep6 m6 else (rep6, m6)) =
          (rep7, m7)" by fastforce
      have "rep7 = rep" "m7 = m'" "r = (if cr_reasons rep = [] then OK () else ERROR)"
        using assms 1 2 3 4 5 6 7 OK True by (auto simp: make_report_def Let_def)
      then show ?thesis using full 1 2 3 4 5 6 7 OK True by simp
    qed
  qed
qed

definition report_wf :: "check_report \<Rightarrow> bool" where
  "report_wf rep \<longleftrightarrow> list_all reason_ok (cr_reasons rep) \<and> length (cr_reasons rep) < KSNAP_MAX_REASONS \<and> texts_ok rep"

lemma adds_initial:
  "adds n (initial_report pid) rep \<Longrightarrow> n < KSNAP_MAX_REASONS \<Longrightarrow> report_wf rep \<and> cr_pid rep = pid"
  by (auto simp: adds_def report_wf_def initial_report_def texts_ok_def COMM_LEN_def PATH_MAX_def)

lemma adds_to_empty: "adds n rep rep' \<Longrightarrow> cr_reasons rep' = [] \<Longrightarrow> adds 0 rep rep'"
  by (auto simp: adds_def)

lemma make_report_wf:
  assumes "make_report k strerror pid probe m = ((r, rep), m')"
  shows "report_wf rep" "r = OK () \<longleftrightarrow> cr_reasons rep = []" "cr_pid rep = pid"
proof -
  have empty: "cr_reasons (initial_report pid) = []" by (simp add: initial_report_def)
  from assms have "adds 6 (initial_report pid) rep \<and> (r = OK () \<longleftrightarrow> cr_reasons rep = [])"
  proof (cases rule: make_report_cases)
    case unread
    then show ?thesis using adds_read_status_fields(1)[OF unread(1)] empty adds_le by fastforce
  next
    case (cheap rep1 m1 rep2)
    have "adds 4 (initial_report pid) rep"
      using adds_trans[OF adds_read_status_fields(2)[OF cheap(1)] adds_read_cmdline_argc[OF cheap(2)], of 0]
        adds_trans[OF _ adds_cheap_verdicts[of rep2], of 0 _ 4] cheap(3) by simp
    then show ?thesis using cheap adds_le by fastforce
  next
    case (full rep1 m1 rep2 m2 rep3 m3 rep4 m4 rep5 m5 rep6 m6)
    have "adds 4 (initial_report pid) (cheap_verdicts rep2)"
      using adds_trans[OF adds_read_status_fields(2)[OF full(1)] adds_read_cmdline_argc[OF full(2)], of 0]
        adds_trans[OF _ adds_cheap_verdicts[of rep2], of 0 _ 4] by simp
    then have "adds 0 (initial_report pid) (cheap_verdicts rep2)"
      using full(3) by (rule adds_to_empty)
    from adds_trans[OF this adds_probe_exe[OF full(4)], of 1] have "adds 1 (initial_report pid) rep3" by simp
    from adds_trans[OF this adds_scan_maps[OF full(5)], of 6] have "adds 6 (initial_report pid) rep4" by simp
    from adds_trans[OF this adds_scan_fds[OF full(6)], of 6] have "adds 6 (initial_report pid) rep5" by simp
    from adds_trans[OF this adds_count_children[OF full(7)], of 6] have 6: "adds 6 (initial_report pid) rep6" by simp
    have "adds 6 (initial_report pid) rep"
    proof (cases "probe \<and> cr_reasons rep6 = []")
      case True
      then have p: "probe_ptrace k strerror pid rep6 m6 = (rep, m')" using full(8) by simp
      show ?thesis using adds_trans[OF adds_to_empty[OF 6] adds_probe_ptrace(1)[OF p], of 6] True by simp
    next
      case False
      then show ?thesis using 6 full(8) by (auto split: if_splits)
    qed
    then show ?thesis using full(9) by simp
  qed
  then show "report_wf rep" "r = OK () \<longleftrightarrow> cr_reasons rep = []" "cr_pid rep = pid"
    using adds_initial[of 6] by (auto simp: KSNAP_MAX_REASONS_def)
qed

section \<open>The line that is printed\<close>

definition plain :: "string \<Rightarrow> bool" where
  "plain s \<longleftrightarrow> list_all (\<lambda>c. 0x20 \<le> (of_char c :: nat) \<and> c \<noteq> DQUOTE \<and> c \<noteq> BACKSLASH) s"

lemma quoted_plain: "plain s \<Longrightarrow> quoted s = print_json_string s"
proof -
  assume s: "plain s"
  then have "NUL \<notin> set s" by (fastforce simp: plain_def list_all_iff)
  moreover have "concat (List.map escape_json s) = s"
    using s by (induction s) (auto simp: plain_def escape_json_def)
  ultimately show ?thesis by (simp add: quoted_def print_json_string_def c_str_id)
qed

text \<open>The report as a value.\<close>

definition json_of_reason :: "check_reason \<Rightarrow> json" where
  "json_of_reason r = JObj [(''code'', JStr (rs_code r)), (''detail'', JStr (c_str (rs_detail r)))]"

definition json_of_facts :: "check_report \<Rightarrow> json" where
  "json_of_facts rep = JObj
     [(''comm'', JStr (cr_comm rep)), (''state'', JStr [cr_state rep]), (''threads'', JNum (cr_threads rep)),
      (''tracer_pid'', JNum (cr_tracer_pid rep)), (''uid'', JNum (uint (cr_uid rep))),
      (''rss_kb'', JNum (uint (cr_rss_kb rep))), (''argc'', JNum (cr_argc rep)), (''exe'', JStr (cr_exe_path rep)),
      (''open_fds'', JNum (cr_open_fds rep)), (''volatile_fds'', JNum (cr_volatile_fds rep)),
      (''dumpable_fds'', JNum (cr_dumpable_fds rep)), (''children'', JNum (cr_children rep)),
      (''dumpable_vmas'', JNum (uint (cr_dumpable_vmas rep))), (''kernel_maps'', JNum (uint (cr_kernel_maps rep))),
      (''shared_vmas'', JNum (uint (cr_shared_vmas rep))), (''device_vmas'', JNum (uint (cr_device_vmas rep))),
      (''snapshot_bytes'', JNum (uint (cr_snapshot_bytes rep))), (''ptrace_probed'', JBool (cr_ptrace_probed rep)),
      (''ptrace_ok'', JBool (cr_ptrace_ok rep))]"

definition json_of_report :: "check_report \<Rightarrow> json" where
  "json_of_report rep = JObj
     [(''pid'', JNum (cr_pid rep)), (''dumpable'', JBool (cr_reasons rep = [])),
      (''reasons'', JArr (List.map json_of_reason (cr_reasons rep))), (''facts'', json_of_facts rep)]"

lemma c_str_c_str [simp]: "c_str (c_str s) = c_str s"
  by (simp add: c_str_id)

lemma print_json_string_c_str: "print_json_string (c_str s) = print_json_string s"
  by (simp add: print_json_string_def)

lemma dec_int_uint: "dec_int (uint w) = dec_nat (unat w)"
  by (simp add: dec_int_def)

lemma reason_codes_plain: "code \<in> set reason_codes \<Longrightarrow> plain code"
proof -
  have "list_all plain reason_codes" by code_simp
  then show "code \<in> set reason_codes \<Longrightarrow> plain code" by (simp add: list_all_iff)
qed

lemma field_names_plain:
  "list_all plain [''code'', ''detail'', ''pid'', ''dumpable'', ''reasons'', ''facts'', ''comm'', ''state'',
     ''threads'', ''tracer_pid'', ''uid'', ''rss_kb'', ''argc'', ''exe'', ''open_fds'', ''volatile_fds'',
     ''dumpable_fds'', ''children'', ''dumpable_vmas'', ''kernel_maps'', ''shared_vmas'', ''device_vmas'',
     ''snapshot_bytes'', ''ptrace_probed'', ''ptrace_ok'']"
  by code_simp

lemma print_reasons_render:
  assumes "list_all reason_ok rs"
  shows "print_reasons first rs = (if rs = [] then [] else (if first then [] else '','') @
    render_items (List.map json_of_reason rs))"
  using assms
proof (induction rs arbitrary: first)
  case (Cons r rs)
  have r: "print_json_string (rs_code r) = quoted (rs_code r)"
    using Cons.prems reason_codes_plain by (auto simp: reason_ok_def quoted_plain)
  have names_eq: "print_json_string ''code'' = quoted ''code''" "print_json_string ''detail'' = quoted ''detail''"
    using field_names_plain by (simp_all only: list.pred_inject(2) quoted_plain)
  show ?case
    using Cons by (cases rs) (auto simp: json_of_reason_def json_member_def r names_eq print_json_string_c_str)
qed simp

lemma print_report_render:
  assumes "list_all reason_ok (cr_reasons rep)" "plain [cr_state rep]"
  shows "print_report rep = render (json_of_report rep) @ [CHR 0x0A]"
proof -
  note eq = field_names_plain[unfolded list.pred_inject(2)]
  have state: "print_json_string [cr_state rep] = quoted [cr_state rep]" using quoted_plain[OF assms(2)] by simp
  show ?thesis
    using assms(1) eq
    by (simp add: print_report_def json_of_report_def json_of_facts_def json_member_def print_reasons_render
        state dec_int_uint quoted_plain del: dec_int_def)
qed

lemma json_of_report_ok: "report_wf rep \<Longrightarrow> plain [cr_state rep] \<Longrightarrow> json_ok (json_of_report rep)"
proof -
  assume wf: "report_wf rep" and state: "plain [cr_state rep]"
  have "plain s \<Longrightarrow> NUL \<notin> set s" for s by (fastforce simp: plain_def list_all_iff)
  moreover from this have "json_ok (json_of_reason r)" if "r \<in> set (cr_reasons rep)" for r
    using that wf reason_codes_plain by (auto simp: report_wf_def list_all_iff reason_ok_def json_of_reason_def)
  moreover have "cr_state rep \<noteq> NUL" using state by (auto simp: plain_def)
  ultimately show ?thesis
    using wf by (auto simp: json_of_report_def json_of_facts_def report_wf_def texts_ok_def)
qed

lemma digits_printable: "list_all isdigit ds \<Longrightarrow> list_all (\<lambda>c. 0x20 \<le> (of_char c :: nat)) ds"
  by (auto simp: list_all_iff isdigit_def)

lemma render_printable:
  "list_all (\<lambda>c. 0x20 \<le> (of_char c :: nat)) (render j)"
  "list_all (\<lambda>c. 0x20 \<le> (of_char c :: nat)) (render_items js)"
  "list_all (\<lambda>c. 0x20 \<le> (of_char c :: nat)) (render_members kvs)"
proof (induction j and js and kvs rule: render_render_items_render_members.induct)
  case (2 i)
  then show ?case using digits_printable[OF dec_nat_digits(1)] by (simp add: dec_int_def)
next
  case (3 s)
  then show ?case using print_json_string_printable by (auto simp: list_all_iff)
next
  case (10 key j)
  then show ?case using print_json_string_printable by (auto simp: list_all_iff)
next
  case (11 key j p kvs)
  then show ?case using print_json_string_printable by (auto simp: list_all_iff)
qed (simp_all add: json_bool_def)

text \<open>One line, which reads back as the report.\<close>

definition is_line :: "string \<Rightarrow> bool" where
  "is_line s \<longleftrightarrow> s \<noteq> [] \<and> last s = CHR 0x0A \<and> CHR 0x0A \<notin> set (butlast s)"

lemma print_report_line:
  assumes "report_wf rep" "plain [cr_state rep]"
  shows "is_line (print_report rep)" "parse_json (print_report rep) = Some (json_of_report rep)"
proof -
  have eq: "print_report rep = render (json_of_report rep) @ [CHR 0x0A]"
    using assms print_report_render by (simp add: report_wf_def)
  have "CHR 0x0A \<notin> set (render (json_of_report rep))"
    using render_printable(1)[of "json_of_report rep"] by (force simp: list_all_iff)
  then show "is_line (print_report rep)" by (simp add: is_line_def eq)
  show "parse_json (print_report rep) = Some (json_of_report rep)"
    using parse_render[OF json_of_report_ok[OF assms], of "[CHR 0x0A]"] by (simp add: eq isspace_def)
qed

section \<open>The state letter\<close>

text \<open>What the kernel says of \<open>/proc/<pid>/status\<close>: a \<open>State\<close> line holds a letter.\<close>

definition procfs_status_laws :: "'w kernel \<Rightarrow> bool" where
  "procfs_status_laws k \<longleftrightarrow>
     (\<forall>pid w content err line c. fst (k (OpenText (proc_path pid ''status'')) w) = RText content err \<longrightarrow>
        line \<in> set (stream_lines 512 content) \<longrightarrow> sscanf (status_format ''State:'' FChar) line = [SChar c] \<longrightarrow>
        plain [c])"

lemma procfs_status_lawsD:
  "procfs_status_laws k \<Longrightarrow> fst (k (OpenText (proc_path pid ''status'')) w) = RText content err \<Longrightarrow>
   line \<in> set (stream_lines 512 content) \<Longrightarrow> sscanf (status_format ''State:'' FChar) line = [SChar c] \<Longrightarrow> plain [c]"
  unfolding procfs_status_laws_def by blast

lemma status_lines_state:
  "cr_state (foldl status_line rep lines) = cr_state rep \<or>
   (\<exists>line \<in> set lines. sscanf (status_format ''State:'' FChar) line = [SChar (cr_state (foldl status_line rep lines))])"
proof (induction lines rule: rev_induct)
  case (snoc line lines)
  let ?r = "foldl status_line rep lines"
  have "cr_state (status_line ?r line) = cr_state ?r \<or>
      sscanf (status_format ''State:'' FChar) line = [SChar (cr_state (status_line ?r line))]"
    by (rule status_line_cases) simp_all
  then show ?case using snoc by auto
qed simp

lemma read_status_fields_state:
  assumes "read_status_fields k pid rep m = ((r, rep'), m')" "procfs_status_laws k" "plain [cr_state rep]"
  shows "plain [cr_state rep']"
proof (cases r)
  case ERROR
  then show ?thesis
    using assms(1,3)
    by (auto simp: read_status_fields_def add_unopened_def add_reason_def split: prod.splits sum.splits)
next
  case (OK u)
  then obtain content err where opened: "sys_text k (OpenText (proc_path pid ''status'')) m = (Inr (content, err), m')"
    and rep': "rep' = foldl status_line rep (stream_lines 512 content)"
    using assms(1) by (auto simp: read_status_fields_def split: prod.splits sum.splits)
  have reply: "fst (k (OpenText (proc_path pid ''status'')) (world m)) = RText content err"
    using opened by (cases "fst (k (OpenText (proc_path pid ''status'')) (world m))")
      (auto simp: sys_text_def call_def split: prod.splits)
  then show ?thesis
    using status_lines_state[of rep "stream_lines 512 content"] procfs_status_lawsD[OF assms(2) reply] assms(3) rep'
    by auto
qed

text \<open>The facts that the later steps of a check leave alone: those of \<open>status\<close> and \<open>cmdline\<close>, and the
  counts of the mappings and the descriptors.\<close>

definition cheap_facts :: "check_report \<Rightarrow> char \<times> int \<times> int \<times> int" where
  "cheap_facts rep = (cr_state rep, cr_threads rep, cr_tracer_pid rep, cr_argc rep)"

definition map_facts :: "check_report \<Rightarrow> u32 \<times> u32 \<times> u32 \<times> u32 \<times> u64" where
  "map_facts rep = (cr_kernel_maps rep, cr_shared_vmas rep, cr_device_vmas rep, cr_dumpable_vmas rep,
     cr_snapshot_bytes rep)"

definition fd_facts :: "check_report \<Rightarrow> int \<times> int \<times> int" where
  "fd_facts rep = (cr_open_fds rep, cr_volatile_fds rep, cr_dumpable_fds rep)"

lemmas facts_defs = cheap_facts_def map_facts_def fd_facts_def

lemma add_reason_facts [simp]:
  "cheap_facts (add_reason code detail rep) = cheap_facts rep"
  "map_facts (add_reason code detail rep) = map_facts rep"
  "fd_facts (add_reason code detail rep) = fd_facts rep"
  by (simp_all add: add_reason_def facts_defs)

lemma scan_lines_facts:
  "cheap_facts (fst (foldl scan_line scan ps)) = cheap_facts (fst scan)"
  "fd_facts (fst (foldl scan_line scan ps)) = fd_facts (fst scan)"
proof -
  have one: "cheap_facts (fst (scan_line s p)) = cheap_facts (fst s)" "fd_facts (fst (scan_line s p)) = fd_facts (fst s)" for s p
    by (cases s; simp add: facts_defs Let_def split: vma_class.split)+
  show "cheap_facts (fst (foldl scan_line scan ps)) = cheap_facts (fst scan)"
    "fd_facts (fst (foldl scan_line scan ps)) = fd_facts (fst scan)"
    by (induction ps arbitrary: scan) (simp_all add: one)
qed

lemma judge_maps_facts:
  "cheap_facts (judge_maps pid err scan) = cheap_facts (fst scan)"
  "map_facts (judge_maps pid err scan) = map_facts (fst scan)"
  "fd_facts (judge_maps pid err scan) = fd_facts (fst scan)"
  by (cases scan; simp add: judge_maps_def Let_def)+

lemma scan_entries_facts:
  "scan_entries k pid entries rep m = (rep', m') \<Longrightarrow> cheap_facts rep' = cheap_facts rep \<and> map_facts rep' = map_facts rep"
  by (induction k pid entries rep m rule: scan_entries.induct)
    (auto simp: cheap_facts_def map_facts_def split: if_splits prod.splits)

lemma later_facts:
  "cheap_facts (cheap_verdicts rep) = cheap_facts rep"
  "probe_exe k strerror pid rep m = (rep', m') \<Longrightarrow> cheap_facts rep' = cheap_facts rep \<and> map_facts rep' = map_facts rep \<and>
     fd_facts rep' = fd_facts rep"
  "scan_maps k pid rep m = (rep', m') \<Longrightarrow> cheap_facts rep' = cheap_facts rep \<and> fd_facts rep' = fd_facts rep"
  "scan_fds k pid rep m = (rep', m') \<Longrightarrow> cheap_facts rep' = cheap_facts rep \<and> map_facts rep' = map_facts rep"
  "count_children k pid rep m = (rep', m') \<Longrightarrow> cheap_facts rep' = cheap_facts rep \<and> map_facts rep' = map_facts rep \<and>
     fd_facts rep' = fd_facts rep"
  "probe_ptrace k strerror pid rep m = (rep', m') \<Longrightarrow> cheap_facts rep' = cheap_facts rep \<and>
     map_facts rep' = map_facts rep \<and> fd_facts rep' = fd_facts rep"
  subgoal by (simp add: cheap_verdicts_def Let_def)
  subgoal
    by (auto simp: probe_exe_def split: prod.splits sum.splits if_splits) (simp_all add: facts_defs add_reason_def)
  subgoal by (auto simp: scan_maps_def judge_maps_facts scan_lines_facts add_unopened_def split: prod.splits sum.splits)
  subgoal by (auto simp: scan_fds_def split: prod.splits sum.splits dest: scan_entries_facts)
  subgoal by (auto simp: count_children_def facts_defs split: prod.splits sum.splits)
  subgoal by (drule probe_ptrace_cases, elim disjE exE) (simp_all add: facts_defs add_reason_def)
  done

lemma read_cmdline_argc_state: "read_cmdline_argc k pid rep m = (rep', m') \<Longrightarrow> cr_state rep' = cr_state rep"
  by (auto simp: read_cmdline_argc_def split: prod.splits sum.splits)

lemma make_report_state:
  assumes "make_report k strerror pid probe m = ((r, rep), m')" "procfs_status_laws k"
  shows "plain [cr_state rep]"
proof -
  have start: "plain [cr_state (initial_report pid)]" by (simp add: initial_report_def plain_def)
  note status = read_status_fields_state[OF _ assms(2) start]
  from assms(1) show ?thesis
  proof (cases rule: make_report_cases)
    case unread
    then show ?thesis using status by blast
  next
    case (cheap rep1 m1 rep2)
    then show ?thesis
      using status[OF cheap(1)] read_cmdline_argc_state[OF cheap(2)] later_facts(1)[of rep2]
      by (simp add: cheap_facts_def)
  next
    case (full rep1 m1 rep2 m2 rep3 m3 rep4 m4 rep5 m5 rep6 m6)
    have "cheap_facts rep = cheap_facts rep6"
      using full(8) later_facts(6) by (fastforce split: if_splits)
    then have "cheap_facts rep = cheap_facts rep2"
      using later_facts(1)[of rep2] later_facts(2)[OF full(4)] later_facts(3)[OF full(5)] later_facts(4)[OF full(6)]
        later_facts(5)[OF full(7)] by simp
    then show ?thesis
      using status[OF full(1)] read_cmdline_argc_state[OF full(2)] by (simp add: cheap_facts_def)
  qed
qed

section \<open>What the calls of a check do to the process\<close>

text \<open>Without the probe nothing is done to it. The probe stops it at most once, and never leaves
  before it is released.\<close>

context inspection
begin

lemma read_status_fields:
  "read_status_fields k pid rep m = (r, m') \<Longrightarrow> R m0 m \<Longrightarrow> R m0 m'"
  by (auto simp: read_status_fields_def split: prod.splits sum.splits dest: bound(4))

lemma read_cmdline_argc: "read_cmdline_argc k pid rep m = (r, m') \<Longrightarrow> R m0 m \<Longrightarrow> R m0 m'"
  by (auto simp: read_cmdline_argc_def split: prod.splits sum.splits dest: bound(4))

lemma probe_exe: "probe_exe k strerror pid rep m = (r, m') \<Longrightarrow> R m0 m \<Longrightarrow> R m0 m'"
  by (auto simp: probe_exe_def split: prod.splits sum.splits if_splits) (fastforce dest: bound(1) bound(9))+

lemma scan_maps: "scan_maps k pid rep m = (r, m') \<Longrightarrow> R m0 m \<Longrightarrow> R m0 m'"
  by (auto simp: scan_maps_def split: prod.splits sum.splits dest: bound(4))

lemma scan_entries: "scan_entries k pid entries rep m = (r, m') \<Longrightarrow> R m0 m \<Longrightarrow> R m0 m'"
proof (induction entries arbitrary: rep m)
  case (Cons d_name entries)
  obtain c m1 where cls: "classify_fd k pid (atoi d_name) m = (c, m1)" by fastforce
  then have "R m0 m1" using Cons.prems(2) by (rule classify_fd)
  then show ?case using Cons cls by (auto split: if_splits prod.splits)
qed simp

lemma scan_fds: "scan_fds k pid rep m = (r, m') \<Longrightarrow> R m0 m \<Longrightarrow> R m0 m'"
  by (auto simp: scan_fds_def split: prod.splits sum.splits dest: bound(5) intro: scan_entries)

lemma count_children: "count_children k pid rep m = (r, m') \<Longrightarrow> R m0 m \<Longrightarrow> R m0 m'"
  by (auto simp: count_children_def split: prod.splits sum.splits dest: bound(4))

lemma make_report:
  assumes "make_report k strerror pid False m = ((r, rep), m')" "R m0 m"
  shows "R m0 m'"
  using assms(1)
proof (cases rule: make_report_cases)
  case unread
  then show ?thesis using assms(2) read_status_fields by blast
next
  case (cheap rep1 m1 rep2)
  then show ?thesis using assms(2) read_status_fields read_cmdline_argc by blast
next
  case (full rep1 m1 rep2 m2 rep3 m3 rep4 m4 rep5 m5 rep6 m6)
  have "R m0 m1" using full(1) assms(2) by (rule read_status_fields)
  with full(2) have "R m0 m2" by (rule read_cmdline_argc)
  with full(4) have "R m0 m3" by (rule probe_exe)
  with full(5) have "R m0 m4" by (rule scan_maps)
  with full(6) have "R m0 m5" by (rule scan_fds)
  with full(7) have "R m0 m6" by (rule count_children)
  then show ?thesis using full(8) by simp
qed

end

text \<open>What is printed.\<close>

fun prints :: "syscall \<Rightarrow> bool" where
  "prints (Puts _) = True"
| "prints _ = False"

definition outputs :: "(syscall \<times> reply) list \<Rightarrow> string list" where
  "outputs evs = List.map_filter (\<lambda>(c, _). case c of Puts s \<Rightarrow> Some s | _ \<Rightarrow> None) evs"

lemma outputs_append [simp]: "outputs (xs @ ys) = outputs xs @ outputs ys"
  by (simp add: outputs_def List.map_filter_def)

lemma outputs_Puts [simp]: "outputs [(Puts s, a)] = [s]"
  by (simp add: outputs_def List.map_filter_def)

lemma outputs_inspects: "list_all (inspects \<circ> fst) evs \<Longrightarrow> outputs evs = []"
  by (induction evs) (auto simp: outputs_def List.map_filter_def split: syscall.splits)

text \<open>The calls of the probe: refused at once, or released at the end.\<close>

definition probes :: "int \<Rightarrow> (syscall \<times> reply) list \<Rightarrow> bool" where
  "probes pid evs \<longleftrightarrow>
     (\<exists>s. evs = [(Seize pid, s)] \<and> as_unit s \<noteq> Inr ()) \<or>
     (\<exists>s mid a. evs = (Seize pid, s) # mid @ [(Detach pid, a)] \<and> as_unit s = Inr () \<and>
        set (List.map fst mid) \<subseteq> {Interrupt pid, Waitpid pid})"

lemma probes_released:
  "as_unit s = Inr () \<Longrightarrow> set (List.map fst mid) \<subseteq> {Interrupt pid, Waitpid pid} \<Longrightarrow>
   probes pid ((Seize pid, s) # mid @ [(Detach pid, a)])"
  by (auto simp: probes_def)

lemma probe_ptrace_log:
  assumes "probe_ptrace k strerror pid rep m = (rep', m')"
  shows "\<exists>evs. log m' = log m @ evs \<and> probes pid evs"
proof -
  obtain x1 m1 where 1: "sys_unit k (Seize pid) m = (x1, m1)" by fastforce
  obtain x2 m2 where 2: "sys_unit k (Interrupt pid) m1 = (x2, m2)" by fastforce
  obtain x3 m3 where 3: "sys_int k (Waitpid pid) m2 = (x3, m3)" by fastforce
  obtain s where s: "log m1 = log m @ [(Seize pid, s)]" "x1 = as_unit s" using 1 by (auto simp: typed_turn)
  obtain i where i: "log m2 = log m1 @ [(Interrupt pid, i)]" using 2 by (auto simp: typed_turn)
  obtain w where w: "log m3 = log m2 @ [(Waitpid pid, w)]" using 3 by (auto simp: typed_turn)
  have detach: "\<exists>a. log (snd (sys_unit k (Detach pid) m0)) = log m0 @ [(Detach pid, a)]" for m0
    by (simp add: sys_unit_def log_call)
  show ?thesis
  proof (cases x1)
    case (Inl e)
    then show ?thesis using assms 1 s by (auto simp: probe_ptrace_def Let_def probes_def)
  next
    case (Inr u)
    show ?thesis
    proof (cases x2)
      case (Inl e)
      then have "m' = snd (sys_unit k (Detach pid) m2)"
        using assms 1 2 Inr by (auto simp: probe_ptrace_def Let_def)
      then show ?thesis
        using s i Inr detach[of m2] probes_released[of s "[(Interrupt pid, i)]" pid] by fastforce
    next
      case (Inr v)
      then have "m' = snd (sys_unit k (Detach pid) m3)"
        using assms 1 2 3 \<open>x1 = Inr u\<close>
        by (cases "sys_unit k (Detach pid) m3") (auto simp: probe_ptrace_def Let_def split: sum.splits)
      then show ?thesis
        using s i w \<open>x1 = Inr u\<close> detach[of m3] probes_released[of s "[(Interrupt pid, i), (Waitpid pid, w)]" pid]
        by fastforce
    qed
  qed
qed

text \<open>The report of a process: looking at it, then the probe if it is asked for.\<close>

lemma make_report_log:
  assumes "make_report k strerror pid probe m = ((r, rep), m')"
  shows "\<exists>looks evs. log m' = log m @ looks @ evs \<and> list_all (inspects \<circ> fst) looks \<and>
    (evs = [] \<or> probe \<and> probes pid evs)"
proof (cases "make_report k strerror pid False m = ((r, rep), m')")
  case True
  then have "extends inspects m m'" by (rule quiet_log.make_report) simp
  then obtain evs where "log m' = log m @ evs" "list_all (inspects \<circ> fst) evs" by (auto simp: extends_def)
  then show ?thesis by (intro exI[of _ evs] exI[of _ "[]"]) simp
next
  case False
  from assms show ?thesis
  proof (cases rule: make_report_cases)
    case unread
    then show ?thesis using False by (simp add: make_report_def)
  next
    case (cheap rep1 m1 rep2)
    then show ?thesis using False by (simp add: make_report_def Let_def)
  next
    case (full rep1 m1 rep2 m2 rep3 m3 rep4 m4 rep5 m5 rep6 m6)
    have "make_report k strerror pid False m = ((if cr_reasons rep6 = [] then OK () else ERROR, rep6), m6)"
      using full by (simp add: make_report_def Let_def)
    then have "extends inspects m m6" by (rule quiet_log.make_report) simp
    then obtain looks where looks: "log m6 = log m @ looks" "list_all (inspects \<circ> fst) looks"
      by (auto simp: extends_def)
    show ?thesis
    proof (cases "probe \<and> cr_reasons rep6 = []")
      case True
      then have "probe_ptrace k strerror pid rep6 m6 = (rep, m')" using full(8) by simp
      from probe_ptrace_log[OF this] show ?thesis using looks True by auto
    next
      case False
      then show ?thesis using looks full(8) by (auto split: if_splits)
    qed
  qed
qed

lemma check_one_log:
  assumes "check_one k strerror pid probe m = (status, m')"
  obtains rep looks evs a where
    "log m' = log m @ looks @ evs @ [(Puts (print_report rep), a)]" "list_all (inspects \<circ> fst) looks"
    "evs = [] \<or> probe \<and> probes pid evs" "cr_pid rep = pid" "report_wf rep"
    "status = (if cr_reasons rep = [] then KSNAP_CHECK_EXIT_DUMPABLE else KSNAP_CHECK_EXIT_BLOCKED)"
    "procfs_status_laws k \<longrightarrow> plain [cr_state rep]"
proof -
  obtain r rep m1 where rep: "make_report k strerror pid probe m = ((r, rep), m1)" by (metis surj_pair)
  obtain looks evs where l: "log m1 = log m @ looks @ evs" "list_all (inspects \<circ> fst) looks"
    "evs = [] \<or> probe \<and> probes pid evs"
    using make_report_log[OF rep] by blast
  have m': "m' = snd (call k (Puts (print_report rep)) m1)"
    and status: "status = (if r = OK () then KSNAP_CHECK_EXIT_DUMPABLE else KSNAP_CHECK_EXIT_BLOCKED)"
    using assms rep by (simp_all add: check_one_def)
  show ?thesis
    by (rule that[OF _ l(2,3) make_report_wf(3,1)[OF rep]])
      (use l(1) m' status make_report_wf(2)[OF rep] make_report_state[OF rep] in \<open>auto simp: log_call\<close>)
qed

section \<open>The sweep\<close>

text \<open>The processes of a sweep, in the order of the directory.\<close>

definition sweep_pids :: "int \<Rightarrow> string list \<Rightarrow> int list" where
  "sweep_pids self entries =
     filter (\<lambda>pid. 0 < pid \<and> pid \<noteq> self) (List.map atoi (filter (\<lambda>d_name. isdigit (char_at d_name 0)) entries))"

lemma check_entries_log:
  "\<exists>evs reps. log (check_entries k strerror self entries m) = log m @ evs \<and>
     list_all (\<lambda>ev. inspects (fst ev) \<or> prints (fst ev)) evs \<and>
     outputs evs = List.map print_report reps \<and> List.map cr_pid reps = sweep_pids self entries \<and>
     list_all report_wf reps \<and> (procfs_status_laws k \<longrightarrow> list_all (\<lambda>rep. plain [cr_state rep]) reps)"
proof (induction entries arbitrary: m)
  case Nil
  then show ?case by (intro exI[of _ "[]"]) (simp add: sweep_pids_def outputs_def List.map_filter_def)
next
  case (Cons d_name entries)
  let ?pid = "atoi d_name"
  show ?case
  proof (cases "isdigit (char_at d_name 0) \<and> 0 < ?pid \<and> ?pid \<noteq> self")
    case False
    then show ?thesis using Cons.IH[of m] by (auto simp: sweep_pids_def Let_def not_le)
  next
    case True
    obtain status m1 where one: "check_one k strerror ?pid False m = (status, m1)" by fastforce
    obtain rep looks evs a where l: "log m1 = log m @ looks @ evs @ [(Puts (print_report rep), a)]"
      "list_all (inspects \<circ> fst) looks" "evs = [] \<or> False \<and> probes ?pid evs" "cr_pid rep = ?pid" "report_wf rep"
      "status = (if cr_reasons rep = [] then KSNAP_CHECK_EXIT_DUMPABLE else KSNAP_CHECK_EXIT_BLOCKED)"
      "procfs_status_laws k \<longrightarrow> plain [cr_state rep]"
      by (rule check_one_log[OF one])
    obtain evs2 reps where IH: "log (check_entries k strerror self entries m1) = log m1 @ evs2"
      "list_all (\<lambda>ev. inspects (fst ev) \<or> prints (fst ev)) evs2" "outputs evs2 = List.map print_report reps"
      "List.map cr_pid reps = sweep_pids self entries" "list_all report_wf reps"
      "procfs_status_laws k \<longrightarrow> list_all (\<lambda>rep. plain [cr_state rep]) reps"
      using Cons.IH[of m1] by blast
    have "check_entries k strerror self (d_name # entries) m = check_entries k strerror self entries m1"
      using True one by (simp add: Let_def)
    then show ?thesis
      using True l IH outputs_inspects[OF l(2)]
      by (intro exI[of _ "looks @ (Puts (print_report rep), a) # evs2"] exI[of _ "rep # reps"] conjI)
        (auto simp: sweep_pids_def list_all_iff outputs_append[of _ "[x]" for x, simplified]
          outputs_append[of "looks" "(Puts (print_report rep), a) # evs2"]
          outputs_append[of "[(Puts (print_report rep), a)]" evs2, simplified])
  qed
qed

lemma check_all_log:
  assumes "check_all k strerror m = (status, m')"
  obtains (closed) a where "log m' = log m @ [(ListDir ''/proc'', a)]" "status = KSNAP_CHECK_EXIT_ERROR"
  | (swept) entries g evs reps where
      "log m' = log m @ (ListDir ''/proc'', RNames entries) # (Getpid, g) # evs" "status = KSNAP_CHECK_EXIT_DUMPABLE"
      "list_all (\<lambda>ev. inspects (fst ev) \<or> prints (fst ev)) evs" "outputs evs = List.map print_report reps"
      "List.map cr_pid reps = sweep_pids (case as_int g of Inr pid \<Rightarrow> pid | Inl e \<Rightarrow> -1) entries"
      "list_all report_wf reps" "procfs_status_laws k \<longrightarrow> list_all (\<lambda>rep. plain [cr_state rep]) reps"
proof -
  let ?c = "ListDir ''/proc''"
  obtain x m1 where 1: "sys_names k ?c m = (x, m1)" by fastforce
  obtain r where r: "x = as_names r" "log m1 = log m @ [(?c, r)]"
    using 1 by (auto simp: sys_names_def call_def split: prod.splits)
  show ?thesis
  proof (cases x)
    case (Inl e)
    then show ?thesis using assms 1 r closed by (simp add: check_all_def)
  next
    case (Inr entries)
    then have names_eq: "r = RNames entries" using r by (cases r) auto
    obtain y m2 where 2: "sys_int k Getpid m1 = (y, m2)" by fastforce
    then obtain g where g: "y = as_int g" "log m2 = log m1 @ [(Getpid, g)]" by (auto simp: typed_turn)
    let ?self = "case y of Inr pid \<Rightarrow> pid | Inl e \<Rightarrow> -1"
    have m': "m' = check_entries k strerror ?self entries m2" "status = KSNAP_CHECK_EXIT_DUMPABLE"
      using assms 1 2 Inr by (simp_all add: check_all_def)
    from check_entries_log[of k strerror ?self entries m2] obtain evs reps where
      "log m' = log m2 @ evs" "list_all (\<lambda>ev. inspects (fst ev) \<or> prints (fst ev)) evs"
      "outputs evs = List.map print_report reps" "List.map cr_pid reps = sweep_pids ?self entries"
      "list_all report_wf reps" "procfs_status_laws k \<longrightarrow> list_all (\<lambda>rep. plain [cr_state rep]) reps"
      unfolding m'(1) by blast
    then show ?thesis
      using swept[of entries g evs reps] m'(2) r(2) g names_eq by simp
  qed
qed

section \<open>What a verdict means\<close>

lemma cheap_verdicts_empty:
  "cr_reasons (cheap_verdicts rep) = [] \<longleftrightarrow>
   cr_reasons rep = [] \<and> cr_threads rep \<le> 1 \<and> cr_state rep \<notin> {CHR ''Z'', CHR ''X''} \<and>
   cr_tracer_pid rep = 0 \<and> cr_argc rep \<noteq> 0"
  by (auto simp: cheap_verdicts_def Let_def)

lemma judge_maps_empty:
  "cr_reasons (judge_maps pid err (rep, first_shared, first_device)) = [] \<longleftrightarrow>
   cr_reasons rep = [] \<and> \<not> err \<and> cr_shared_vmas rep = 0 \<and> cr_device_vmas rep = 0 \<and>
   unat (cr_kernel_maps rep) \<le> KSNAP_MAX_KERNEL_MAPS \<and> cr_dumpable_vmas rep \<noteq> 0"
proof -
  have counts: "cr_shared_vmas (add_reason code detail r) = cr_shared_vmas r"
    "cr_device_vmas (add_reason code detail r) = cr_device_vmas r"
    "cr_kernel_maps (add_reason code detail r) = cr_kernel_maps r"
    "cr_dumpable_vmas (add_reason code detail r) = cr_dumpable_vmas r" for code detail r
    by (simp_all add: add_reason_def)
  show ?thesis
    by (simp add: judge_maps_def Let_def counts word_gt_0 not_less)
qed

text \<open>The counts of a walk over the mappings: kernel, shared, of a device, dumped, and the bytes of the
  dumped ones.\<close>

fun count_line :: "u32 \<times> u32 \<times> u32 \<times> u32 \<times> u64 \<Rightarrow> maps_line \<Rightarrow> u32 \<times> u32 \<times> u32 \<times> u32 \<times> u64" where
  "count_line (kernel_maps, shared, devices, dumpable, n) p =
     (case classify_maps_line p of
        VMA_KERNEL \<Rightarrow> (kernel_maps + 1, shared, devices, dumpable, n)
      | VMA_SKIP_SHARED \<Rightarrow> (kernel_maps, shared + 1, devices, dumpable, n)
      | VMA_DUMP \<Rightarrow> (kernel_maps, shared, devices + (if starts_with (ml_path p) ''/dev/'' then 1 else 0),
          dumpable + 1, n + (ml_end p - ml_start p))
      | _ \<Rightarrow> (kernel_maps, shared, devices, dumpable, n))"

lemma scan_lines_map_facts:
  "map_facts (fst (foldl scan_line scan ps)) = foldl count_line (map_facts (fst scan)) ps"
proof (induction ps arbitrary: scan)
  case (Cons p ps)
  have "map_facts (fst (scan_line scan p)) = count_line (map_facts (fst scan)) p"
    by (cases scan) (simp add: map_facts_def Let_def split: vma_class.split)
  then show ?case using Cons.IH by simp
qed simp

text \<open>What is true of a process that is reported dumpable.\<close>

definition no_map_facts :: "u32 \<times> u32 \<times> u32 \<times> u32 \<times> u64" where
  "no_map_facts = (0, 0, 0, 0, 0)"

lemma initial_map_facts: "map_facts (initial_report pid) = no_map_facts"
  by (simp add: map_facts_def initial_report_def no_map_facts_def)

lemma status_line_facts:
  "map_facts (status_line rep line) = map_facts rep \<and> fd_facts (status_line rep line) = fd_facts rep"
  by (rule status_line_cases[where P = "\<lambda>r. map_facts r = map_facts rep \<and> fd_facts r = fd_facts rep"])
    (simp_all add: facts_defs)

lemma status_lines_facts:
  "map_facts (foldl status_line rep lines) = map_facts rep \<and> fd_facts (foldl status_line rep lines) = fd_facts rep"
  by (induction lines arbitrary: rep) (simp_all add: status_line_facts)

lemma first_steps_facts:
  "read_status_fields k pid rep m = ((OK (), rep'), m') \<Longrightarrow> map_facts rep' = map_facts rep \<and> fd_facts rep' = fd_facts rep"
  "read_cmdline_argc k pid rep m = (rep', m') \<Longrightarrow> map_facts rep' = map_facts rep \<and> fd_facts rep' = fd_facts rep"
  "map_facts (cheap_verdicts rep) = map_facts rep \<and> fd_facts (cheap_verdicts rep) = fd_facts rep"
  subgoal by (auto simp: read_status_fields_def status_lines_facts split: prod.splits sum.splits)
  subgoal by (auto simp: read_cmdline_argc_def facts_defs split: prod.splits sum.splits)
  subgoal by (simp add: cheap_verdicts_def Let_def)
  done

lemma probe_exe_dumpable:
  assumes "probe_exe k strerror pid rep m = (rep', m')" "cr_reasons rep' = []"
  shows "\<exists>path m1. sys_readlink k (proc_path pid ''exe'') (PATH_MAX - 1) m = (Inr path, m1) \<and> path \<noteq> [] \<and>
    \<not> has_deleted_suffix path \<and> sys_unit k (Access path) m1 = (Inr (), m')"
  using assms by (auto simp: probe_exe_def MIN_LEN_PATH_def split: prod.splits sum.splits if_splits)

lemma scan_maps_dumpable:
  assumes "scan_maps k pid rep m = (rep', m')" "cr_reasons rep' = []" "map_facts rep = no_map_facts"
  obtains content where "sys_text k (OpenText (proc_path pid ''maps'')) m = (Inr (content, False), m')"
    "map_facts rep' = foldl count_line no_map_facts (maps_lines content)" "cr_shared_vmas rep' = 0" "cr_device_vmas rep' = 0"
    "unat (cr_kernel_maps rep') \<le> KSNAP_MAX_KERNEL_MAPS" "cr_dumpable_vmas rep' \<noteq> 0" "cr_reasons rep = []"
proof -
  obtain content err where opened: "sys_text k (OpenText (proc_path pid ''maps'')) m = (Inr (content, err), m')"
    and rep': "rep' = judge_maps pid err (foldl scan_line (rep, [], []) (maps_lines content))"
    using assms(1,2) by (auto simp: scan_maps_def add_unopened_def split: prod.splits sum.splits if_splits)
  obtain r fs fd where scan: "foldl scan_line (rep, [], []) (maps_lines content) = (r, fs, fd)" by (metis surj_pair)
  have facts: "map_facts rep' = map_facts r" by (simp add: rep' scan judge_maps_facts)
  have verdict: "cr_reasons r = []" "\<not> err" "cr_shared_vmas r = 0" "cr_device_vmas r = 0"
    "unat (cr_kernel_maps r) \<le> KSNAP_MAX_KERNEL_MAPS" "cr_dumpable_vmas r \<noteq> 0"
    using assms(2) by (simp_all add: rep' scan judge_maps_empty)
  have "map_facts r = foldl count_line no_map_facts (maps_lines content)"
    using scan_lines_map_facts[of "(rep, [], [])" "maps_lines content"] assms(3) by (simp add: scan)
  moreover have "cr_reasons rep = []"
    using adds_scan_lines[of "(rep, [], [])" "maps_lines content"] verdict(1) scan by (simp add: adds_def)
  moreover have "cr_kernel_maps rep' = cr_kernel_maps r" "cr_shared_vmas rep' = cr_shared_vmas r"
    "cr_device_vmas rep' = cr_device_vmas r" "cr_dumpable_vmas rep' = cr_dumpable_vmas r"
    using facts by (simp_all add: map_facts_def)
  ultimately show ?thesis using that[of content] opened facts verdict by simp
qed

lemma make_report_dumpable:
  assumes "make_report k strerror pid probe m = ((OK (), rep), m')"
  obtains path m1 m2 m3 content m4 rep4 rep5 m5 where
    "cr_threads rep \<le> 1" "cr_state rep \<notin> {CHR ''Z'', CHR ''X''}" "cr_tracer_pid rep = 0" "cr_argc rep \<noteq> 0"
    "sys_readlink k (proc_path pid ''exe'') (PATH_MAX - 1) m1 = (Inr path, m2)" "path \<noteq> []"
    "\<not> has_deleted_suffix path" "sys_unit k (Access path) m2 = (Inr (), m3)"
    "sys_text k (OpenText (proc_path pid ''maps'')) m3 = (Inr (content, False), m4)"
    "map_facts rep = foldl count_line no_map_facts (maps_lines content)" "cr_shared_vmas rep = 0" "cr_device_vmas rep = 0"
    "unat (cr_kernel_maps rep) \<le> KSNAP_MAX_KERNEL_MAPS" "cr_dumpable_vmas rep \<noteq> 0"
    "scan_fds k pid rep4 m4 = (rep5, m5)" "fd_facts rep4 = (0, 0, 0)" "fd_facts rep = fd_facts rep5"
    "probe \<longrightarrow> cr_ptrace_probed rep \<and> cr_ptrace_ok rep"
proof -
  from assms show ?thesis
  proof (cases rule: make_report_cases)
    case (full rep1 m1 rep2 m2 rep3 m3 rep4 m4 rep5 m5 rep6 m6)
    have rep0: "cr_reasons rep = []" using full(9) by (simp split: if_splits)
    have rep6: "cr_reasons rep6 = []"
      using full(8) rep0 adds_probe_ptrace(1)[of k strerror pid rep6 m6 rep m'] by (auto simp: adds_def split: if_splits)
    then have rep4: "cr_reasons rep4 = []"
      using adds_scan_fds[OF full(6)] adds_count_children[OF full(7)] by (auto simp: adds_def)
    have no_maps: "map_facts rep3 = no_map_facts"
      using first_steps_facts(1)[OF full(1)] first_steps_facts(2)[OF full(2)] first_steps_facts(3)[of rep2]
        later_facts(2)[OF full(4)] by (simp add: initial_map_facts)
    obtain content where maps: "sys_text k (OpenText (proc_path pid ''maps'')) m3 = (Inr (content, False), m4)"
      "map_facts rep4 = foldl count_line no_map_facts (maps_lines content)" "cr_shared_vmas rep4 = 0" "cr_device_vmas rep4 = 0"
      "unat (cr_kernel_maps rep4) \<le> KSNAP_MAX_KERNEL_MAPS" "cr_dumpable_vmas rep4 \<noteq> 0" "cr_reasons rep3 = []"
      by (rule scan_maps_dumpable[OF full(5) rep4 no_maps])
    obtain path m21 where exe: "sys_readlink k (proc_path pid ''exe'') (PATH_MAX - 1) m2 = (Inr path, m21)" "path \<noteq> []"
      "\<not> has_deleted_suffix path" "sys_unit k (Access path) m21 = (Inr (), m3)"
      using probe_exe_dumpable[OF full(4) maps(7)] by blast
    have last_facts: "cheap_facts rep = cheap_facts rep6" "map_facts rep = map_facts rep6" "fd_facts rep = fd_facts rep6"
      using full(8) later_facts(6)[of k strerror pid rep6 m6 rep m'] by (auto split: if_splits)
    have cheap: "cheap_facts rep = cheap_facts (cheap_verdicts rep2)"
      using last_facts(1) later_facts(2)[OF full(4)] later_facts(3)[OF full(5)] later_facts(4)[OF full(6)]
        later_facts(5)[OF full(7)] by simp
    have map: "map_facts rep = map_facts rep4"
      using last_facts(2) later_facts(4)[OF full(6)] later_facts(5)[OF full(7)] by simp
    have fd0: "fd_facts rep4 = (0, 0, 0)"
      using first_steps_facts(1)[OF full(1)] first_steps_facts(2)[OF full(2)] first_steps_facts(3)[of rep2]
        later_facts(2)[OF full(4)] later_facts(3)[OF full(5)] by (simp add: initial_report_def fd_facts_def)
    have fd: "fd_facts rep = fd_facts rep5" using last_facts(3) later_facts(5)[OF full(7)] by simp
    have probed: "probe \<longrightarrow> cr_ptrace_probed rep \<and> cr_ptrace_ok rep"
      using full(8) rep6 rep0 adds_probe_ptrace(2,3)[of k strerror pid rep6 m6 rep m'] by (simp split: if_splits)
    show ?thesis
      by (rule that[OF _ _ _ _ exe maps(1) _ _ _ _ _ full(6) fd0 fd probed])
        (use cheap map maps full(3) later_facts(1)[of rep2] in
          \<open>simp_all add: cheap_verdicts_empty cheap_facts_def map_facts_def\<close>)
  qed (use assms in simp_all)
qed

end
