(* ===== verification/CheckDump.thy ===== *)
theory CheckDump
  imports Checked Resume
begin

text \<open>
  Check and Dump reach their answers by two walks over the same mappings and descriptors. The counts
  that \<open>check\<close> reports are those of the snapshot that \<open>dump\<close> writes, as long as the process sits
  still between the two.
\<close>

section \<open>Mappings\<close>

lemma count_lines:
  "foldl count_line (a, b, c, d, n) ps =
     (a + word_of_nat (length (kernel_lines ps)),
      b + word_of_nat (length (filter (\<lambda>p. classify_maps_line p = VMA_SKIP_SHARED) ps)),
      c + word_of_nat (length (filter (\<lambda>p. starts_with (ml_path p) ''/dev/'') (dumped_lines ps))),
      d + word_of_nat (length (dumped_lines ps)),
      n + sum_list (List.map (\<lambda>p. ml_end p - ml_start p) (dumped_lines ps)))"
proof (induction ps arbitrary: a b c d n)
  case (Cons p ps)
  then show ?case
    by (cases "classify_maps_line p") (simp_all add: kernel_lines_def dumped_lines_def)
qed (simp add: kernel_lines_def dumped_lines_def)

lemma counted_sizes: "word_of_nat (payload_size vmas) = sum_list (List.map vma_size vmas)"
  by (induction vmas) (simp_all add: payload_size_def)

lemma described_sizes:
  "list_all2 (vma_describes pool) ps vmas \<Longrightarrow>
   List.map vma_size vmas = List.map (\<lambda>p. ml_end p - ml_start p) ps"
  by (induction rule: list_all2_induct) (simp_all add: vma_describes_fields(2))

section \<open>Descriptors\<close>

text \<open>What two walks over a process can be compared by: the kernel shows the same of it each time.\<close>

definition describes_process :: "int \<Rightarrow> syscall \<Rightarrow> bool" where
  "describes_process pid c \<longleftrightarrow>
     (case c of
        OpenText path \<Rightarrow> path = proc_path pid ''maps''
      | ListDir path \<Rightarrow> path = proc_path pid ''fd''
      | Readlink _ _ \<Rightarrow> True
      | Stat _ \<Rightarrow> True
      | _ \<Rightarrow> False)"

definition sits_still :: "'w kernel \<Rightarrow> int \<Rightarrow> bool" where
  "sits_still k pid \<longleftrightarrow> (\<forall>c w w'. describes_process pid c \<longrightarrow> fst (k c w) = fst (k c w'))"

lemma sits_stillD:
  assumes "sits_still k pid" "describes_process pid c"
  shows "fst (sys_text k c m) = fst (sys_text k c m')" "fst (sys_names k c m) = fst (sys_names k c m')"
    "fst (sys_stat k c m) = fst (sys_stat k c m')"
    "c = Readlink path n \<Longrightarrow> fst (sys_readlink k path n m) = fst (sys_readlink k path n m')"
proof -
  have "fst (call k c m) = fst (call k c m')"
    using assms by (simp add: sits_still_def call_def split: prod.splits) (metis fst_conv)
  then show "fst (sys_text k c m) = fst (sys_text k c m')" "fst (sys_names k c m) = fst (sys_names k c m')"
    "fst (sys_stat k c m) = fst (sys_stat k c m')"
    "c = Readlink path n \<Longrightarrow> fst (sys_readlink k path n m) = fst (sys_readlink k path n m')"
    by (simp_all add: sys_defs)
qed

lemma same_fst: "fst p = fst q \<Longrightarrow> p = (x, a) \<Longrightarrow> \<exists>b. q = (x, b)"
  by (cases q) auto

lemma classify_fd_still:
  assumes "sits_still k pid"
  shows "fst (classify_fd k pid fd m) = fst (classify_fd k pid fd m')"
proof -
  have link: "fst (sys_readlink k path n a) = fst (sys_readlink k path n b)" for path n a b
    using sits_stillD(4)[OF assms, of "Readlink path n"] by (simp add: describes_process_def)
  have stat: "fst (sys_stat k (Stat path) a) = fst (sys_stat k (Stat path) b)" for path a b
    using sits_stillD(3)[OF assms, of "Stat path"] by (simp add: describes_process_def)
  define l where "l = fd_link pid fd"
  obtain x m1 where 1: "sys_readlink k l (PATH_MAX - 1) m = (x, m1)" by fastforce
  obtain m1' where p1: "sys_readlink k l (PATH_MAX - 1) m' = (x, m1')"
    using same_fst[OF link 1] by blast
  obtain y m2 where 2: "sys_stat k (Stat l) m1 = (y, m2)" by fastforce
  obtain m2' where p2: "sys_stat k (Stat l) m1' = (y, m2')"
    using same_fst[OF stat 2] by blast
  show ?thesis
  proof (cases x)
    case (Inl e)
    then show ?thesis using 1 p1 by (simp add: classify_fd_def flip: l_def)
  next
    case (Inr path)
    obtain z m3 where 3: "sys_stat k (Stat path) m2 = (z, m3)" by fastforce
    obtain m3' where p3: "sys_stat k (Stat path) m2' = (z, m3')"
      using same_fst[OF stat 3] by blast
    show ?thesis
      using 1 p1 2 p2 3 p3 Inr
      by (cases y; cases z) (auto simp: classify_fd_def split: prod.splits simp flip: l_def)
  qed
qed

text \<open>The entries of \<open>/proc/<pid>/fd\<close> whose file travels with the snapshot.\<close>

definition travels :: "'w kernel \<Rightarrow> int \<Rightarrow> 'w machine \<Rightarrow> string \<Rightarrow> bool" where
  "travels k pid m d_name \<longleftrightarrow>
     isdigit (char_at d_name 0) \<and> fst (fst (classify_fd k pid (atoi d_name) m)) = FD_DUMP"

lemma travels_still: "sits_still k pid \<Longrightarrow> travels k pid m d_name = travels k pid m' d_name"
  using classify_fd_still[of k pid "atoi d_name" m m'] by (simp add: travels_def)

lemma collect_fd_length:
  assumes "collect_fd k pid fd path c m = Some (OK c', m')"
  shows "length (fc_fds c') = Suc (length (fc_fds c))"
proof -
  obtain x m1 where 1: "reserve_entry k FD_TABLE_INITIAL_CAPACITY fd_width (length (fc_fds c)) (fc_capacity c) m = (x, m1)"
    by fastforce
  obtain y m2 where 2: "read_fd_state k pid fd m1 = (y, m2)" by fastforce
  obtain capacity st where ok: "x = OK capacity" "y = OK st"
    using assms 1 2 by (cases x; cases y) (simp_all add: collect_fd_def)
  obtain r m3 where "pool_append k (fc_pool c) path m2 = Some (r, m3)"
    using assms 1 2 ok by (auto simp: collect_fd_def bind_eq_Some_conv)
  then show ?thesis using assms 1 2 ok by (cases r) (auto simp: collect_fd_def)
qed

lemma collect_entries_count:
  assumes "sits_still k pid" "collect_entries k pid entries c m = Some (OK c', m')"
  shows "length (fc_fds c') = length (fc_fds c) + length (filter (travels k pid m0) entries)"
  using assms(2)
proof (induction entries arbitrary: c m)
  case (Cons d_name entries)
  obtain cls path m1 where cls: "classify_fd k pid (atoi d_name) m = ((cls, path), m1)" by (metis surj_pair)
  have t: "travels k pid m0 d_name \<longleftrightarrow> isdigit (char_at d_name 0) \<and> cls = FD_DUMP"
    using travels_still[OF assms(1), of m0 d_name m] cls by (simp add: travels_def)
  show ?case
  proof (cases "travels k pid m0 d_name")
    case True
    then obtain c1 m2 where "collect_fd k pid (atoi d_name) path c m1 = Some (OK c1, m2)"
      "collect_entries k pid entries c1 m2 = Some (OK c', m')"
      using Cons.prems cls t by (auto simp: bind_eq_Some_conv)
    then show ?thesis using Cons.IH collect_fd_length True by fastforce
  next
    case False
    then show ?thesis using Cons t cls by (auto split: if_splits)
  qed
qed simp

lemma collect_fds_count:
  assumes "sits_still k pid" "collect_fds k pid pool m = Some (OK (fds, pool'), m')"
    and "fst (sys_names k (ListDir (proc_path pid ''fd'')) m0) = Inr entries"
  shows "length fds = length (filter (travels k pid m0) entries)"
proof -
  obtain es m1 r m2 where es: "sys_names k (ListDir (proc_path pid ''fd'')) m = (Inr es, m1)"
    and "collect_entries k pid es \<lparr>fc_fds = [], fc_capacity = 0, fc_pool = pool\<rparr> m1 = Some (r, m2)"
    using assms(2) by (auto simp: collect_fds_def bind_eq_Some_conv split: prod.splits sum.splits)
  then obtain c where run: "collect_entries k pid es \<lparr>fc_fds = [], fc_capacity = 0, fc_pool = pool\<rparr> m1 = Some (OK c, m2)"
    and shared: "find_shared_files k pid (sort_fds (fc_fds c)) (fc_pool c) m2 = (fds, m')"
    using assms(2) by (cases r) (auto simp: collect_fds_def split: prod.splits)
  have "es = entries"
    using sits_stillD(2)[OF assms(1), of "ListDir (proc_path pid ''fd'')" m m0] es assms(3)
    by (simp add: describes_process_def)
  moreover have "length fds = length (fc_fds c)"
  proof -
    have "length ds = length front + length rest" if "share_files k pid pl front rest ma = (ds, mb)" for pl front rest ma ds mb
      using that
      by (induction rest arbitrary: front ma) (force split: prod.splits kcmp_search.splits)+
    then show ?thesis using shared by (simp add: find_shared_files_def sort_fds_def)
  qed
  ultimately show ?thesis using collect_entries_count[OF assms(1) run, of m0] by simp
qed

lemma scan_entries_count:
  assumes "sits_still k pid" "scan_entries k pid entries rep m = (rep', m')"
  shows "cr_dumpable_fds rep' = cr_dumpable_fds rep + int (length (filter (travels k pid m0) entries))"
  using assms(2)
proof (induction entries arbitrary: rep m)
  case (Cons d_name entries)
  obtain cls path m1 where cls: "classify_fd k pid (atoi d_name) m = ((cls, path), m1)" by (metis surj_pair)
  have t: "travels k pid m0 d_name \<longleftrightarrow> isdigit (char_at d_name 0) \<and> cls = FD_DUMP"
    using travels_still[OF assms(1), of m0 d_name m] cls by (simp add: travels_def)
  show ?case
  proof (cases "isdigit (char_at d_name 0) \<and> cls \<noteq> FD_SKIP_STDIO")
    case True
    then show ?thesis using Cons.prems cls t by (auto dest!: Cons.IH)
  next
    case False
    then have "\<not> travels k pid m0 d_name" "\<exists>m2. scan_entries k pid entries rep m2 = (rep', m')"
      using Cons.prems cls t False by (cases "isdigit (char_at d_name 0)"; auto)+
    then show ?thesis using Cons.IH by auto
  qed
qed simp

section \<open>The report and the snapshot\<close>

lemma snapshot_header_layout:
  assumes "storable xstate exe_path vmas fds pool kernel_maps" "length content < 2 ^ 63"
    and "content = snapshot_layout regs xstate exe_path vmas fds pool kernel_maps payload"
  shows "snapshot_header content = terminate_exe_path (make_header regs xstate exe_path vmas fds pool kernel_maps)"
  using layout_parts(1)[OF assms] header_codec.dec_enc[OF make_header_wf[OF assms(1)]]
  by (simp add: snapshot_header_def)

text \<open>What \<open>check\<close> reported and what is in the file.\<close>

definition foretells :: "check_report \<Rightarrow> bytes \<Rightarrow> bool" where
  "foretells rep content \<longleftrightarrow>
     (let header = snapshot_header content in
      cr_dumpable_vmas rep = dh_vma_count header \<and> cr_kernel_maps rep = dh_kernel_map_count header \<and>
      cr_dumpable_fds rep = uint (dh_fd_count header) \<and>
      unat (dh_data_offset header) + unat (cr_snapshot_bytes rep) = length content)"

lemma scan_fds_count:
  assumes "sits_still k pid" "scan_fds k pid rep m = (rep', m')" "fd_facts rep = (0, 0, 0)"
    and "collect_fds k pid pool m1 = Some (OK (fds, pool'), m2)"
  shows "cr_dumpable_fds rep' = int (length fds)"
proof -
  let ?c = "ListDir (proc_path pid ''fd'')"
  obtain es where "fst (sys_names k ?c m1) = Inr es"
    using assms(4) by (auto simp: collect_fds_def split: prod.splits sum.splits)
  then have es: "fst (sys_names k ?c m) = Inr es"
    using sits_stillD(2)[OF assms(1), of ?c m1 m] by (simp add: describes_process_def)
  then obtain ma where "sys_names k ?c m = (Inr es, ma)" by (cases "sys_names k ?c m") auto
  then have "scan_entries k pid es rep ma = (rep', m')" using assms(2) by (simp add: scan_fds_def)
  from scan_entries_count[OF assms(1) this, of m] show ?thesis
    using collect_fds_count[OF assms(1,4) es] assms(3) by (simp add: fd_facts_def)
qed

lemma dump_as_foretold:
  assumes dump: "dump k config m = Some (OK (), m')"
    and frozen: "frozen_memory k tmem" and laws: "procfs_fd_laws k (cfg_pid config) KSNAP_FD_FORBIDDEN_FLAGS"
    and len: "length (written m') < 2 ^ 63" and still: "sits_still k (cfg_pid config)"
    and check: "make_report k strerror (cfg_pid config) probe mc = ((OK (), rep), mc')"
  shows "foretells rep (written m')"
proof -
  let ?pid = "cfg_pid config"
  let ?maps = "OpenText (proc_path ?pid ''maps'')"
  obtain path s i w status m0 m1 where "build_snapshot_path config = OK path"
    "log m0 = log m @ [(Seize ?pid, s), (Interrupt ?pid, i), (Waitpid ?pid, w)]" "as_int w = Inr status"
    "WIFSTOPPED status" and run: "dump_stopped k ?pid path m0 = Some (OK (), m1)" and w1: "written m' = written m1"
    and "\<exists>evs. log m' = log m1 @ evs"
    by (rule dump_OK_stop[OF dump])
  obtain regs xstate exe_path vmas fds pool kernel_maps content err pool0 m4 m5 where
    st: "storable xstate exe_path vmas fds pool kernel_maps"
    and wr: "written m1 = snapshot_layout regs xstate exe_path vmas fds pool kernel_maps (payload_bytes (tmem (world m0)) vmas)"
    and maps: "answered k ?maps (RText content err) m1"
    and v: "list_all2 (vma_describes pool) (dumped_lines (maps_lines content)) vmas"
    and "(GetRegs ?pid, RRegs regs) \<in> set (log m1)" "logged_xstate ?pid xstate (log m1)"
    and km: "kernel_maps = map kernel_map_of_line (kernel_lines (maps_lines content))"
    and fds: "collect_fds k ?pid pool0 m4 = Some (OK (fds, pool), m5)"
    by (rule dump_stopped_snapshot[OF run frozen laws])
  obtain path' ma mb mc1 content' md rep4 rep5 me where
    "cr_threads rep \<le> 1" "cr_state rep \<notin> {CHR ''Z'', CHR ''X''}" "cr_tracer_pid rep = 0" "cr_argc rep \<noteq> 0"
    "sys_readlink k (proc_path ?pid ''exe'') (PATH_MAX - 1) ma = (Inr path', mb)" "path' \<noteq> []"
    "\<not> has_deleted_suffix path'" "sys_unit k (Access path') mb = (Inr (), mc1)"
    and read: "sys_text k ?maps mc1 = (Inr (content', False), md)"
    and facts: "map_facts rep = foldl count_line no_map_facts (maps_lines content')"
    and "cr_shared_vmas rep = 0" "cr_device_vmas rep = 0"
    "unat (cr_kernel_maps rep) \<le> KSNAP_MAX_KERNEL_MAPS" "cr_dumpable_vmas rep \<noteq> 0"
    and scan: "scan_fds k ?pid rep4 md = (rep5, me)" "fd_facts rep4 = (0, 0, 0)" "fd_facts rep = fd_facts rep5"
    and "probe \<longrightarrow> cr_ptrace_probed rep \<and> cr_ptrace_ok rep"
    by (rule make_report_dumpable[OF check])
  have "content' = content"
  proof -
    have "fst (k ?maps (world mc1)) = RText content' False"
      using read by (cases "fst (k ?maps (world mc1))") (auto simp: sys_text_def call_def split: prod.splits)
    moreover obtain w where "fst (k ?maps w) = RText content err" using maps by (auto simp: answered_def)
    moreover have "describes_process ?pid ?maps" by (simp add: describes_process_def)
    then have "fst (k ?maps (world mc1)) = fst (k ?maps w)" for w
      using still unfolding sits_still_def by blast
    ultimately show ?thesis by simp
  qed
  then have counts: "cr_kernel_maps rep = word_of_nat (length (kernel_lines (maps_lines content)))"
    "cr_dumpable_vmas rep = word_of_nat (length (dumped_lines (maps_lines content)))"
    "cr_snapshot_bytes rep = sum_list (List.map (\<lambda>p. ml_end p - ml_start p) (dumped_lines (maps_lines content)))"
    using facts by (simp_all add: map_facts_def no_map_facts_def count_lines)
  have vmas: "length vmas = length (dumped_lines (maps_lines content))" using v by (simp add: list_all2_lengthD)
  note len1 = len[unfolded w1]
  let ?h = "make_header regs xstate exe_path vmas fds pool kernel_maps"
  note parts = layout_parts[OF st len1 wr] and off = make_header_offsets[OF st, of regs]
  have size: "length (written m1) = metadata_size vmas fds pool xstate + payload_size vmas" using parts(7) by simp
  have "unat (word_of_nat (payload_size vmas) :: u64) = payload_size vmas"
    using size len1 by (intro unat_of_nat_u64) simp
  then have bytes: "unat (cr_snapshot_bytes rep) = payload_size vmas"
    using counts(3) described_sizes[OF v] by (simp add: counted_sizes)
  have "cr_dumpable_fds rep = int (length fds)"
    using scan_fds_count[OF still scan(1,2) fds] scan(3) by (simp add: fd_facts_def)
  moreover have "cr_dumpable_vmas rep = dh_vma_count ?h" "cr_kernel_maps rep = dh_kernel_map_count ?h"
    using counts(1,2) vmas km by (simp_all add: make_header_def Let_def)
  moreover have "snapshot_header (written m') = terminate_exe_path ?h"
    using snapshot_header_layout[OF st len1 wr] w1 by simp
  moreover have "dh_data_offset (terminate_exe_path ?h) = dh_data_offset ?h" by (simp add: terminate_exe_path_def)
  moreover have "uint (dh_fd_count ?h) = int (length fds)" by (simp flip: off(2))
  ultimately show ?thesis
    using bytes size off(11) w1 by (simp add: foretells_def Let_def)
qed

section \<open>What a check overlooks\<close>

text \<open>A descriptor whose file cannot be looked at is no reason for \<open>check\<close>, and ends every dump.\<close>

definition unreadable_fd :: "'w kernel \<Rightarrow> int \<Rightarrow> string \<Rightarrow> bool" where
  "unreadable_fd k pid d_name \<longleftrightarrow>
     isdigit (char_at d_name 0) \<and> (\<forall>m. fst (fst (classify_fd k pid (atoi d_name) m)) = FD_UNREADABLE)"

lemma collect_entries_unreadable:
  assumes "d_name \<in> set entries" "unreadable_fd k pid d_name"
  shows "collect_entries k pid entries c m \<noteq> Some (OK c', m')"
  using assms(1)
proof (induction entries arbitrary: c m)
  case (Cons e entries)
  obtain cls path m1 where cls: "classify_fd k pid (atoi e) m = ((cls, path), m1)" by (metis surj_pair)
  show ?case
  proof (cases "e = d_name")
    case True
    then have "isdigit (char_at e 0)" "cls = FD_UNREADABLE"
      using assms(2) cls by (auto simp: unreadable_fd_def) (metis fst_conv)
    then show ?thesis using cls by simp
  next
    case False
    then have IH: "collect_entries k pid entries c m \<noteq> Some (OK c', m')" for c m using Cons by simp
    show ?thesis
    proof (cases "collect_fd k pid (atoi e) path c m1")
      case None
      then show ?thesis using cls IH by simp
    next
      case (Some p)
      then show ?thesis using cls IH by (cases p; cases "fst p") auto
    qed
  qed
qed simp

lemma dump_unreadable:
  assumes "\<And>w. fst (k (ListDir (proc_path (cfg_pid config) ''fd'')) w) = RNames entries"
    and "d_name \<in> set entries" "unreadable_fd k (cfg_pid config) d_name"
  shows "dump k config m \<noteq> Some (OK (), m')"
proof
  let ?pid = "cfg_pid config"
  assume dump: "dump k config m = Some (OK (), m')"
  obtain path s i w status m0 m1 where "build_snapshot_path config = OK path"
    "log m0 = log m @ [(Seize ?pid, s), (Interrupt ?pid, i), (Waitpid ?pid, w)]" "as_int w = Inr status"
    "WIFSTOPPED status" and run: "dump_stopped k ?pid path m0 = Some (OK (), m1)" and "written m' = written m1"
    and "\<exists>evs. log m' = log m1 @ evs"
    by (rule dump_OK_stop[OF dump])
  obtain regs ma xstate mb exe_path mc vmas pool kernel_maps md fds pool' me where
    "read_regs k ?pid m0 = (OK regs, ma)" "read_xstate k ?pid ma = (OK xstate, mb)"
    "read_exe_path k ?pid mb = (OK exe_path, mc)"
    "collect_vmas k ?pid empty_pool mc = Some (OK (vmas, pool, kernel_maps), md)"
    and fds: "collect_fds k ?pid pool md = Some (OK (fds, pool'), me)"
    and "write_snapshot k ?pid path regs xstate exe_path vmas fds pool' kernel_maps me = Some (OK (), m1)"
    by (rule dump_stopped_steps[OF run])
  obtain es mf r mg where es: "sys_names k (ListDir (proc_path ?pid ''fd'')) md = (Inr es, mf)"
    and "collect_entries k ?pid es \<lparr>fc_fds = [], fc_capacity = 0, fc_pool = pool\<rparr> mf = Some (r, mg)"
    using fds by (auto simp: collect_fds_def bind_eq_Some_conv split: prod.splits sum.splits)
  then obtain c where "collect_entries k ?pid es \<lparr>fc_fds = [], fc_capacity = 0, fc_pool = pool\<rparr> mf = Some (OK c, mg)"
    using fds by (cases r) (auto simp: collect_fds_def split: prod.splits)
  moreover have "es = entries"
    using es assms(1)[of "world md"] by (auto simp: sys_names_def call_def split: prod.splits)
  ultimately show False using collect_entries_unreadable[OF assms(2,3)] by simp
qed

end
