(* ===== verification/Granted.thy ===== *)
theory Granted
  imports CheckDump
begin

text \<open>
  No spurious errors: a dump fails only when something under it fails. What the kernel has to grant
  is stated call by call; what is left of it for a process that \<open>check\<close> has found dumpable is what a
  check cannot see beforehand.
\<close>

text \<open>A call and its answer.\<close>

lemma answer:
  obtains m' where "call k c m = (fst (k c (world m)), m')" "world m' = snd (k c (world m))"
  by (cases "k c (world m)") (simp add: call_def)

lemma typed_answers:
  "fst (k c (world m)) = RInt i \<Longrightarrow> \<exists>m'. sys_int k c m = (Inr i, m')"
  "fst (k c (world m)) = RRegs regs \<Longrightarrow> \<exists>m'. sys_regs k c m = (Inr regs, m')"
  "fst (k c (world m)) = RBytes b \<Longrightarrow> \<exists>m'. sys_bytes k c n m = (Inr (take n b), m')"
  "as_unit (fst (k c (world m))) = Inr () \<Longrightarrow> \<exists>m'. sys_unit k c m = (Inr (), m') \<and> world m' = snd (k c (world m))"
  by (cases "k c (world m)"; simp add: sys_defs call_def)+

section \<open>Memory of the engine\<close>

definition grants_memory :: "'w kernel \<Rightarrow> bool" where
  "grants_memory k \<longleftrightarrow> (\<forall>n w. n < 2 ^ 40 \<longrightarrow> as_unit (fst (k (Realloc n) w)) = Inr ())"

lemma alloc_granted:
  assumes "grants_memory k" "0 < n" "n < 2 ^ 40"
  obtains m' where "sys_alloc k n m = (True, m')"
proof -
  have "fst (sys_unit k (Realloc n) m) = Inr ()"
    using assms(1,3) by (simp add: grants_memory_def sys_unit_def call_def split: prod.splits) (metis fst_conv)
  then obtain m' where "sys_unit k (Realloc n) m = (Inr (), m')" by (cases "sys_unit k (Realloc n) m") auto
  then show ?thesis using that assms(2) by (simp add: sys_alloc_def)
qed

lemma reserve_entry_granted:
  assumes "grants_memory k" and cap: "capacity_ok count capacity" and "count < 2 ^ 31"
    and init: "unat initial = 2 ^ j" and width: "0 < width" "width \<le> 128"
  obtains capacity' m' where "reserve_entry k initial width count capacity m = (OK capacity', m')"
    "capacity_ok (Suc count) capacity'"
proof (cases "word_of_nat count = capacity")
  case False
  then have "reserve_entry k initial width count capacity m = (OK capacity, m)" by (simp add: reserve_entry_def)
  then show ?thesis using that reserve_entry_room(2)[OF _ cap init] by blast
next
  case True
  define n where "n = (if capacity = 0 then initial else capacity * 2)"
  have count: "unat capacity = count" using True assms(3) by (auto intro: unat_of_nat_u32)
  have "unat n < 2 ^ 32" by (rule unat_u32_bound)
  moreover have "0 < unat n"
  proof (cases "capacity = 0")
    case False
    then have "0 < count" using count by (auto simp: unat_gt_0)
    moreover have "unat (capacity * 2) = 2 * count" using assms(3) count by (simp add: unat_word_ariths)
    ultimately show ?thesis using False by (simp add: n_def)
  qed (simp add: n_def init)
  moreover from calculation have "unat n * width \<le> 2 ^ 32 * 128"
    using width by (intro mult_le_mono) auto
  ultimately have "0 < unat n * width" "unat n * width < 2 ^ 40"
    using width by auto
  then obtain m' where "sys_alloc k (unat n * width) m = (True, m')"
    using alloc_granted[OF assms(1), of "unat n * width" m] by auto
  then have r: "reserve_entry k initial width count capacity m = (OK n, m')"
    using True by (simp add: reserve_entry_def Let_def n_def)
  show ?thesis using that[OF r reserve_entry_room(2)[OF r cap init]] .
qed

lemma pool_append_granted:
  assumes "grants_memory k" "pool_wf pool" "storable_path path"
    and "length (pool_data pool) + length path + 1 \<le> UINT32_MAX"
  obtains pool' off m' where "pool_append k pool path m = Some (OK (pool', off), m')" "appended pool path pool' off"
proof -
  have "length path < PATH_MAX" using assms(3) by (simp add: storable_path_def)
  from assms(2) this show ?thesis
  proof (rule pool_append_cases[where k = k and m = m])
    fix m'
    assume "UINT32_MAX < length (pool_data pool) + length path + 1 \<or> (\<exists>c. 0 < c \<and> c < 2 ^ 33 \<and> \<not> fst (sys_alloc k c m))"
    then obtain c where c: "0 < c" "c < 2 ^ 33" "\<not> fst (sys_alloc k c m)" using assms(4) by auto
    have "c < 2 ^ 40" using c(2) by simp
    then obtain m2 where "sys_alloc k c m = (True, m2)" by (rule alloc_granted[OF assms(1) c(1)])
    then show ?thesis using c(3) by simp
  next
    fix c m'
    assume ok: "pool_append k pool path m = Some (OK (pool_put (pool\<lparr>pool_capacity := c\<rparr>) path), m')"
    obtain pool' off where put: "pool_put (pool\<lparr>pool_capacity := c\<rparr>) path = (pool', off)" by fastforce
    have run: "pool_append k pool path m = Some (OK (pool', off), m')" using ok put by simp
    show ?thesis using that[OF run pool_append_step[OF run assms(2,3)]] .
  qed
qed

section \<open>Mappings\<close>

text \<open>The room that paths take in the pool.\<close>

definition pool_room :: "maps_line list \<Rightarrow> nat" where
  "pool_room ps = sum_list (List.map (\<lambda>p. length (ml_path p) + 1) ps)"

lemma collect_vma_granted:
  assumes "grants_memory k" and inv: "vma_collection_inv ps c" and "length (vc_vmas c) < 2 ^ 31"
    and path: "storable_path (ml_path parsed)"
    and room: "length (pool_data (vc_pool c)) + length (ml_path parsed) + 1 \<le> UINT32_MAX"
  obtains c' m' where "collect_vma k parsed c m = Some (OK c', m')" "length (vc_vmas c') = Suc (length (vc_vmas c))"
    "length (pool_data (vc_pool c')) \<le> length (pool_data (vc_pool c)) + length (ml_path parsed) + 1"
    "vc_kernel_maps c' = vc_kernel_maps c"
proof -
  have cap: "capacity_ok (length (vc_vmas c)) (vc_capacity c)" and wf: "pool_wf (vc_pool c)"
    using inv by (simp_all add: vma_collection_inv_def)
  obtain capacity m1 where 1: "reserve_entry k VMA_TABLE_INITIAL_CAPACITY vma_width (length (vc_vmas c)) (vc_capacity c) m =
      (OK capacity, m1)"
    by (rule reserve_entry_granted[OF assms(1) cap assms(3), of VMA_TABLE_INITIAL_CAPACITY 6 vma_width m])
      (simp_all add: VMA_TABLE_INITIAL_CAPACITY_def vma_width_def)
  show ?thesis
  proof (cases "ml_path parsed = []")
    case True
    then show ?thesis using that 1 by (simp add: collect_vma_def)
  next
    case False
    obtain pool' off m2 where "pool_append k (vc_pool c) (ml_path parsed) m1 = Some (OK (pool', off), m2)"
      "appended (vc_pool c) (ml_path parsed) pool' off"
      by (rule pool_append_granted[OF assms(1) wf path room])
    then show ?thesis using that 1 False by (simp add: collect_vma_def appended_def)
  qed
qed

lemma collect_lines_granted:
  assumes "grants_memory k" and "vma_collection_inv ps c"
    and "length (vc_vmas c) + length rest < 2 ^ 31" "length (pool_data (vc_pool c)) + pool_room rest \<le> UINT32_MAX"
    and "length (vc_kernel_maps c) + length (kernel_lines rest) \<le> KSNAP_MAX_KERNEL_MAPS"
    and "list_all (\<lambda>p. length (ml_path p) < KSNAP_KERNEL_MAP_NAME_LEN) (kernel_lines rest)"
    and "list_all (\<lambda>p. storable_path (ml_path p)) rest"
  shows "\<exists>c' m'. collect_lines k rest c m = Some (OK c', m') \<and>
    length (pool_data (vc_pool c')) \<le> length (pool_data (vc_pool c)) + pool_room rest"
  using assms(2-)
proof (induction rest arbitrary: ps c m)
  case (Cons p rest)
  have skip: "vma_collection_inv (ps @ [p]) c"
    if "classify_maps_line p \<noteq> VMA_DUMP" "classify_maps_line p \<noteq> VMA_KERNEL"
    using that Cons.prems(1) by (auto simp: vma_collection_inv_def dumped_lines_def kernel_lines_def)
  have rest: "pool_room (p # rest) = length (ml_path p) + 1 + pool_room rest" by (simp add: pool_room_def)
  show ?case
  proof (cases "classify_maps_line p")
    case VMA_KERNEL
    then have k: "kernel_lines (p # rest) = p # kernel_lines rest" by (simp add: kernel_lines_def)
    then obtain c1 where c1: "collect_kernel_map p c = OK c1" "vc_vmas c1 = vc_vmas c" "vc_pool c1 = vc_pool c"
      "length (vc_kernel_maps c1) = Suc (length (vc_kernel_maps c))"
      using Cons.prems(4,5) by (simp add: collect_kernel_map_def)
    have "vma_collection_inv (ps @ [p]) c1"
      by (rule collect_kernel_map_inv[OF c1(1) Cons.prems(1) VMA_KERNEL])
    then have "\<exists>c' m'. collect_lines k rest c1 m = Some (OK c', m') \<and>
        length (pool_data (vc_pool c')) \<le> length (pool_data (vc_pool c1)) + pool_room rest"
      by (rule Cons.IH) (use Cons.prems c1 k rest in simp_all)
    then show ?thesis using VMA_KERNEL c1 rest by auto
  next
    case VMA_DUMP
    then have k: "kernel_lines (p # rest) = kernel_lines rest" by (simp add: kernel_lines_def)
    have few: "length (vc_vmas c) < 2 ^ 31" and room: "length (pool_data (vc_pool c)) + length (ml_path p) + 1 \<le> UINT32_MAX"
      and path: "storable_path (ml_path p)"
      using Cons.prems(2,3,6) rest by simp_all
    obtain c1 m1 where c1: "collect_vma k p c m = Some (OK c1, m1)" "length (vc_vmas c1) = Suc (length (vc_vmas c))"
      "length (pool_data (vc_pool c1)) \<le> length (pool_data (vc_pool c)) + length (ml_path p) + 1"
      "vc_kernel_maps c1 = vc_kernel_maps c"
      by (rule collect_vma_granted[OF assms(1) Cons.prems(1) few path room])
    have "vma_collection_inv (ps @ [p]) c1"
      by (rule collect_vma_inv[OF c1(1) Cons.prems(1) VMA_DUMP path])
    then have "\<exists>c' m'. collect_lines k rest c1 m1 = Some (OK c', m') \<and>
        length (pool_data (vc_pool c')) \<le> length (pool_data (vc_pool c1)) + pool_room rest"
      by (rule Cons.IH) (use Cons.prems c1 k rest in simp_all)
    then show ?thesis using VMA_DUMP c1 rest by fastforce
  qed (use Cons.IH[OF skip, of m] Cons.prems rest in \<open>force simp: kernel_lines_def\<close>)+
qed simp

text \<open>What \<open>maps\<close> has to be: not out of proportion, and the names of the kernel fit the header.\<close>

definition modest_lines :: "maps_line list \<Rightarrow> bool" where
  "modest_lines ps \<longleftrightarrow> length ps < 2 ^ 31 \<and> pool_room ps < 2 ^ 31 \<and>
     list_all (\<lambda>p. length (ml_path p) < KSNAP_KERNEL_MAP_NAME_LEN) (kernel_lines ps)"

lemma collect_vmas_granted:
  assumes "grants_memory k" and "sys_text k (OpenText (proc_path pid ''maps'')) m = (Inr (content, False), m1)"
    and "modest_lines (maps_lines content)" "length (kernel_lines (maps_lines content)) \<le> KSNAP_MAX_KERNEL_MAPS"
    and "dumped_lines (maps_lines content) \<noteq> []"
  obtains vmas pool kernel_maps m' where
    "collect_vmas k pid empty_pool m = Some (OK (vmas, pool, kernel_maps), m')" "length (pool_data pool) < 2 ^ 31"
proof -
  let ?c = "\<lparr>vc_vmas = [], vc_capacity = 0, vc_kernel_maps = [], vc_pool = empty_pool\<rparr>"
  have inv: "vma_collection_inv [] ?c"
    by (simp add: vma_collection_inv_def dumped_lines_def kernel_lines_def)
  have paths: "list_all (\<lambda>p. storable_path (ml_path p)) (maps_lines content)"
    using maps_lines_wf by (fastforce simp: list_all_iff storable_path_def)
  have "\<exists>c m'. collect_lines k (maps_lines content) ?c m1 = Some (OK c, m') \<and>
      length (pool_data (vc_pool c)) \<le> length (pool_data (vc_pool ?c)) + pool_room (maps_lines content)"
    by (rule collect_lines_granted[OF assms(1) inv _ _ _ _ paths])
      (use assms(3,4) in \<open>simp_all add: modest_lines_def empty_pool_def UINT32_MAX_def\<close>)
  then obtain c m' where run: "collect_lines k (maps_lines content) ?c m1 = Some (OK c, m')"
    and room: "length (pool_data (vc_pool c)) \<le> pool_room (maps_lines content)"
    by (auto simp: empty_pool_def)
  have "vma_collection_inv ([] @ maps_lines content) c"
    by (rule collect_lines_inv[OF run inv]) (use paths in \<open>simp add: list_all_iff\<close>)
  then have "vc_vmas c \<noteq> []" using assms(5) by (auto simp: vma_collection_inv_def)
  then show ?thesis
    using that[of "vc_vmas c" "vc_pool c" "vc_kernel_maps c" m'] assms(2,3) run room
    by (simp add: collect_vmas_def modest_lines_def)
qed

section \<open>Descriptors\<close>

text \<open>A descriptor can be looked at, and when its file travels its state can be read.\<close>

definition readable_fd :: "'w kernel \<Rightarrow> int \<Rightarrow> int \<Rightarrow> bool" where
  "readable_fd k pid fd \<longleftrightarrow>
     (\<forall>m. fst (fst (classify_fd k pid fd m)) \<noteq> FD_UNREADABLE) \<and>
     (\<forall>m m'. fst (fst (classify_fd k pid fd m)) = FD_DUMP \<longrightarrow> fst (read_fd_state k pid fd m') \<noteq> ERROR)"

definition readable_fds :: "'w kernel \<Rightarrow> int \<Rightarrow> bool" where
  "readable_fds k pid \<longleftrightarrow>
     (\<forall>w. \<exists>entries. fst (k (ListDir (proc_path pid ''fd'')) w) = RNames entries \<and> length entries < 2 ^ 16 \<and>
        list_all (\<lambda>d_name. isdigit (char_at d_name 0) \<longrightarrow> readable_fd k pid (atoi d_name)) entries)"

lemma collect_fd_granted:
  assumes "grants_memory k" and cap: "capacity_ok (length (fc_fds c)) (fc_capacity c)" and wf: "pool_wf (fc_pool c)"
    and few: "length (fc_fds c) < 2 ^ 31" and path: "storable_path path"
    and room: "length (pool_data (fc_pool c)) + length path + 1 \<le> UINT32_MAX"
    and state: "\<And>m. fst (read_fd_state k pid fd m) \<noteq> ERROR"
  obtains c' m' where "collect_fd k pid fd path c m = Some (OK c', m')" "capacity_ok (length (fc_fds c')) (fc_capacity c')"
    "pool_wf (fc_pool c')" "length (fc_fds c') = Suc (length (fc_fds c))"
    "length (pool_data (fc_pool c')) = length (pool_data (fc_pool c)) + length path + 1"
proof -
  obtain capacity m1 where 1: "reserve_entry k FD_TABLE_INITIAL_CAPACITY fd_width (length (fc_fds c)) (fc_capacity c) m =
      (OK capacity, m1)" "capacity_ok (Suc (length (fc_fds c))) capacity"
    by (rule reserve_entry_granted[OF assms(1) cap few, of FD_TABLE_INITIAL_CAPACITY 4 fd_width m])
      (simp_all add: FD_TABLE_INITIAL_CAPACITY_def fd_width_def)
  obtain st m2 where 2: "read_fd_state k pid fd m1 = (OK st, m2)"
    using state[of m1] by (cases "read_fd_state k pid fd m1"; cases "fst (read_fd_state k pid fd m1)") auto
  obtain pool' off m3 where 3: "pool_append k (fc_pool c) path m2 = Some (OK (pool', off), m3)"
    "appended (fc_pool c) path pool' off"
    by (rule pool_append_granted[OF assms(1) wf path room])
  show ?thesis using that 1 2 3 by (simp add: collect_fd_def appended_def)
qed

lemma collect_entries_granted:
  assumes "grants_memory k"
    and "capacity_ok (length (fc_fds c)) (fc_capacity c)" "pool_wf (fc_pool c)"
    and "length (fc_fds c) + length rest < 2 ^ 31"
    and "length (pool_data (fc_pool c)) + PATH_MAX * length rest \<le> UINT32_MAX"
    and "list_all (\<lambda>d_name. isdigit (char_at d_name 0) \<longrightarrow> readable_fd k pid (atoi d_name)) rest"
  shows "\<exists>c' m'. collect_entries k pid rest c m = Some (OK c', m')"
  using assms(2-)
proof (induction rest arbitrary: c m)
  case (Cons d_name rest)
  have IH: "\<exists>c' m'. collect_entries k pid rest c m = Some (OK c', m')" for m
    using Cons by simp
  obtain cls path m1 where cls: "classify_fd k pid (atoi d_name) m = ((cls, path), m1)" by (metis surj_pair)
  have readable: "isdigit (char_at d_name 0) \<Longrightarrow> readable_fd k pid (atoi d_name)" using Cons.prems(5) by simp
  have cls_eq: "cls = fst (fst (classify_fd k pid (atoi d_name) m))" using cls by simp
  show ?case
  proof (cases "isdigit (char_at d_name 0) \<and> cls = FD_DUMP")
    case False
    have "isdigit (char_at d_name 0) \<Longrightarrow> cls \<noteq> FD_UNREADABLE"
      using readable cls_eq by (auto simp: readable_fd_def)
    then show ?thesis using False cls IH[of m] IH[of m1] by simp
  next
    case True
    then have dump: "classify_fd k pid (atoi d_name) m = ((FD_DUMP, path), m1)" using cls by simp
    note fd = classify_fd_dump[OF dump]
    have path: "storable_path path" using fd by (simp add: storable_path_def)
    have state: "fst (read_fd_state k pid (atoi d_name) ma) \<noteq> ERROR" for ma
      using readable True cls_eq by (auto simp: readable_fd_def)
    have few: "length (fc_fds c) < 2 ^ 31" and room: "length (pool_data (fc_pool c)) + length path + 1 \<le> UINT32_MAX"
      using Cons.prems(3,4) fd(2) by simp_all
    obtain c1 m2 where c1: "collect_fd k pid (atoi d_name) path c m1 = Some (OK c1, m2)"
      "capacity_ok (length (fc_fds c1)) (fc_capacity c1)" "pool_wf (fc_pool c1)"
      "length (fc_fds c1) = Suc (length (fc_fds c))"
      "length (pool_data (fc_pool c1)) = length (pool_data (fc_pool c)) + length path + 1"
      by (rule collect_fd_granted[OF assms(1) Cons.prems(1,2) few path room state])
    have "\<exists>c' m'. collect_entries k pid rest c1 m2 = Some (OK c', m')"
      by (rule Cons.IH[OF c1(2,3)]) (use Cons.prems c1 fd(2) in simp_all)
    then show ?thesis using True dump c1(1) by simp
  qed
qed simp

lemma collect_fds_granted:
  assumes "grants_memory k" "readable_fds k pid" "pool_wf pool" "length (pool_data pool) < 2 ^ 31"
  obtains fds pool' m' where "collect_fds k pid pool m = Some (OK (fds, pool'), m')"
proof -
  let ?c = "\<lparr>fc_fds = [], fc_capacity = 0, fc_pool = pool\<rparr>"
  obtain entries where e: "fst (k (ListDir (proc_path pid ''fd'')) (world m)) = RNames entries" "length entries < 2 ^ 16"
    "list_all (\<lambda>d_name. isdigit (char_at d_name 0) \<longrightarrow> readable_fd k pid (atoi d_name)) entries"
    using assms(2) unfolding readable_fds_def by blast
  obtain m1 where 1: "sys_names k (ListDir (proc_path pid ''fd'')) m = (Inr entries, m1)"
    by (rule answer[of k "ListDir (proc_path pid ''fd'')" m]) (simp add: sys_names_def e(1))
  have "\<exists>c' m'. collect_entries k pid entries ?c m1 = Some (OK c', m')"
    by (rule collect_entries_granted[OF assms(1)])
      (use assms(3,4) e in \<open>simp_all add: PATH_MAX_def UINT32_MAX_def\<close>)
  then obtain c' m2 where 2: "collect_entries k pid entries ?c m1 = Some (OK c', m2)" by blast
  obtain fds m3 where "find_shared_files k pid (sort_fds (fc_fds c')) (fc_pool c') m2 = (fds, m3)" by fastforce
  then show ?thesis using that 1 2 by (simp add: collect_fds_def)
qed

section \<open>The memory of the process\<close>

text \<open>A read within the range delivers something.\<close>

definition readable_range :: "'w kernel \<Rightarrow> u64 \<Rightarrow> u64 \<Rightarrow> bool" where
  "readable_range k a size_of \<longleftrightarrow>
     (\<forall>w off n. 0 < n \<longrightarrow> unat off + n \<le> unat size_of \<longrightarrow> (\<exists>b. fst (k (Pread (a + off) n) w) = RBytes b \<and> b \<noteq> []))"

section \<open>The file\<close>

text \<open>The stream takes everything it is given and tells its position; \<open>pos\<close> is that position in the
  state of the kernel.\<close>

definition disk_works :: "'w kernel \<Rightarrow> ('w \<Rightarrow> nat) \<Rightarrow> bool" where
  "disk_works k pos \<longleftrightarrow>
     (\<forall>path w. as_unit (fst (k (FopenWrite path) w)) = Inr () \<and> pos (snd (k (FopenWrite path) w)) = 0) \<and>
     (\<forall>items n count w. 0 < n \<longrightarrow> length items = n * count \<longrightarrow>
        fst (k (Fwrite items n) w) = RInt (int count) \<and> pos (snd (k (Fwrite items n) w)) = pos w + length items) \<and>
     (\<forall>w. fst (k Ftell w) = RInt (int (pos w)) \<and> pos (snd (k Ftell w)) = pos w) \<and>
     (\<forall>c w. c \<in> {Fflush, Fsync, Fclose} \<longrightarrow> as_unit (fst (k c w)) = Inr ())"

lemma fwrite_granted:
  assumes "disk_works k pos" "0 < n" "length items = n * count"
  obtains m' where "sys_fwrite k items n count m = (True, m')" "pos (world m') = pos (world m) + length items"
proof -
  have reply: "fst (k (Fwrite items n) (world m)) = RInt (int count)"
    "pos (snd (k (Fwrite items n) (world m))) = pos (world m) + length items"
    using assms unfolding disk_works_def by blast+
  obtain m' where "call k (Fwrite items n) m = (RInt (int count), m')" "world m' = snd (k (Fwrite items n) (world m))"
    using answer[of k "Fwrite items n" m] reply(1) by metis
  then show ?thesis using that reply(2) by (simp add: sys_fwrite_def sys_int_def)
qed

lemma write_metadata_granted:
  assumes disk: "disk_works k pos" and h: "header_wf h" and sz: "unat (pool_size pool) = length (pool_data pool)"
  obtains m' where "write_metadata k h vmas fds pool xstate m = (True, m')"
    "pos (world m') = pos (world m) + metadata_size vmas fds pool xstate"
proof -
  obtain m1 where 1: "sys_fwrite k (encode_header h) header_width 1 m = (True, m1)"
    "pos (world m1) = pos (world m) + header_width"
    using fwrite_granted[OF disk, of header_width "encode_header h" 1 m] header_codec.enc_length[OF h]
    by (auto simp: header_width_def)
  obtain m2 where 2: "sys_fwrite k (encode_items encode_vma vmas) vma_width (length vmas) m1 = (True, m2)"
    "pos (world m2) = pos (world m1) + vma_width * length vmas"
    using fwrite_granted[OF disk, of vma_width "encode_items encode_vma vmas" "length vmas" m1]
      vma_codec.length_encode_items[of vmas] by (auto simp: vma_width_def)
  obtain m3 where 3: "(if length fds > 0 then sys_fwrite k (encode_items encode_fd fds) fd_width (length fds) m2 else (True, m2)) =
      (True, m3)" "pos (world m3) = pos (world m2) + fd_width * length fds"
  proof (cases "fds = []")
    case True
    then show ?thesis using that by simp
  next
    case False
    have "length (encode_items encode_fd fds) = fd_width * length fds"
      by (rule fd_codec.length_encode_items) simp
    then show ?thesis
      using that False fwrite_granted[OF disk, of fd_width "encode_items encode_fd fds" "length fds" m2]
      by (auto simp: fd_width_def)
  qed
  obtain m4 where 4: "(if pool_size pool > 0 then sys_fwrite k (pool_data pool) 1 (unat (pool_size pool)) m3 else (True, m3)) =
      (True, m4)" "pos (world m4) = pos (world m3) + length (pool_data pool)"
  proof (cases "pool_size pool > 0")
    case True
    then show ?thesis
      using that fwrite_granted[OF disk, of 1 "pool_data pool" "unat (pool_size pool)" m3] sz by auto
  next
    case False
    then have "length (pool_data pool) = 0" using sz by (simp add: word_gt_0)
    then show ?thesis using that False by simp
  qed
  obtain m5 where 5: "sys_fwrite k xstate 1 (length xstate) m4 = (True, m5)" "pos (world m5) = pos (world m4) + length xstate"
    using fwrite_granted[OF disk, of 1 xstate "length xstate" m4] by auto
  show ?thesis
    using that[of m5] 1 2 3 4 5 by (simp add: write_metadata_def Let_def metadata_size_def)
qed

text \<open>The loop that copies a mapping: every turn advances.\<close>

lemma copy_turn_granted:
  assumes disk: "disk_works k pos" and mem: "readable_range k (vma_start_address vma) (vma_size vma)"
    and c: "c < vma_size vma"
  obtains c' m' where "copy_turn k vma c m = (Some c', m')" "c < c'" "c' \<le> vma_size vma"
proof -
  define n where "n = (if vma_size vma - c > PAGE_SIZE then PAGE_SIZE else vma_size vma - c)"
  have rest: "unat (vma_size vma - c) = unat (vma_size vma) - unat c" "unat c < unat (vma_size vma)"
    using c by (simp_all add: unat_sub word_less_nat_alt word_le_nat_alt)
  have n: "0 < unat n" "unat n \<le> unat (vma_size vma) - unat c"
    using rest by (auto simp: n_def PAGE_SIZE_def word_less_nat_alt split: if_splits)
  obtain b where b: "fst (k (Pread (vma_start_address vma + c) (unat n)) (world m)) = RBytes b" "b \<noteq> []"
    using mem n rest(2) unfolding readable_range_def by (metis add.commute le_diff_conv2 less_imp_le)
  let ?b = "take (unat n) b"
  obtain m1 where 1: "sys_bytes k (Pread (vma_start_address vma + c) (unat n)) (unat n) m = (Inr ?b, m1)"
    using typed_answers(3)[of k "Pread (vma_start_address vma + c) (unat n)" m b "unat n"] b(1) by blast
  obtain m2 where 2: "sys_fwrite k ?b 1 (length ?b) m1 = (True, m2)"
    using fwrite_granted[OF disk, of 1 ?b "length ?b" m1] by auto
  have len: "0 < length ?b" "length ?b \<le> unat n" using n b(2) by auto
  have "unat (word_of_nat (length ?b) :: u64) = length ?b"
    using len n unat_u64_bound[of "vma_size vma"] by (intro unat_of_nat_u64) linarith
  then have "unat (c + word_of_nat (length ?b)) = unat c + length ?b"
    using len n rest unat_u64_bound[of "vma_size vma"] by (simp add: unat_word_ariths)
  then have "c < c + word_of_nat (length ?b)" "c + word_of_nat (length ?b) \<le> vma_size vma"
    using len n rest by (auto simp: word_less_nat_alt word_le_nat_alt)
  moreover have "copy_turn k vma c m = (Some (c + word_of_nat (length ?b)), m2)"
    using 1 2 len by (simp add: copy_turn_def Let_def n_def[symmetric])
  ultimately show ?thesis using that by blast
qed

lemma copy_payload_granted:
  assumes disk: "disk_works k pos" and mem: "readable_range k (vma_start_address vma) (vma_size vma)"
  shows "\<exists>m'. copy_payload k vma c m = Some (OK (), m')"
proof (induction "unat (vma_size vma) - unat c" arbitrary: c m rule: less_induct)
  case less
  show ?case
  proof (cases "c < vma_size vma")
    case False
    then show ?thesis by (simp add: copy_payload.simps)
  next
    case True
    obtain c' m1 where 1: "copy_turn k vma c m = (Some c', m1)" "c < c'" "c' \<le> vma_size vma"
      by (rule copy_turn_granted[OF disk mem True])
    then have "unat (vma_size vma) - unat c' < unat (vma_size vma) - unat c"
      by (simp add: word_less_nat_alt word_le_nat_alt)
    from less.hyps[OF this, of m1] show ?thesis
      using 1(1) True by (subst copy_payload.simps) simp
  qed
qed

lemma write_payloads_granted:
  assumes disk: "disk_works k pos"
  shows "list_all (\<lambda>v. readable_range k (vma_start_address v) (vma_size v)) vmas \<Longrightarrow>
    \<exists>m'. write_payloads k vmas m = Some (OK (), m')"
proof (induction vmas arbitrary: m)
  case (Cons vma vmas)
  obtain m1 where "write_vma_payload k vma m = Some (OK (), m1)"
    using copy_payload_granted[OF disk, of vma 0 m] Cons.prems by (auto simp: write_vma_payload_def)
  then show ?case using Cons by simp
qed simp

lemma assign_offsets_readable:
  "list_all (\<lambda>v. readable_range k (vma_start_address v) (vma_size v)) (assign_offsets off vmas) \<longleftrightarrow>
   list_all (\<lambda>v. readable_range k (vma_start_address v) (vma_size v)) vmas"
  by (induction vmas arbitrary: off) simp_all

section \<open>Writing the snapshot\<close>

lemma finish_file_granted:
  assumes "disk_works k pos"
  obtains m' where "finish_file k (OK ()) m = (OK (), m')"
proof -
  have ok: "as_unit (fst (k c w)) = Inr ()" if "c \<in> {Fflush, Fsync, Fclose}" for c w
    using assms that unfolding disk_works_def by blast
  obtain m1 where 1: "sys_unit k Fflush m = (Inr (), m1)" using typed_answers(4)[of k Fflush m] ok by blast
  obtain m2 where 2: "sys_unit k Fsync m1 = (Inr (), m2)" using typed_answers(4)[of k Fsync m1] ok by blast
  obtain m3 where 3: "sys_unit k Fclose m2 = (Inr (), m3)" using typed_answers(4)[of k Fclose m2] ok by blast
  show ?thesis using that 1 2 3 by (simp add: finish_file_def)
qed

lemma write_snapshot_granted:
  assumes disk: "disk_works k pos" and st: "storable xstate exe_path vmas fds pool kernel_maps"
    and mem: "list_all (\<lambda>v. readable_range k (vma_start_address v) (vma_size v)) vmas"
    and opens: "\<And>w. \<exists>fd. fst (k (OpenMem (proc_path pid ''mem'') False) w) = RInt fd"
  obtains m' where "write_snapshot k pid path regs xstate exe_path vmas fds pool kernel_maps m = Some (OK (), m')"
proof -
  define h where "h = make_header regs xstate exe_path vmas fds pool kernel_maps"
  let ?vs = "assign_offsets (dh_data_offset h) vmas"
  obtain fd where "fst (k (OpenMem (proc_path pid ''mem'') False) (world m)) = RInt fd" using opens by blast
  then obtain m1 where 1: "sys_int k (OpenMem (proc_path pid ''mem'') False) m = (Inr fd, m1)"
    using typed_answers(1)[of k "OpenMem (proc_path pid ''mem'') False" m] by blast
  have "as_unit (fst (k (FopenWrite path) (world m1))) = Inr ()" "pos (snd (k (FopenWrite path) (world m1))) = 0"
    using disk by (simp_all add: disk_works_def)
  then obtain m2 where 2: "sys_unit k (FopenWrite path) m1 = (Inr (), m2)" "pos (world m2) = 0"
    using typed_answers(4)[of k "FopenWrite path" m1] by metis
  have wf: "header_wf h" using make_header_wf[OF st] by (simp add: h_def)
  have sz: "unat (pool_size pool) = length (pool_data pool)" using st by (simp add: storable_def pool_wf_def)
  obtain m3 where 3: "write_metadata k h ?vs fds pool xstate m2 = (True, m3)"
    "pos (world m3) = metadata_size vmas fds pool xstate"
    using write_metadata_granted[OF disk wf sz, of ?vs fds xstate m2] 2(2)
    by (auto simp: metadata_size_def)
  have "fst (k Ftell (world m3)) = RInt (int (metadata_size vmas fds pool xstate))"
    using disk 3(2) by (simp add: disk_works_def)
  then obtain m4 where 4: "sys_int k Ftell m3 = (Inr (int (metadata_size vmas fds pool xstate)), m4)"
    using typed_answers(1)[of k Ftell m3] by blast
  have "unat (dh_data_offset h) = metadata_size vmas fds pool xstate"
    using make_header_offsets(11)[OF st, of regs] by (simp add: h_def)
  from this[symmetric] have off: "word_of_nat (metadata_size vmas fds pool xstate) = dh_data_offset h" by simp
  obtain m5 where 5: "write_payloads k ?vs m4 = Some (OK (), m5)"
    using write_payloads_granted[OF disk, of ?vs m4] mem by (auto simp: assign_offsets_readable)
  have c: "write_contents k h ?vs fds pool xstate m2 = Some (OK (), m5)"
    using 3(1) 4 5 off by (simp add: write_contents_def)
  obtain m6 where "finish_file k (OK ()) (snd (sys_unit k CloseMem m5)) = (OK (), m6)"
    by (rule finish_file_granted[OF disk])
  then show ?thesis
    using that 1 2(1) c by (simp add: write_snapshot_def Let_def h_def)
qed

section \<open>The dump as a whole\<close>

text \<open>A process that can be seized, interrupted and released.\<close>

definition traceable :: "'w kernel \<Rightarrow> int \<Rightarrow> bool" where
  "traceable k pid \<longleftrightarrow>
     (\<forall>w. as_unit (fst (k (Seize pid) w)) = Inr () \<and> as_unit (fst (k (Interrupt pid) w)) = Inr () \<and>
        as_unit (fst (k (Detach pid) w)) = Inr () \<and>
        (\<exists>status. fst (k (Waitpid pid) w) = RInt status \<and> WIFSTOPPED status))"

text \<open>The state a tracer reads of it, and its memory as a file.\<close>

definition shows_state :: "'w kernel \<Rightarrow> int \<Rightarrow> bool" where
  "shows_state k pid \<longleftrightarrow>
     (\<forall>w. (\<exists>regs. fst (k (GetRegs pid) w) = RRegs regs) \<and>
        (\<exists>x. fst (k (GetXstate pid KSNAP_XSTATE_MAX_SIZE) w) = RBytes x \<and>
           KSNAP_XSTATE_MIN_SIZE \<le> length x \<and> length x < KSNAP_XSTATE_MAX_SIZE) \<and>
        (\<exists>fd. fst (k (OpenMem (proc_path pid ''mem'') False) w) = RInt fd))"

text \<open>What the lines of \<open>maps\<close> have to be for a dump: modest, some of them dumped, few of the kernel, and
  the memory of the dumped ones readable.\<close>

definition dumpable_lines :: "'w kernel \<Rightarrow> maps_line list \<Rightarrow> bool" where
  "dumpable_lines k ps \<longleftrightarrow> modest_lines ps \<and> dumped_lines ps \<noteq> [] \<and>
     length (kernel_lines ps) \<le> KSNAP_MAX_KERNEL_MAPS \<and>
     list_all (\<lambda>p. readable_range k (ml_start p) (ml_end p - ml_start p)) (dumped_lines ps)"

lemma described_readable:
  "list_all2 (vma_describes pool) ps vmas \<Longrightarrow>
   list_all (\<lambda>p. readable_range k (ml_start p) (ml_end p - ml_start p)) ps \<Longrightarrow>
   list_all (\<lambda>v. readable_range k (vma_start_address v) (vma_size v)) vmas"
  by (induction rule: list_all2_induct) (simp_all add: vma_describes_fields)

lemma dump_stopped_granted:
  assumes mem: "grants_memory k" and fds: "readable_fds k pid" and disk: "disk_works k pos" and state: "shows_state k pid"
    and laws: "procfs_fd_laws k pid KSNAP_FD_FORBIDDEN_FLAGS"
    and exe: "\<And>m. \<exists>target m'. sys_readlink k (proc_path pid ''exe'') (PATH_MAX - 1) m = (Inr target, m') \<and> target \<noteq> []"
    and maps: "\<And>m. \<exists>content m'. sys_text k (OpenText (proc_path pid ''maps'')) m = (Inr (content, False), m') \<and>
      dumpable_lines k (maps_lines content)"
  obtains m' where "dump_stopped k pid path m = Some (OK (), m')"
proof -
  obtain regs where "fst (k (GetRegs pid) (world m)) = RRegs regs" using state unfolding shows_state_def by blast
  then obtain m1 where "sys_regs k (GetRegs pid) m = (Inr regs, m1)" using typed_answers(2)[of k "GetRegs pid" m] by blast
  then have 1: "read_regs k pid m = (OK regs, m1)" by (simp add: read_regs_def)
  obtain m1a where alloc: "sys_alloc k KSNAP_XSTATE_MAX_SIZE m1 = (True, m1a)"
    by (rule alloc_granted[OF mem, of KSNAP_XSTATE_MAX_SIZE m1]) (simp_all add: KSNAP_XSTATE_MAX_SIZE_def)
  obtain x where x: "fst (k (GetXstate pid KSNAP_XSTATE_MAX_SIZE) (world m1a)) = RBytes x"
    "KSNAP_XSTATE_MIN_SIZE \<le> length x" "length x < KSNAP_XSTATE_MAX_SIZE"
    using state unfolding shows_state_def by blast
  obtain m2 where "sys_bytes k (GetXstate pid KSNAP_XSTATE_MAX_SIZE) KSNAP_XSTATE_MAX_SIZE m1a = (Inr x, m2)"
    using typed_answers(3)[of k "GetXstate pid KSNAP_XSTATE_MAX_SIZE" m1a x KSNAP_XSTATE_MAX_SIZE] x(1,3) by auto
  then have 2: "read_xstate k pid m1 = (OK x, m2)" using alloc x(2,3) by (simp add: read_xstate_def)
  obtain exe_path m3 where 3: "read_exe_path k pid m2 = (OK exe_path, m3)"
    using exe[of m2] by (auto simp: read_exe_path_def MIN_LEN_PATH_def)
  obtain content m3a where text_of: "sys_text k (OpenText (proc_path pid ''maps'')) m3 = (Inr (content, False), m3a)"
    and lines: "modest_lines (maps_lines content)" "dumped_lines (maps_lines content) \<noteq> []"
      "length (kernel_lines (maps_lines content)) \<le> KSNAP_MAX_KERNEL_MAPS"
      "list_all (\<lambda>p. readable_range k (ml_start p) (ml_end p - ml_start p)) (dumped_lines (maps_lines content))"
    using maps[of m3] by (auto simp: dumpable_lines_def)
  obtain vmas pool kernel_maps m4 where 4: "collect_vmas k pid empty_pool m3 = Some (OK (vmas, pool, kernel_maps), m4)"
    and room: "length (pool_data pool) < 2 ^ 31"
    by (rule collect_vmas_granted[OF mem text_of lines(1,3,2)])
  obtain content' err m3b where
    text': "sys_text k (OpenText (proc_path pid ''maps'')) m3 = (Inr (content', err), m3b)"
    and v: "list_all2 (vma_describes pool) (dumped_lines (maps_lines content')) vmas" and "vmas \<noteq> []"
      "kernel_maps = map kernel_map_of_line (kernel_lines (maps_lines content'))"
      "length kernel_maps \<le> KSNAP_MAX_KERNEL_MAPS" "list_all kernel_map_wf kernel_maps"
    and wf: "pool_wf pool" and "length vmas < 2 ^ 32"
    by (rule collect_vmas_spec[OF 4 empty_pool_wf])
  obtain fds pool' m5 where 5: "collect_fds k pid pool m4 = Some (OK (fds, pool'), m5)"
    by (rule collect_fds_granted[OF mem fds wf room])
  have st: "storable x exe_path vmas fds pool' kernel_maps" by (rule collected_storable[OF 2 3 4 5 laws])
  have "content' = content" using text' text_of by simp
  then have "list_all (\<lambda>v. readable_range k (vma_start_address v) (vma_size v)) vmas"
    using described_readable[OF v] lines(4) by simp
  then obtain m' where "write_snapshot k pid path regs x exe_path vmas fds pool' kernel_maps m5 = Some (OK (), m')"
    by (rule write_snapshot_granted[OF disk st]) (use state in \<open>auto simp: shows_state_def\<close>)
  then show ?thesis using that 1 2 3 4 5 by (simp add: dump_stopped_def)
qed

lemma dump_granted:
  assumes path: "build_snapshot_path config = OK path" and trace: "traceable k (cfg_pid config)"
    and kill: "cfg_kill_after_dump config \<Longrightarrow> \<forall>w. as_unit (fst (k (Kill (cfg_pid config)) w)) = Inr ()"
    and stopped: "\<And>m. \<exists>m'. dump_stopped k (cfg_pid config) path m = Some (OK (), m')"
  shows "\<exists>m'. dump k config m = Some (OK (), m')"
proof -
  let ?pid = "cfg_pid config"
  have t: "as_unit (fst (k (Seize ?pid) w)) = Inr ()" "as_unit (fst (k (Interrupt ?pid) w)) = Inr ()"
    "as_unit (fst (k (Detach ?pid) w)) = Inr ()" "\<exists>status. fst (k (Waitpid ?pid) w) = RInt status \<and> WIFSTOPPED status" for w
    using trace unfolding traceable_def by blast+
  obtain m1 where 1: "sys_unit k (Seize ?pid) m = (Inr (), m1)" using typed_answers(4)[of k "Seize ?pid" m] t by blast
  obtain m2 where 2: "sys_unit k (Interrupt ?pid) m1 = (Inr (), m2)" using typed_answers(4)[of k "Interrupt ?pid" m1] t by blast
  obtain status where "fst (k (Waitpid ?pid) (world m2)) = RInt status" and stop: "WIFSTOPPED status" using t(4) by blast
  then obtain m3 where 3: "sys_int k (Waitpid ?pid) m2 = (Inr status, m3)"
    using typed_answers(1)[of k "Waitpid ?pid" m2] by blast
  obtain m4 where 4: "dump_stopped k ?pid path m3 = Some (OK (), m4)" using stopped by blast
  have "\<exists>m'. dump_detach k config (OK ()) m4 = (OK (), m')"
  proof (cases "cfg_kill_after_dump config")
    case True
    then have "as_unit (fst (k (Kill ?pid) (world m4))) = Inr ()" using kill by blast
    then obtain m5 where "sys_unit k (Kill ?pid) m4 = (Inr (), m5)" using typed_answers(4)[of k "Kill ?pid" m4] by blast
    then show ?thesis using True by (simp add: dump_detach_def)
  next
    case False
    obtain m5 where "sys_unit k (Detach ?pid) m4 = (Inr (), m5)" using typed_answers(4)[of k "Detach ?pid" m4] t by blast
    then show ?thesis using False by (simp add: dump_detach_def)
  qed
  then show ?thesis using path 1 2 3 stop 4 by (auto simp: dump_def dump_seized_def)
qed

section \<open>The verdict of a check\<close>

text \<open>The process is as it was when it was checked: it shows the same, and answers a tracer the same.\<close>

definition holds_still :: "'w kernel \<Rightarrow> int \<Rightarrow> bool" where
  "holds_still k pid \<longleftrightarrow> sits_still k pid \<and>
     (\<forall>c \<in> {Seize pid, Interrupt pid, Waitpid pid, Detach pid}. \<forall>w w'. fst (k c w) = fst (k c w'))"

text \<open>What a check does not look at: the engine gets memory, the descriptors can be looked at, the registers
  are delivered, and memory that belongs to no device can be read.\<close>

definition readable_lines :: "'w kernel \<Rightarrow> int \<Rightarrow> bool" where
  "readable_lines k pid \<longleftrightarrow>
     (\<forall>w content err. fst (k (OpenText (proc_path pid ''maps'')) w) = RText content err \<longrightarrow>
        modest_lines (maps_lines content) \<and>
        list_all (\<lambda>p. starts_with (ml_path p) ''/dev/'' \<or> readable_range k (ml_start p) (ml_end p - ml_start p))
          (dumped_lines (maps_lines content)))"

definition beyond_check :: "'w kernel \<Rightarrow> int \<Rightarrow> bool" where
  "beyond_check k pid \<longleftrightarrow> grants_memory k \<and> readable_fds k pid \<and> shows_state k pid \<and> readable_lines k pid \<and>
     procfs_fd_laws k pid KSNAP_FD_FORBIDDEN_FLAGS"

lemma as_int_stopped: "as_int r = Inr status \<Longrightarrow> r = RInt status"
  by (cases r) auto

lemma probe_ptrace_traceable:
  assumes "probe_ptrace k strerror pid rep m = (rep', m')" "cr_reasons rep' = []" "holds_still k pid"
  shows "traceable k pid"
proof -
  obtain x1 m1 where 1: "sys_unit k (Seize pid) m = (x1, m1)" by fastforce
  obtain x2 m2 where 2: "sys_unit k (Interrupt pid) m1 = (x2, m2)" by fastforce
  obtain x3 m3 where 3: "sys_int k (Waitpid pid) m2 = (x3, m3)" by fastforce
  obtain x4 m4 where 4: "sys_unit k (Detach pid) m3 = (x4, m4)" by fastforce
  have ok: "x1 = Inr ()" "x2 = Inr ()" "\<exists>status. x3 = Inr status \<and> WIFSTOPPED status" "x4 = Inr ()"
    using assms(1,2) 1 2 3 4
    by (cases x1; cases x2; cases x3; cases x4; auto simp: probe_ptrace_def Let_def split: if_splits)+
  obtain status where status: "x3 = Inr status" "WIFSTOPPED status" using ok(3) by blast
  have s: "as_unit (fst (k (Seize pid) (world m))) = Inr ()" "as_unit (fst (k (Interrupt pid) (world m1))) = Inr ()"
    "as_unit (fst (k (Detach pid) (world m3))) = Inr ()" "as_int (fst (k (Waitpid pid) (world m2))) = Inr status"
    using 1 2 3 4 ok(1,2,4) status(1) unfolding typed_turn by simp_all
  have same: "fst (k c w) = fst (k c w')" if "c \<in> {Seize pid, Interrupt pid, Waitpid pid, Detach pid}" for c w w'
    using assms(3) that unfolding holds_still_def by blast
  have "as_unit (fst (k (Seize pid) w)) = Inr ()" for w using same[of "Seize pid" w "world m"] s(1) by simp
  moreover have "as_unit (fst (k (Interrupt pid) w)) = Inr ()" for w using same[of "Interrupt pid" w "world m1"] s(2) by simp
  moreover have "as_unit (fst (k (Detach pid) w)) = Inr ()" for w using same[of "Detach pid" w "world m3"] s(3) by simp
  moreover have "fst (k (Waitpid pid) w) = RInt status" for w
    using same[of "Waitpid pid" w "world m2"] as_int_stopped[OF s(4)] by simp
  ultimately show ?thesis using status(2) by (simp add: traceable_def)
qed

lemma make_report_probed:
  assumes "make_report k strerror pid True m = ((OK (), rep), m')"
  obtains rep6 m6 where "probe_ptrace k strerror pid rep6 m6 = (rep, m')" "cr_reasons rep = []"
  using assms
proof (cases rule: make_report_cases)
  case (full rep1 m1 rep2 m2 rep3 m3 rep4 m4 rep5 m5 rep6 m6)
  have rep0: "cr_reasons rep = []" using full(9) by (simp split: if_splits)
  then have "cr_reasons rep6 = []" using full(8) by (auto split: if_splits)
  then show ?thesis using that full(8) rep0 by simp
qed (use assms in simp_all)

lemma counted_few: "unat (word_of_nat n :: u32) \<le> i \<Longrightarrow> n < 2 ^ 31 \<Longrightarrow> n \<le> i"
  using unat_of_nat_u32[of n] by simp

lemma verdict_lines:
  assumes check: "make_report k strerror pid probe m = ((OK (), rep), m')"
    and still: "sits_still k pid" and lines: "readable_lines k pid"
  shows "(\<exists>content m2. sys_text k (OpenText (proc_path pid ''maps'')) m1 = (Inr (content, False), m2) \<and>
      dumpable_lines k (maps_lines content)) \<and>
    (\<exists>target m2. sys_readlink k (proc_path pid ''exe'') (PATH_MAX - 1) m1 = (Inr target, m2) \<and> target \<noteq> [])"
proof -
  let ?maps = "OpenText (proc_path pid ''maps'')"
  obtain path ma mb mc content md rep4 rep5 me where
    "cr_threads rep \<le> 1" "cr_state rep \<notin> {CHR ''Z'', CHR ''X''}" "cr_tracer_pid rep = 0" "cr_argc rep \<noteq> 0"
    and exe: "sys_readlink k (proc_path pid ''exe'') (PATH_MAX - 1) ma = (Inr path, mb)" "path \<noteq> []"
    and "\<not> has_deleted_suffix path" "sys_unit k (Access path) mb = (Inr (), mc)"
    and read: "sys_text k ?maps mc = (Inr (content, False), md)"
    and facts: "map_facts rep = foldl count_line no_map_facts (maps_lines content)"
    and "cr_shared_vmas rep = 0" and device: "cr_device_vmas rep = 0"
    and few: "unat (cr_kernel_maps rep) \<le> KSNAP_MAX_KERNEL_MAPS" and some: "cr_dumpable_vmas rep \<noteq> 0"
    and "scan_fds k pid rep4 md = (rep5, me)" "fd_facts rep4 = (0, 0, 0)" "fd_facts rep = fd_facts rep5"
    and "probe \<longrightarrow> cr_ptrace_probed rep \<and> cr_ptrace_ok rep"
    by (rule make_report_dumpable[OF check])
  let ?ps = "maps_lines content"
  have shown: "fst (k ?maps (world mc)) = RText content False"
    using read by (cases "fst (k ?maps (world mc))") (auto simp: sys_text_def call_def split: prod.splits)
  have modest: "modest_lines ?ps"
    and ranges: "list_all (\<lambda>p. starts_with (ml_path p) ''/dev/'' \<or> readable_range k (ml_start p) (ml_end p - ml_start p))
      (dumped_lines ?ps)"
    using lines shown unfolding readable_lines_def by blast+
  then have len: "length ?ps < 2 ^ 31" by (simp add: modest_lines_def)
  have bounds: "length (kernel_lines ?ps) < 2 ^ 31" "length (filter P (dumped_lines ?ps)) < 2 ^ 31" for P
    unfolding kernel_lines_def dumped_lines_def
    by (rule le_less_trans[OF length_filter_le len], rule le_less_trans[OF length_filter_le le_less_trans[OF length_filter_le len]])
  have counts: "cr_kernel_maps rep = word_of_nat (length (kernel_lines ?ps))"
    "cr_device_vmas rep = word_of_nat (length (filter (\<lambda>p. starts_with (ml_path p) ''/dev/'') (dumped_lines ?ps)))"
    "cr_dumpable_vmas rep = word_of_nat (length (dumped_lines ?ps))"
    using facts by (simp_all add: map_facts_def no_map_facts_def count_lines)
  have "length (kernel_lines ?ps) \<le> KSNAP_MAX_KERNEL_MAPS"
    using few bounds(1) by - (rule counted_few, simp_all add: counts)
  moreover have "dumped_lines ?ps \<noteq> []" using some by (auto simp: counts)
  moreover have "length (filter (\<lambda>p. starts_with (ml_path p) ''/dev/'') (dumped_lines ?ps)) \<le> 0"
    using device bounds(2) by - (rule counted_few, simp_all flip: counts)
  then have "list_all (\<lambda>p. readable_range k (ml_start p) (ml_end p - ml_start p)) (dumped_lines ?ps)"
    using ranges unfolding list_all_iff by (simp add: filter_empty_conv)
  ultimately have good: "dumpable_lines k ?ps" using modest by (simp add: dumpable_lines_def)
  have "fst (sys_text k ?maps m1) = Inr (content, False)"
    using sits_stillD(1)[OF still, of ?maps m1 mc] read by (simp add: describes_process_def)
  then obtain m2 where "sys_text k ?maps m1 = (Inr (content, False), m2)" by (cases "sys_text k ?maps m1") auto
  moreover have "fst (sys_readlink k (proc_path pid ''exe'') (PATH_MAX - 1) m1) = Inr path"
    using sits_stillD(4)[OF still, of "Readlink (proc_path pid ''exe'') (PATH_MAX - 1)" _ _ m1 ma] exe(1)
    by (simp add: describes_process_def)
  then obtain m3 where "sys_readlink k (proc_path pid ''exe'') (PATH_MAX - 1) m1 = (Inr path, m3)"
    by (cases "sys_readlink k (proc_path pid ''exe'') (PATH_MAX - 1) m1") auto
  ultimately show ?thesis using good exe(2) by blast
qed

lemma verdict_granted:
  assumes check: "make_report k strerror (cfg_pid config) True mc = ((OK (), rep), mc')"
    and still: "holds_still k (cfg_pid config)" and beyond: "beyond_check k (cfg_pid config)" and disk: "disk_works k pos"
    and path: "build_snapshot_path config = OK path"
    and kill: "cfg_kill_after_dump config \<Longrightarrow> \<forall>w. as_unit (fst (k (Kill (cfg_pid config)) w)) = Inr ()"
  shows "\<exists>m'. dump k config m = Some (OK (), m')"
proof -
  let ?pid = "cfg_pid config"
  obtain rep6 m6 where "probe_ptrace k strerror ?pid rep6 m6 = (rep, mc')" "cr_reasons rep = []"
    by (rule make_report_probed[OF check])
  then have trace: "traceable k ?pid" using still by (rule probe_ptrace_traceable)
  have sits: "sits_still k ?pid" using still by (simp add: holds_still_def)
  have b: "grants_memory k" "readable_fds k ?pid" "shows_state k ?pid" "readable_lines k ?pid"
    "procfs_fd_laws k ?pid KSNAP_FD_FORBIDDEN_FLAGS"
    using beyond by (simp_all add: beyond_check_def)
  note shown = verdict_lines[OF check sits b(4)]
  have "\<exists>m'. dump_stopped k ?pid path m1 = Some (OK (), m')" for m1
    by (rule dump_stopped_granted[OF b(1,2) disk b(3,5), where path = path and m = m1]) (use shown in blast)+
  with path trace kill show ?thesis by (rule dump_granted)
qed

end
