(* ===== verification/CheckInput.thy ===== *)
theory CheckInput
  imports Checked
begin

text \<open>
  What \<open>check\<close> reads: the lines of \<open>/proc/<pid>/status\<close> as the kernel prints them, and the
  arguments of \<open>/proc/<pid>/cmdline\<close>.
\<close>

section \<open>Lines of status\<close>

lemma status_formats:
  "status_format ''Name:'' d = [FLit CHR ''N'', FLit CHR ''a'', FLit CHR ''m'', FLit CHR ''e'', FLit CHR '':'', FSpace, d]"
  "status_format ''State:'' d = [FLit CHR ''S'', FLit CHR ''t'', FLit CHR ''a'', FLit CHR ''t'', FLit CHR ''e'',
     FLit CHR '':'', FSpace, d]"
  "status_format ''Uid:'' d = [FLit CHR ''U'', FLit CHR ''i'', FLit CHR ''d'', FLit CHR '':'', FSpace, d]"
  "status_format ''Threads:'' d = [FLit CHR ''T'', FLit CHR ''h'', FLit CHR ''r'', FLit CHR ''e'', FLit CHR ''a'',
     FLit CHR ''d'', FLit CHR ''s'', FLit CHR '':'', FSpace, d]"
  "status_format ''TracerPid:'' d = [FLit CHR ''T'', FLit CHR ''r'', FLit CHR ''a'', FLit CHR ''c'', FLit CHR ''e'',
     FLit CHR ''r'', FLit CHR ''P'', FLit CHR ''i'', FLit CHR ''d'', FLit CHR '':'', FSpace, d]"
  "status_format ''VmRSS:'' d = [FLit CHR ''V'', FLit CHR ''m'', FLit CHR ''R'', FLit CHR ''S'', FLit CHR ''S'',
     FLit CHR '':'', FSpace, d]"
  by (simp_all add: status_format_def fmt_text_def isspace_def)

text \<open>The number after the blank of a line.\<close>

definition numeral_text :: "string \<Rightarrow> bool" where
  "numeral_text ds \<longleftrightarrow> list_all (base_digit 10) ds \<and> ds \<noteq> [] \<and> NUL \<notin> set ds"

lemma dropWhile_numeral: "numeral_text ds \<Longrightarrow> isspace b \<Longrightarrow> dropWhile isspace (b # ds @ r) = ds @ r"
  using dropWhile_digits[of 10 ds r] by (simp add: numeral_text_def)

lemma scan_numeral:
  assumes "numeral_text ds" "digits_value 10 ds < 2 ^ 31" "isspace y"
  shows "scan_long (ds @ y # r) = Some (int (digits_value 10 ds), y # r)"
    "scan_ulong 10 (ds @ y # r) = Some (word_of_nat (digits_value 10 ds), y # r)"
proof -
  have y: "\<not> base_digit 10 y" "y \<noteq> CHR ''x''" "y \<noteq> CHR ''X''"
    using assms(3) by (auto simp: isspace_def base_digit_def digit_val_def)
  have m: "scan_magnitude 10 (ds @ y # r) = Some (False, digits_value 10 ds, y # r)"
    using assms(1) y by (intro scan_magnitude_digits) (auto simp: numeral_text_def)
  show "scan_long (ds @ y # r) = Some (int (digits_value 10 ds), y # r)"
    using assms(2) by (simp add: scan_long_def m)
  show "scan_ulong 10 (ds @ y # r) = Some (word_of_nat (digits_value 10 ds), y # r)"
    using assms(2) by (simp add: scan_ulong_def m)
qed

lemma int_of_long_small: "n < 2 ^ 31 \<Longrightarrow> int_of_long (int n) = int n"
  unfolding int_of_long_def
  by (subst signed_of_int, subst signed_take_bit_int_eq_self) auto

lemma status_line_numbers:
  assumes "numeral_text ds" "digits_value 10 ds < 2 ^ 31" "isspace b" "b \<noteq> NUL" "isspace y" "NUL \<notin> set (y # r)"
  defines "n \<equiv> digits_value 10 ds"
  shows "status_line rep (''Threads:'' @ b # ds @ y # r) = rep\<lparr>cr_threads := int n\<rparr>"
    "status_line rep (''TracerPid:'' @ b # ds @ y # r) = rep\<lparr>cr_tracer_pid := int n\<rparr>"
    "status_line rep (''Uid:'' @ b # ds @ y # r) = rep\<lparr>cr_uid := word_of_nat n\<rparr>"
    "status_line rep (''VmRSS:'' @ b # ds @ y # r) = rep\<lparr>cr_rss_kb := word_of_nat n\<rparr>"
proof -
  have nul: "NUL \<notin> set (b # ds @ y # r)" using assms by (auto simp: numeral_text_def)
  have cast: "ucast (word_of_nat n :: u64) = (word_of_nat n :: u32)" by transfer (simp add: take_bit_of_nat)
  note scan = scan_numeral[OF assms(1,2,5), of r] dropWhile_numeral[OF assms(1,3), of "y # r"]
    int_of_long_small[OF assms(2)]
  show "status_line rep (''Threads:'' @ b # ds @ y # r) = rep\<lparr>cr_threads := int n\<rparr>"
    "status_line rep (''TracerPid:'' @ b # ds @ y # r) = rep\<lparr>cr_tracer_pid := int n\<rparr>"
    "status_line rep (''Uid:'' @ b # ds @ y # r) = rep\<lparr>cr_uid := word_of_nat n\<rparr>"
    "status_line rep (''VmRSS:'' @ b # ds @ y # r) = rep\<lparr>cr_rss_kb := word_of_nat n\<rparr>"
    using nul cast by (simp_all add: status_line_def starts_with_def status_formats sscanf_def c_str_id scan n_def
        del: dropWhile.simps)
qed

lemma status_line_state:
  assumes "isspace b" "b \<noteq> NUL" "\<not> isspace c" "NUL \<notin> set (c # r)"
  shows "status_line rep (''State:'' @ b # c # r) = rep\<lparr>cr_state := c\<rparr>"
  using assms by (simp add: status_line_def starts_with_def status_formats sscanf_def c_str_id)

lemma status_line_name:
  assumes "isspace b" "b \<noteq> NUL" "name = c # cs" "\<not> isspace c" "NUL \<notin> set name" "CHR 0x0A \<notin> set name"
  shows "status_line rep (''Name:'' @ b # name @ [CHR 0x0A]) = rep\<lparr>cr_comm := take 63 name\<rparr>"
proof -
  have "takeWhile (\<lambda>c. c \<noteq> CHR 0x0A) (name @ [CHR 0x0A]) = name"
    using assms(6) by (rule takeWhile_neq_append)
  then show ?thesis
    using assms by (simp add: status_line_def starts_with_def status_formats sscanf_def c_str_id COMM_LEN_def)
qed

section \<open>Arguments\<close>

text \<open>The pieces of a text between its NULs.\<close>

fun pieces :: "bytes \<Rightarrow> bytes list" where
  "pieces [] = [[]]"
| "pieces (c # s) = (if c = NUL then [] # pieces s else (c # hd (pieces s)) # tl (pieces s))"

lemma pieces_nonempty [simp]: "pieces s \<noteq> []"
  by (cases s) auto

lemma count_arguments_pieces:
  "count_arguments s pending n =
     n + (if pending then Suc (length (filter (\<lambda>p. p \<noteq> []) (tl (pieces s)))) else length (filter (\<lambda>p. p \<noteq> []) (pieces s)))"
proof (induction s arbitrary: pending n)
  case (Cons c s)
  then show ?case by (cases "pieces s") auto
qed simp

text \<open>The command line as the kernel stores it: every argument with its terminator.\<close>

definition cmdline_of :: "string list \<Rightarrow> bytes" where
  "cmdline_of args = concat (List.map (\<lambda>a. a @ [NUL]) args)"

lemma pieces_cmdline: "list_all (\<lambda>a. NUL \<notin> set a) args \<Longrightarrow> pieces (cmdline_of args) = args @ [[]]"
proof (induction args)
  case (Cons a args)
  have "NUL \<notin> set a \<Longrightarrow> pieces (a @ NUL # s) = a # pieces s" for s
    by (induction a) auto
  then show ?case using Cons by (simp add: cmdline_of_def)
qed (simp add: cmdline_of_def)

lemma count_arguments_cmdline:
  "list_all (\<lambda>a. NUL \<notin> set a) args \<Longrightarrow>
   count_arguments (cmdline_of args) False 0 = length (filter (\<lambda>a. a \<noteq> []) args)"
  by (simp add: count_arguments_pieces pieces_cmdline)

section \<open>No arguments at all\<close>

lemma status_lines_argc: "cr_argc (foldl status_line rep lines) = cr_argc rep"
proof (induction lines rule: rev_induct)
  case (snoc line lines)
  have "cr_argc (status_line r line) = cr_argc r" for r
    by (rule status_line_cases[where P = "\<lambda>x. cr_argc x = cr_argc r"]) simp_all
  then show ?case using snoc by simp
qed simp

text \<open>A command line without a character, or one that cannot be opened.\<close>

definition no_arguments :: "'w kernel \<Rightarrow> int \<Rightarrow> bool" where
  "no_arguments k pid \<longleftrightarrow>
     (\<forall>w s err. fst (k (OpenText (proc_path pid ''cmdline'')) w) = RText s err \<longrightarrow> set s \<subseteq> {NUL})"

lemma count_arguments_none: "set s \<subseteq> {NUL} \<Longrightarrow> count_arguments s False n = n"
  by (induction s) auto

lemma cheap_verdicts_kernel_thread:
  assumes "cr_argc rep = 0" "length (cr_reasons rep) < 4"
  shows "''kernel_thread'' \<in> rs_code ` set (cr_reasons (cheap_verdicts rep))"
  using assms by (simp add: cheap_verdicts_def Let_def add_reason_def KSNAP_MAX_REASONS_def)

lemma no_arguments_kernel_thread:
  assumes "make_report k strerror pid probe m = ((r, rep), m')" and "no_arguments k pid"
      and "\<And>w. \<exists>s err. fst (k (OpenText (proc_path pid ''status'')) w) = RText s err"
  shows "r = ERROR \<and> ''kernel_thread'' \<in> rs_code ` set (cr_reasons rep)"
proof -
  have argc: "cr_argc rep2 = 0" "cr_reasons rep2 = []"
    if "read_status_fields k pid (initial_report pid) m = ((OK (), rep1), m1)"
      "read_cmdline_argc k pid rep1 m1 = (rep2, m2)" for rep1 m1 rep2 m2
  proof -
    have init: "cr_argc (initial_report pid) = 0" "cr_reasons (initial_report pid) = []"
      by (simp_all add: initial_report_def)
    have rep1: "cr_argc rep1 = 0" "cr_reasons rep1 = []"
      using that(1) adds_read_status_fields(2)[OF that(1)] init status_lines_argc[of "initial_report pid"]
      by (auto simp: read_status_fields_def adds_def split: prod.splits sum.splits)
    show "cr_reasons rep2 = []" using adds_read_cmdline_argc[OF that(2)] rep1 by (simp add: adds_def)
    have none: "count_arguments s False 0 = 0"
      if "fst (k (OpenText (proc_path pid ''cmdline'')) (world m1)) = RText s err" for s err
      using that assms(2) unfolding no_arguments_def by (blast intro: count_arguments_none)
    show "cr_argc rep2 = 0"
      using that(2) rep1 none
      by (cases "fst (k (OpenText (proc_path pid ''cmdline'')) (world m1))")
        (auto simp: read_cmdline_argc_def sys_text_def call_def split: prod.splits)
  qed
  from assms(1) show ?thesis
  proof (cases rule: make_report_cases)
    case unread
    obtain s err where "fst (k (OpenText (proc_path pid ''status'')) (world m)) = RText s err" using assms(3) by blast
    then show ?thesis using unread(1) by (auto simp: read_status_fields_def sys_text_def call_def split: prod.splits)
  next
    case (cheap rep1 m1 rep2)
    then show ?thesis using argc[OF cheap(1,2)] cheap_verdicts_kernel_thread[of rep2] by simp
  next
    case (full rep1 m1 rep2 m2 rep3 m3 rep4 m4 rep5 m5 rep6 m6)
    then show ?thesis using argc[OF full(1,2)] by (simp add: cheap_verdicts_empty)
  qed
qed

end
