(* ===== verification/Program.thy ===== *)
theory Program
  imports ArgParser Checker Dump Restore
begin

text \<open>
  \<open>src/main.c\<close>: the command line is parsed and the mode it names is run. The texts of \<open>-h\<close> and of
  \<open>check_status\<close> are not modelled.
\<close>

definition EXIT_SUCCESS :: int where "EXIT_SUCCESS = 0"
definition EXIT_FAILURE :: int where "EXIT_FAILURE = 1"

text \<open>How a run ends: with an exit status, or, in the child a restore has forked, as that child ends.\<close>

datatype program_end = Exit int | InChild child_end

text \<open>\<open>dump (config) != OK\<close>, \<open>restorer (config) != OK\<close>. The caller sees only the parent of the
  fork.\<close>

definition dump_status :: "unit rc \<Rightarrow> program_end" where
  "dump_status result = Exit (if result \<noteq> OK () then EXIT_FAILURE else EXIT_SUCCESS)"

fun restore_status :: "restore_end \<Rightarrow> program_end" where
  "restore_status (Parent result) = Exit (if result \<noteq> OK () then EXIT_FAILURE else EXIT_SUCCESS)"
| "restore_status (Child e) = InChild e"

definition run_mode ::
    "'w kernel \<Rightarrow> (errno \<Rightarrow> string) \<Rightarrow> int \<Rightarrow> ksnap_config \<Rightarrow> 'w machine \<Rightarrow> (program_end \<times> 'w machine) option" where
  "run_mode k strerror junk config m =
     (if cfg_mode config = Some ''DUMP'' then map_option (map_prod dump_status id) (dump k config m)
      else if cfg_mode config = Some ''RESTORE'' then Some (map_prod restore_status id (restorer k junk config m))
      else if cfg_mode config = Some ''CHECK'' then Some (map_prod Exit id (check k strerror config m))
      else Some (Exit EXIT_SUCCESS, m))"

text \<open>\<open>args\<close> is \<open>argv\<close> without the name of the program; \<open>posix\<close> is whether \<open>POSIXLY_CORRECT\<close> is set, \<open>junk\<close> the
  uninitialised status variable of the restorer.\<close>

definition main ::
    "'w kernel \<Rightarrow> (errno \<Rightarrow> string) \<Rightarrow> int \<Rightarrow> bool \<Rightarrow> string list \<Rightarrow> 'w machine \<Rightarrow>
      (program_end \<times> 'w machine) option" where
  "main k strerror junk posix args m =
     (case parse_arg posix args of
        UsageExit \<Rightarrow> Some (Exit EXIT_SUCCESS, m)
      | Parsed status config \<Rightarrow>
          if \<not> check_status status then Some (Exit EXIT_FAILURE, m)
          else run_mode k strerror junk config m)"

section \<open>Exit statuses\<close>

text \<open>The contract of the three modes.\<close>

definition exit_contract ::
    "'w kernel \<Rightarrow> (errno \<Rightarrow> string) \<Rightarrow> int \<Rightarrow> ksnap_config \<Rightarrow> 'w machine \<Rightarrow> program_end \<Rightarrow> 'w machine \<Rightarrow> bool"
  where
  "exit_contract k strerror junk config m e m' \<longleftrightarrow>
     (if cfg_mode config = Some ''DUMP'' then
        (e = Exit 0 \<and> dump k config m = Some (OK (), m')) \<or> (e = Exit 1 \<and> dump k config m = Some (ERROR, m'))
      else if cfg_mode config = Some ''RESTORE'' then
        (e = Exit 0 \<and> restorer k junk config m = (Parent (OK ()), m')) \<or>
        (e = Exit 1 \<and> restorer k junk config m = (Parent ERROR, m')) \<or>
        (\<exists>c. e = InChild c \<and> restorer k junk config m = (Child c, m'))
      else cfg_mode config = Some ''CHECK'' \<and>
        (\<exists>s. e = Exit s \<and> check k strerror config m = (s, m') \<and> s \<in> {0, 1, 11} \<and>
           (s = 1 \<longrightarrow> cfg_pid config = -1) \<and> (s = 11 \<longrightarrow> cfg_pid config \<noteq> -1)))"

lemma check_exits:
  "check k strerror config m = (s, m') \<Longrightarrow> s \<in> {0, 1, 11} \<and> (s = 1 \<longrightarrow> cfg_pid config = -1) \<and>
   (s = 11 \<longrightarrow> cfg_pid config \<noteq> -1)"
  by (auto simp: check_def check_all_def check_one_def KSNAP_CHECK_EXIT_DUMPABLE_def KSNAP_CHECK_EXIT_ERROR_def
      KSNAP_CHECK_EXIT_BLOCKED_def split: if_splits prod.splits sum.splits)

lemma main_contract:
  assumes "main k strerror junk posix args m = Some (e, m')" "parse_arg posix args = Parsed KSNAP_OK config"
  shows "exit_contract k strerror junk config m e m'"
proof -
  have run: "run_mode k strerror junk config m = Some (e, m')"
    using assms by (simp add: main_def check_status_def)
  obtain md where md: "cfg_mode config = Some md" "md \<in> {''DUMP'', ''RESTORE'', ''CHECK''}"
    using parse_arg_accepted[OF assms(2)] by blast
  consider "md = ''DUMP''" | "md = ''RESTORE''" | "md = ''CHECK''" using md(2) by blast
  then show ?thesis
  proof cases
    case 1
    then obtain r where d: "dump k config m = Some (r, m')" and e: "e = dump_status r"
      using run md(1) by (auto simp: run_mode_def)
    then show ?thesis
      using 1 md(1) by (cases r) (simp_all add: exit_contract_def dump_status_def EXIT_SUCCESS_def EXIT_FAILURE_def)
  next
    case 2
    then obtain r where r: "restorer k junk config m = (r, m')" and e: "e = restore_status r"
      using run md(1) by (cases "restorer k junk config m") (auto simp: run_mode_def)
    show ?thesis
    proof (cases r)
      case (Parent result)
      then show ?thesis
        using 2 md(1) r e by (cases result) (simp_all add: exit_contract_def EXIT_SUCCESS_def EXIT_FAILURE_def)
    qed (use 2 md(1) r e in \<open>simp add: exit_contract_def\<close>)
  next
    case 3
    obtain s m1 where s: "check k strerror config m = (s, m1)" by fastforce
    then show ?thesis
      using 3 run md(1) check_exits[OF s] by (auto simp: run_mode_def exit_contract_def)
  qed
qed

end
