(* ===== verification/Protocol.thy ===== *)
theory Protocol
  imports Checked Checkpoint
begin

text \<open>
  What a tracer may do to a process, as a state machine over the calls and their answers, and that
  the runs of \<open>dump\<close> and \<open>check\<close> are runs of it which do not end while the process is held.
\<close>

section \<open>The protocol\<close>

text \<open>A process that is not traced, one that is held by the tracer, one that was sent its end, and one
  that is gone.\<close>

datatype hold = Free | Held | Killed | Reaped

inductive tracer_step :: "int \<Rightarrow> hold \<Rightarrow> syscall \<times> reply \<Rightarrow> hold \<Rightarrow> bool" for pid :: int where
  seize: "as_unit a = Inr () \<Longrightarrow> tracer_step pid Free (Seize pid, a) Held"
| refused: "as_unit a \<noteq> Inr () \<Longrightarrow> tracer_step pid Free (Seize pid, a) Free"
| interrupt: "tracer_step pid Held (Interrupt pid, a) Held"
| stopped: "tracer_step pid Held (Waitpid pid, a) Held"
| look: "inspects c \<Longrightarrow> tracer_step pid h (c, a) h"
| report: "prints c \<Longrightarrow> tracer_step pid h (c, a) h"
| detach: "tracer_step pid Held (Detach pid, a) Free"
| kill: "as_unit a = Inr () \<Longrightarrow> tracer_step pid Held (Kill pid, a) Killed"
| not_killed: "as_unit a \<noteq> Inr () \<Longrightarrow> tracer_step pid Held (Kill pid, a) Held"
| reap: "tracer_step pid Killed (Waitpid pid, a) Reaped"

inductive tracer_run :: "int \<Rightarrow> hold \<Rightarrow> (syscall \<times> reply) list \<Rightarrow> hold \<Rightarrow> bool" for pid :: int where
  stay: "tracer_run pid h [] h"
| go_on: "tracer_step pid h ev h1 \<Longrightarrow> tracer_run pid h1 evs h2 \<Longrightarrow> tracer_run pid h (ev # evs) h2"

inductive_simps tracer_run_Nil [simp]: "tracer_run pid h [] h'"
inductive_simps tracer_run_Cons [simp]: "tracer_run pid h (ev # evs) h'"

inductive_simps tracer_steps:
  "tracer_step pid h (Seize p, a) h'" "tracer_step pid h (Interrupt p, a) h'" "tracer_step pid h (Waitpid p, a) h'"
  "tracer_step pid h (Detach p, a) h'" "tracer_step pid h (Kill p, a) h'"

text \<open>The five calls of the protocol as equations.\<close>

lemmas protocol = tracer_steps[simplified]

lemma tracer_step_look: "inspects c \<or> prints c \<Longrightarrow> tracer_step pid h (c, a) h' \<longleftrightarrow> h' = h"
  by (cases c) (auto elim: tracer_step.cases intro: look report)

lemma tracer_run_append:
  "tracer_run pid h (evs @ evs') h' \<longleftrightarrow> (\<exists>h1. tracer_run pid h evs h1 \<and> tracer_run pid h1 evs' h')"
  by (induction evs arbitrary: h) auto

text \<open>Only a process that is held is stopped, released or killed, and no other process is touched.\<close>

lemma tracer_run_touches:
  assumes "tracer_run pid Free evs h" "(c, a) \<in> set evs" "c = Detach p \<or> c = Kill p \<or> c = Interrupt p"
  obtains before_it after_it where "evs = before_it @ (c, a) # after_it" "p = pid" "tracer_run pid Free before_it Held"
proof -
  obtain xs ys where evs: "evs = xs @ (c, a) # ys" using split_list[OF assms(2)] by blast
  then obtain h1 h2 where h: "tracer_run pid Free xs h1" "tracer_step pid h1 (c, a) h2"
    using assms(1) by (auto simp: tracer_run_append)
  then have "h1 = Held \<and> p = pid" using assms(3) by (auto simp: protocol)
  then show ?thesis using that evs h(1) by blast
qed

lemma tracer_run_looks:
  "list_all (\<lambda>ev. inspects (fst ev) \<or> prints (fst ev)) evs \<Longrightarrow> tracer_run pid h evs h"
  by (induction evs) (auto simp: tracer_step_look)

lemma tracer_run_held:
  "list_all (stops_or_inspects pid \<circ> fst) evs \<Longrightarrow> tracer_run pid Held evs Held"
  by (induction evs) (auto simp: stops_or_inspects_def protocol tracer_step_look)

section \<open>Runs of the engine\<close>

lemma lets_go_run:
  assumes "lets_go config r evs"
  shows "tracer_run (cfg_pid config) Held evs Free \<or>
    tracer_run (cfg_pid config) Held evs Reaped \<and> r = OK () \<and> cfg_kill_after_dump config"
  using assms by (auto simp: lets_go_def protocol)

lemma dump_run:
  assumes "dump k config m = Some (r, m')"
  shows "\<exists>evs h. log m' = log m @ evs \<and> tracer_run (cfg_pid config) Free evs h \<and>
    (h = Free \<or> h = Reaped \<and> r = OK () \<and> cfg_kill_after_dump config)"
proof -
  from assms show ?thesis
  proof (cases rule: dump_releases)
    case no_path
    then show ?thesis by (intro exI[of _ "[]"]) simp
  next
    case (not_seized s)
    then show ?thesis by (intro exI[of _ "[(Seize (cfg_pid config), s)]"]) (auto simp: protocol)
  next
    case (seized s mid evs)
    let ?p = "cfg_pid config"
    have "tracer_run ?p Held mid Held" using seized(3) by (rule tracer_run_held)
    then have "\<exists>h. tracer_run ?p Held (mid @ evs) h \<and> (h = Free \<or> h = Reaped \<and> r = OK () \<and> cfg_kill_after_dump config)"
      using lets_go_run[OF seized(4)] by (auto simp: tracer_run_append)
    then show ?thesis using seized(1,2) by (auto simp: protocol)
  qed
qed

lemma probes_run: "probes pid evs \<Longrightarrow> tracer_run pid Free evs Free"
proof -
  have "set (List.map fst mid) \<subseteq> {Interrupt pid, Waitpid pid} \<Longrightarrow> tracer_run pid Held mid Held" for mid
    by (rule tracer_run_held) (auto simp: list_all_iff stops_or_inspects_def)
  then show "probes pid evs \<Longrightarrow> tracer_run pid Free evs Free"
    by (auto simp: probes_def tracer_run_append protocol)
qed

lemma check_one_run:
  assumes "check_one k strerror pid probe m = (status, m')"
  shows "\<exists>evs. log m' = log m @ evs \<and> tracer_run pid Free evs Free"
proof -
  obtain rep looks evs a where l: "log m' = log m @ looks @ evs @ [(Puts (print_report rep), a)]"
    "list_all (inspects \<circ> fst) looks" "evs = [] \<or> probe \<and> probes pid evs" "cr_pid rep = pid" "report_wf rep"
    "status = (if cr_reasons rep = [] then KSNAP_CHECK_EXIT_DUMPABLE else KSNAP_CHECK_EXIT_BLOCKED)"
    "procfs_status_laws k \<longrightarrow> plain [cr_state rep]"
    by (rule check_one_log[OF assms])
  have "tracer_run pid Free looks Free" using l(2) by (intro tracer_run_looks) (auto simp: list_all_iff)
  moreover have "tracer_run pid Free evs Free" using l(3) probes_run by auto
  moreover have "tracer_run pid Free [(Puts (print_report rep), a)] Free"
    by (intro tracer_run_looks) simp
  ultimately have "tracer_run pid Free (looks @ evs @ [(Puts (print_report rep), a)]) Free"
    unfolding tracer_run_append by blast
  then show ?thesis using l(1) by blast
qed

lemma check_all_run:
  assumes "check_all k strerror m = (status, m')"
  shows "\<exists>evs. log m' = log m @ evs \<and> tracer_run pid Free evs Free"
  using assms
proof (cases rule: check_all_log)
  case (closed a)
  then show ?thesis by (auto simp: tracer_step_look)
next
  case (swept entries g evs reps)
  then have "tracer_run pid Free evs Free" by (intro tracer_run_looks)
  then show ?thesis using swept(1) by (auto simp: tracer_step_look)
qed

lemma check_run:
  assumes "check k strerror config m = (status, m')"
  shows "\<exists>evs. log m' = log m @ evs \<and> tracer_run (cfg_pid config) Free evs Free"
  using assms check_all_run[of k strerror m status m'] check_one_run[of k strerror "cfg_pid config" True m status m']
  by (auto simp: check_def split: if_splits)

end
