(* ===== verification/Engine.thy ===== *)
theory Engine
  imports Program Protocol
begin

text \<open>
  The program as a whole: it ends, and a process it dumps or checks is not left held, on every path
  through the command line and the modes.
\<close>

lemma main_run:
  assumes "main k strerror junk posix args m = Some (e, m')" "parse_arg posix args = Parsed KSNAP_OK config"
    and "cfg_mode config \<noteq> Some ''RESTORE''"
  shows "\<exists>evs h. log m' = log m @ evs \<and> tracer_run (cfg_pid config) Free evs h \<and>
    (h = Free \<or> h = Reaped \<and> e = Exit 0 \<and> cfg_kill_after_dump config)"
proof -
  note contract = main_contract[OF assms(1,2)]
  show ?thesis
  proof (cases "cfg_mode config = Some ''DUMP''")
    case True
    then obtain r where "dump k config m = Some (r, m')" "r = OK () \<Longrightarrow> e = Exit 0"
      using contract by (auto simp: exit_contract_def)
    then show ?thesis using dump_run by blast
  next
    case False
    then obtain s where "check k strerror config m = (s, m')"
      using contract assms(3) by (auto simp: exit_contract_def)
    then show ?thesis using check_run by blast
  qed
qed

lemma main_total:
  assumes "interrupts_bounded k fuel"
  shows "\<exists>e m'. main k strerror junk posix args m = Some (e, m')"
proof (cases "parse_arg posix args")
  case (Parsed status config)
  have "\<exists>r m1. dump k config m = Some (r, m1)" using assms by (rule dump_total)
  then have "\<exists>x. run_mode k strerror junk config m = Some x" by (auto simp: run_mode_def)
  then show ?thesis using Parsed by (auto simp: main_def)
qed (simp add: main_def)

end
