(* ===== verification/SampleCheck.thy ===== *)
theory SampleCheck
  imports Sample Granted CheckInput Engine
begin

text \<open>
  The process of \<open>Sample\<close> under \<open>check\<close>, and a kernel whose process has a descriptor that cannot be
  looked at.
\<close>

section \<open>A dumpable process\<close>

definition no_strerror :: "errno \<Rightarrow> string" where
  "no_strerror e = ''error''"

lemma sample_status_lines:
  "foldl status_line (initial_report 42) (stream_lines 512 sample_status) =
   (initial_report 42)\<lparr>cr_comm := ''x'', cr_state := CHR ''S'', cr_uid := 1000, cr_rss_kb := 772, cr_threads := 1\<rparr>"
  by code_simp

lemma sample_status_laws: "procfs_status_laws sample_kernel"
proof -
  have "list_all (\<lambda>line. case sscanf (status_format ''State:'' FChar) line of [SChar c] \<Rightarrow> plain [c] | _ \<Rightarrow> True)
      (stream_lines 512 sample_status)"
    by code_simp
  then show ?thesis
    by (fastforce simp: procfs_status_laws_def list_all_iff sample_kernel_def sample_reply_def sample_text_proc)
qed

lemma sample_still: "sits_still sample_kernel pid"
  by (simp add: sits_still_def sample_kernel_def)

definition sample_report :: "int \<Rightarrow> check_report" where
  "sample_report open_fds = (initial_report 42)
     \<lparr>cr_comm := ''x'', cr_state := CHR ''S'', cr_threads := 1, cr_argc := 1, cr_uid := 1000, cr_rss_kb := 772,
      cr_exe_path := ''/bin/x'', cr_dumpable_vmas := 1, cr_snapshot_bytes := 0x1000, cr_open_fds := open_fds,
      cr_ptrace_probed := True, cr_ptrace_ok := True\<rparr>"

text \<open>A kernel that answers \<open>check\<close> like the one of \<open>Sample\<close>, but for the descriptors.\<close>

definition sample_but_fds :: "'w kernel \<Rightarrow> bool" where
  "sample_but_fds k \<longleftrightarrow>
     (\<forall>c w. (case c of
        OpenText _ \<Rightarrow> True | Readlink path _ \<Rightarrow> path = proc_path 42 ''exe'' | Access _ \<Rightarrow> True | Seize _ \<Rightarrow> True
      | Interrupt _ \<Rightarrow> True | Waitpid _ \<Rightarrow> True | Detach _ \<Rightarrow> True | _ \<Rightarrow> False) \<longrightarrow> k c w = (sample_reply c, w))"

lemma sample_but_fdsD:
  assumes "sample_but_fds k"
  shows "k (OpenText path) w = (RText (sample_text path) False, w)" "k (Readlink (proc_path 42 ''exe'') n) w = (RBytes ''/bin/x'', w)"
    "k (Access path) w = (RInt 0, w)" "k (Seize pid) w = (RInt 0, w)" "k (Interrupt pid) w = (RInt 0, w)"
    "k (Waitpid pid) w = (RInt 0x137F, w)" "k (Detach pid) w = (RInt 0, w)"
  using assms[unfolded sample_but_fds_def, THEN spec, of "OpenText path"]
    assms[unfolded sample_but_fds_def, THEN spec, of "Readlink (proc_path 42 ''exe'') n"]
    assms[unfolded sample_but_fds_def, THEN spec, of "Access path"] assms[unfolded sample_but_fds_def, THEN spec, of "Seize pid"]
    assms[unfolded sample_but_fds_def, THEN spec, of "Interrupt pid"] assms[unfolded sample_but_fds_def, THEN spec, of "Waitpid pid"]
    assms[unfolded sample_but_fds_def, THEN spec, of "Detach pid"]
  by (simp_all add: sample_reply_def)

lemma sample_make_report:
  assumes k: "sample_but_fds k"
    and fds: "\<And>rep m. \<exists>m'. scan_fds k 42 rep m = (rep\<lparr>cr_open_fds := cr_open_fds rep + n\<rparr>, m')"
  shows "\<exists>m'. make_report k no_strerror 42 True m = ((OK (), sample_report n), m')"
proof -
  let ?r1 = "(initial_report 42)\<lparr>cr_comm := ''x'', cr_state := CHR ''S'', cr_uid := 1000, cr_rss_kb := 772, cr_threads := 1\<rparr>"
  let ?r2 = "?r1\<lparr>cr_argc := 1\<rparr>"
  let ?r3 = "?r2\<lparr>cr_exe_path := ''/bin/x''\<rparr>"
  let ?r4 = "?r3\<lparr>cr_dumpable_vmas := 1, cr_snapshot_bytes := 0x1000\<rparr>"
  let ?r5 = "?r4\<lparr>cr_open_fds := n\<rparr>"
  note calls = sys_defs call_def sample_but_fdsD[OF k] sample_text_proc
  obtain m1 where 1: "read_status_fields k 42 (initial_report 42) m = ((OK (), ?r1), m1)"
    by (simp add: read_status_fields_def calls sample_status_lines)
  obtain m2 where 2: "read_cmdline_argc k 42 ?r1 m1 = (?r2, m2)"
    by (simp add: read_cmdline_argc_def calls)
  have 3: "cheap_verdicts ?r2 = ?r2" by (simp add: cheap_verdicts_def initial_report_def)
  have none: "cr_reasons ?r2 = []" "cr_reasons ?r3 = []" "cr_reasons ?r4 = []" "cr_reasons ?r5 = []"
    by (simp_all add: initial_report_def)
  obtain m3 where 4: "probe_exe k no_strerror 42 ?r2 m2 = (?r3, m3)"
    by (simp add: probe_exe_def calls PATH_MAX_def MIN_LEN_PATH_def c_str_def has_deleted_suffix_def DELETED_SUFFIX_def)
  obtain m4 where 5: "scan_maps k 42 ?r3 m3 = (?r4, m4)"
  proof -
    have "ml_path sample_line = []" "ml_end sample_line - ml_start sample_line = 0x1000"
      by (simp_all add: sample_line_def)
    then have "scan_line (?r3, [], []) sample_line = (?r4, [], [])"
      by (simp add: sample_classify starts_with_def initial_report_def)
    then show ?thesis using that
      by (simp add: scan_maps_def calls sample_maps_lines judge_maps_def initial_report_def)
  qed
  obtain m5 where 6: "scan_fds k 42 ?r4 m4 = (?r5, m5)"
    using fds[of ?r4 m4] by (auto simp: initial_report_def)
  obtain m6 where 7: "count_children k 42 ?r5 m5 = (?r5, m6)"
  proof -
    have "count_numbers [] = 0" by (subst count_numbers.simps) (simp add: scan_long_def scan_magnitude_def)
    moreover have "sample_text (proc_path 42 (''task/'' @ dec_int 42 @ ''/children'')) = []"
      by (rule sample_text_proc(4))
    ultimately show ?thesis using that by (simp add: count_children_def sys_defs call_def sample_but_fdsD[OF k])
  qed
  obtain m7 where 8: "probe_ptrace k no_strerror 42 ?r5 m6 = (sample_report n, m7)"
    by (simp add: probe_ptrace_def calls WIFSTOPPED_def sample_report_def initial_report_def)
  have "cr_reasons (sample_report n) = []" by (simp add: sample_report_def initial_report_def)
  then show ?thesis using none by (simp add: make_report_def 1 2 3 4 5 6 7 8 del: check_report.update_convs)
qed

lemma sample_checked: "\<exists>m'. make_report sample_kernel no_strerror 42 True m = ((OK (), sample_report 0), m')"
  by (rule sample_make_report) (auto simp: sample_but_fds_def scan_fds_def sample_calls split: syscall.splits)

section \<open>A process with an unreadable descriptor\<close>

text \<open>The same process with a descriptor 3 whose file may not be looked at.\<close>

definition closed_kernel :: "unit kernel" where
  "closed_kernel c w =
     (case c of
        ListDir path \<Rightarrow> (RNames [''3''], w)
      | Readlink path n \<Rightarrow> ((if path = fd_link 42 3 then RBytes ''/mnt/f'' else sample_reply c), w)
      | _ \<Rightarrow> (sample_reply c, w))"

lemma closed_unreadable: "unreadable_fd closed_kernel 42 ''3''"
proof -
  have "atoi ''3'' = 3" by code_simp
  then show ?thesis
    by (auto simp: unreadable_fd_def char_at_def isdigit_def classify_fd_def STDERR_FILENO_def sys_readlink_def sys_stat_def
        call_def closed_kernel_def sample_reply_def PATH_MAX_def c_str_def starts_with_def FD_SOCKET_def FD_PIPE_def
        FD_ANON_def)
qed

lemma closed_checked: "\<exists>m'. make_report closed_kernel no_strerror 42 True m = ((OK (), sample_report 1), m')"
proof (rule sample_make_report)
  have "proc_path 42 ''exe'' \<noteq> fd_link 42 3" by code_simp
  then show "sample_but_fds closed_kernel"
    by (auto simp: sample_but_fds_def closed_kernel_def split: syscall.splits)
  fix rep :: check_report and m :: "unit machine"
  have "sys_names closed_kernel (ListDir path) m0 = (Inr [''3''], m0\<lparr>log := log m0 @ [(ListDir path, RNames [''3''])]\<rparr>)"
    for path m0
    by (simp add: sys_names_def call_def closed_kernel_def)
  moreover have "\<exists>path m2. classify_fd closed_kernel 42 (atoi ''3'') m1 = ((FD_UNREADABLE, path), m2)" for m1
    using closed_unreadable by (metis prod.collapse unreadable_fd_def)
  moreover have "isdigit (char_at ''3'' 0)" by code_simp
  ultimately obtain path m1 m2 where "sys_names closed_kernel (ListDir (proc_path 42 ''fd'')) m = (Inr [''3''], m1)"
    "classify_fd closed_kernel 42 (atoi ''3'') m1 = ((FD_UNREADABLE, path), m2)" "isdigit (char_at ''3'' 0)"
    by metis
  then show "\<exists>m'. scan_fds closed_kernel 42 rep m = (rep\<lparr>cr_open_fds := cr_open_fds rep + 1\<rparr>, m')"
    by (simp add: scan_fds_def)
qed

lemma closed_status_laws: "procfs_status_laws closed_kernel"
proof -
  have "closed_kernel (OpenText path) w = sample_kernel (OpenText path) w" for path w
    by (simp add: closed_kernel_def sample_kernel_def)
  then show ?thesis using sample_status_laws by (simp add: procfs_status_laws_def)
qed

lemma closed_lists: "fst (closed_kernel (ListDir path) w) = RNames [''3'']"
  by (simp add: closed_kernel_def)

section \<open>A process that is gone\<close>

text \<open>The process ended after its status was opened: the kernel refuses every other file.\<close>

definition gone_kernel :: "unit kernel" where
  "gone_kernel c w =
     (case c of
        OpenText path \<Rightarrow> ((if path = proc_path 42 ''cmdline'' then RErr (EOTHER 2) else sample_reply c), w)
      | _ \<Rightarrow> (sample_reply c, w))"

lemma gone_no_arguments: "no_arguments gone_kernel 42"
  by (simp add: no_arguments_def gone_kernel_def)

lemma gone_status: "\<exists>s err. fst (gone_kernel (OpenText (proc_path 42 ''status'')) w) = RText s err"
proof -
  have "proc_path 42 ''status'' \<noteq> proc_path 42 ''cmdline''" by code_simp
  then have "fst (gone_kernel (OpenText (proc_path 42 ''status'')) w) = RText (sample_text (proc_path 42 ''status'')) False"
    by (simp add: gone_kernel_def sample_reply_def)
  then show ?thesis by blast
qed

section \<open>The command line of a check\<close>

definition sample_check_config :: ksnap_config where
  "sample_check_config = \<lparr>cfg_mode = Some ''CHECK'', cfg_pid = 42, cfg_file_name = None, cfg_output_dir = None,
     cfg_kill_after_dump = False\<rparr>"

lemma sample_check_args: "parse_arg False [''-m'', ''Check'', ''-p42''] = Parsed KSNAP_OK sample_check_config"
  unfolding sample_check_config_def by code_simp

lemma closed_sweep_start:
  assumes "check_all closed_kernel no_strerror start = (status, m')"
  shows "\<exists>evs. log m' = (ListDir ''/proc'', RNames [''3'']) # (Getpid, RInt 0) # evs"
proof -
  let ?m2 = "\<lparr>world = (), log = [(ListDir ''/proc'', RNames [''3'']), (Getpid, RInt 0)]\<rparr>"
  have "m' = check_entries closed_kernel no_strerror 0 [''3''] ?m2"
    using assms by (simp add: check_all_def sys_defs call_def closed_kernel_def sample_reply_def start_def
        del: check_entries.simps)
  then show ?thesis using check_entries_log[of closed_kernel no_strerror 0 "[''3'']" ?m2] by auto
qed

section \<open>A disk\<close>

text \<open>The kernel of \<open>Sample\<close> with a stream that knows its position.\<close>

definition disk_kernel :: "nat kernel" where
  "disk_kernel c position =
     (case c of
        FopenWrite path \<Rightarrow> (RInt 0, 0)
      | Fwrite items n \<Rightarrow> (RInt (int (length items div n)), position + length items)
      | Ftell \<Rightarrow> (RInt (int position), position)
      | _ \<Rightarrow> (sample_reply c, position))"

lemma disk_kernel_works: "disk_works disk_kernel id"
  by (auto simp: disk_works_def disk_kernel_def sample_reply_def)

lemma disk_kernel_still: "holds_still disk_kernel pid"
  by (auto simp: holds_still_def sits_still_def describes_process_def disk_kernel_def split: syscall.splits)

lemma disk_kernel_laws: "procfs_fd_laws disk_kernel pid forbidden"
proof -
  have "classify_fd disk_kernel pid fd m \<noteq> ((FD_DUMP, path), m')" for fd m path m'
    by (auto simp: classify_fd_def sys_stat_def call_def disk_kernel_def sample_reply_def
        split: if_splits sum.splits prod.splits)
  then show ?thesis
    by (auto simp: procfs_fd_laws_def disk_kernel_def sample_reply_def listed_fds_def)
qed

lemma disk_kernel_beyond: "beyond_check disk_kernel 42"
proof -
  have "kernel_lines [sample_line] = []" "dumped_lines [sample_line] = [sample_line]"
    by (simp_all add: kernel_lines_def dumped_lines_def sample_classify)
  moreover have "zeros n \<noteq> []" if "0 < n" for n using that by (simp add: zeros_def)
  ultimately have "readable_lines disk_kernel 42"
    by (auto simp: readable_lines_def disk_kernel_def sample_reply_def sample_text_proc sample_maps_lines
        modest_lines_def pool_room_def sample_line_def readable_range_def)
  moreover have "grants_memory disk_kernel" "readable_fds disk_kernel 42" "shows_state disk_kernel 42"
    by (simp_all add: grants_memory_def readable_fds_def shows_state_def disk_kernel_def sample_reply_def
        KSNAP_XSTATE_MAX_SIZE_def KSNAP_XSTATE_MIN_SIZE_def)
  ultimately show ?thesis by (simp add: beyond_check_def disk_kernel_laws)
qed

lemma disk_kernel_checked: "\<exists>m'. make_report disk_kernel no_strerror 42 True m = ((OK (), sample_report 0), m')"
  by (rule sample_make_report)
    (auto simp: sample_but_fds_def scan_fds_def disk_kernel_def sys_defs call_def sample_reply_def split: syscall.splits)

end
