(* ===== verification/Spec2Isabelle.thy ===== *)
theory Spec2Isabelle
  imports ArgParser SampleRestore SampleCheck
begin

text \<open>
  Ksnap-engine, a checkpoint/restore engine for Linux on x86-64. Its \<open>main\<close> parses a command line
  and runs one of three modes: \<open>Dump\<close> stops a process with \<open>ptrace\<close> and writes it to a snapshot
  file, \<open>Restore\<close> builds a process from such a file, \<open>Check\<close> says beforehand whether a process can be
  dumped. \<open>Dump\<close> and \<open>Check\<close> share the classification of mappings and descriptors, \<open>Dump\<close> and \<open>Restore\<close>
  the file format.

  The theories, in the order of their imports:

  \<^item> \<open>Prelude\<close>, \<open>CLib\<close>: types and generic lemmas; the functions of the C library the engine uses
    on text (\<open>sscanf\<close>, \<open>strtoul\<close>, \<open>atoi\<close>, \<open>fgets\<close>, number formatting), on character lists.
  \<^item> \<open>Sys\<close>: the boundary to the machine. Every system call and stream operation is a value of
    \<open>syscall\<close>; the kernel is a parameter that answers a call from a state of its own, and a run
    keeps the log of all calls with their answers. The locale \<open>frame\<close> is the interface for
    what calls of one kind leave alone, \<open>inspection\<close> the instance for calls that only look.
  \<^item> \<open>Config\<close>, \<open>ArgParser\<close>: \<open>include/config.h\<close> and \<open>include/parser.h\<close>; an accepted command line
    and the path of its snapshot.
  \<^item> \<open>Maps\<close>, \<open>Fds\<close>: \<open>src/maps.c\<close> and \<open>src/fds.c\<close>, the lines of \<open>/proc/<pid>/maps\<close> and the entries of
    \<open>/proc/<pid>/fd\<close>.
  \<^item> \<open>DumpFormat\<close>: \<open>include/dump_format.h\<close>, each structure with its encoding; the locales
    \<open>struct_codec\<close> and \<open>field_struct\<close> are the contract of an encoding.
  \<^item> \<open>PathPool\<close>, \<open>Collect\<close>, \<open>Writer\<close>, \<open>Dump\<close>: \<open>src/dumper.c\<close>. The locale \<open>path_store\<close> is what
    the collection relies on of the pool of paths.
  \<^item> \<open>Reader\<close>: the half of \<open>src/restorer.c\<close> that reads and validates a snapshot.
  \<^item> \<open>Inject\<close>, \<open>Reopen\<close>, \<open>Restore\<close>: the other half. A system call run inside the stopped child, the
    child of the fork up to its \<open>exec\<close>, and the parent that fills it.
  \<^item> \<open>Layout\<close>, \<open>Written\<close>, \<open>Checkpoint\<close>: the file between its writer and its reader, what a run of
    the writer leaves behind, and the properties of \<open>dump\<close> as a whole.
  \<^item> \<open>Child\<close>, \<open>Restored\<close>, \<open>KernelMaps\<close>, \<open>Reopened\<close>, \<open>Resume\<close>: what the calls of the restorer make
    of the child: its memory, protections, registers, kernel mappings and descriptors, and the
    composition of a dump with a restore. The locale \<open>restoration\<close> collects what the steps of a
    restore keep.
  \<^item> \<open>Json\<close>, \<open>Checker\<close>: \<open>src/checker.c\<close>, and a reader for the JSON it prints.
  \<^item> \<open>Checked\<close>, \<open>CheckInput\<close>, \<open>CheckDump\<close>: the form of the reports and the calls that are made; how
    the files of \<open>/proc\<close> are read; the agreement of a report with the snapshot of the same process.
  \<^item> \<open>Granted\<close>: no spurious errors. What a dump needs from the kernel, call by call, and that it
    then succeeds on a process whose check was passed.
  \<^item> \<open>Protocol\<close>: the states of a process under a tracer, as a step relation; runs of \<open>dump\<close> and
    \<open>check\<close> are runs of it.
  \<^item> \<open>Program\<close>, \<open>Engine\<close>: \<open>src/main.c\<close>, its exit statuses, and the program as a whole.
  \<^item> \<open>Sample\<close>, \<open>SampleRestore\<close>, \<open>SampleCheck\<close>: concrete kernels with one small process, on which the
    hypotheses of the theorems below hold.

  A function of the code that may not return has the result type \<open>option\<close>, with \<open>None\<close> for a run
  without end; nothing uses fuel but the JSON reader, whose bound on the nesting is the length of
  the text. \<open>ERROR\<close> and \<open>OK\<close> are the constructors of \<open>rc\<close>, \<open>OK\<close> with what the function stores
  through its out parameters. Integers keep their width, except that the \<open>int\<close> counters of a
  report, which count entries of a directory or words of a file, are unbounded.

  What the kernel does is never defined, only assumed by name where a property needs it: memory of a
  stopped process stays as it is (\<open>frozen_memory\<close>), the texts of \<open>/proc\<close> have their documented form
  (\<open>procfs_maps_laws\<close>, \<open>procfs_fd_laws\<close>, \<open>procfs_status_laws\<close>), a file that was written is served back
  (\<open>serves_file\<close>, \<open>delivers\<close>), \<open>ptrace\<close> and the injected calls do to the child what their manual pages
  say (\<open>traced_child\<close>, \<open>stops_at_exec\<close>), descriptors behave as in POSIX (\<open>posix_descriptors\<close>), a process
  shows the same of itself twice (\<open>sits_still\<close>, \<open>holds_still\<close>), and, for the one property that says a dump
  succeeds, nothing under it fails (\<open>beyond_check\<close>, \<open>disk_works\<close>). The kernels of the \<open>Sample\<close>
  theories satisfy them.

  Not modelled: the messages on standard error, the usage text and the progress line of \<open>-k\<close>, which
  are output for a person; a failure of \<open>printf\<close>, whose result the code ignores; the web panel,
  which is written in Python and JavaScript; the test programs under \<open>test_programs\<close>, which are
  targets of the shell tests and no part of the engine.
\<close>

section \<open>Checkpoint and restore\<close>



section \<open>Checkpointing\<close>

text \<open>C4: a successful dump can be restored. The file that \<open>dump\<close> leaves behind is accepted by
  \<open>read_snapshot_metadata\<close>, and what is read back describes the process as it was when it stopped:
  one entry for each mapping of \<open>/proc/<pid>/maps\<close> that is dumped, in that order, with its address,
  size and protection, and at its \<open>data_offset\<close> the memory of the mapping at the moment
  \<open>waitpid\<close> reported the stop, together with the registers and the extended state that were read
  then. Assumed of the kernel: looking at a stopped process does not change
  its memory, reads of \<open>/proc/<pid>/mem\<close> deliver it, and the laws of \<open>/proc/<pid>/fd\<close>; and that
  the file stays below \<open>2 ^ 63\<close> bytes, the largest offset of a file.\<close>

theorem snapshot_round_trip:
  fixes m :: "'w machine"
  assumes "dump k config m = Some (OK (), m')"
    and "frozen_memory k tmem"
    and "procfs_fd_laws k (cfg_pid config) KSNAP_FD_FORBIDDEN_FLAGS"
    and "length (written m') < 2 ^ 63" and "serves_file k' (written m')"
  shows "\<exists>(m0 :: 'w machine) s i w status md mr' content err.
    log m0 = log m @ [(Seize (cfg_pid config), s), (Interrupt (cfg_pid config), i), (Waitpid (cfg_pid config), w)] \<and>
    as_int w = Inr status \<and> WIFSTOPPED status \<and>
    read_snapshot_metadata k' (written m') mr = (OK md, mr') \<and>
    answered k (OpenText (proc_path (cfg_pid config) ''maps'')) (RText content err) m' \<and>
    (GetRegs (cfg_pid config), RRegs (dh_regs (sm_header md))) \<in> set (log m') \<and>
    logged_xstate (cfg_pid config) (sm_xstate md) (log m') \<and>
    restorable (written m') (tmem (world m0)) (dumped_lines (maps_lines content)) md"
  by (rule dump_restorable[OF assms])

theorem snapshot_round_trip_witness:
  "\<exists>m' md mr'. dump sample_kernel sample_config start = Some (OK (), m') \<and>
     read_snapshot_metadata sample_kernel (written m') start = (OK md, mr')"
proof -
  obtain m' where d: "dump sample_kernel sample_config start = Some (OK (), m')" "length (written m') = 9312"
    using sample_dump length_sample_file by metis
  then have "length (written m') < 2 ^ 63" by simp
  from snapshot_round_trip[OF d(1) sample_frozen sample_laws this sample_serves[OF d(2)], of start] d(1)
  show ?thesis by blast
qed



text \<open>C6: \<open>dump\<close> returns. Its one loop without a bound, the retries of interrupted reads, ends
  because only finitely many reads are interrupted; the doubling of the buffers always reaches what
  is needed.\<close>

theorem dump_returns:
  assumes "interrupts_bounded k fuel"
  shows "\<exists>r m'. dump k config m = Some (r, m')"
  by (rule dump_total[OF assms])

theorem dump_returns_witness: "\<exists>r m'. dump sample_kernel sample_config start = Some (r, m')"
  by (rule dump_returns[OF sample_interrupts])



section \<open>The restored process\<close>







text \<open>C9: the protections are given in an order that keeps the injection site executable:
  \<open>restore_protections\<close> injects one \<open>mprotect\<close> for each mapping whose recorded protection is not
  already in place, and the mapping that holds the site comes last.\<close>

theorem protections_site_last:
  assumes "address_space vmas"
  shows "restore_protections k pid vmas m =
      (case sys_regs k (GetRegs pid) m of
         (Inl e, m') \<Rightarrow> (ERROR, m')
       | (Inr regs, m') \<Rightarrow>
           inject_all k pid (map mprotect_injection (protection_order (reg_rip regs) vmas)) m') \<and>
    set (protection_order rip vmas) = {v \<in> set vmas. vma_prot v \<noteq> PROT_ALL} \<and>
    (\<forall>v \<in> set (butlast (protection_order rip vmas)). \<not> covers v rip)"
  using restore_protections_injects protection_order_props[OF assms] by auto

theorem protections_site_last_witness:
  "set (protection_order 0x1800 code_and_data) = set code_and_data \<and>
   \<not> list_ex (\<lambda>v. covers v 0x1800) (butlast (protection_order 0x1800 code_and_data))"
proof -
  have "{v \<in> set code_and_data. vma_prot v \<noteq> PROT_ALL} = set code_and_data"
    using code_and_data_set(2) by blast
  then show ?thesis
    using protections_site_last[OF code_and_data_space, of child_kernel 43 restore_start "0x1800"]
    by (simp add: list_ex_iff)
qed

text \<open>C8: the descriptors of the program that is executed: standard input, output and error are the
  engine's, every other number is free unless the snapshot has it, an entry of the snapshot has
  the file of its path, reopened with its flags and wound to its position, a copy shares the open
  file of its original, and two entries that are not copies do not share one.\<close>

theorem descriptors_reopened:
  assumes "open_snapshot_fds k fds pool m = (OK (), m')" and "posix_descriptors k tab files"
    and "fd_table_valid pool fds"
  shows "fds_reopened pool fds (tab (world m)) (tab (world m')) (files (world m'))"
  by (rule open_snapshot_fds_reopens[OF assms])

theorem descriptors_reopened_witness:
  "\<exists>m'. open_snapshot_fds fd_kernel sample_fds (''/a'' @ [NUL]) fd_start = (OK (), m') \<and>
     fds_reopened (''/a'' @ [NUL]) sample_fds (fs_tab (world fd_start)) (fs_tab (world m')) (fs_files (world m'))"
  using sample_fds_open descriptors_reopened[OF _ fd_kernel_posix sample_fds_valid] by blast



text \<open>C11: but a kernel mapping that already is where the snapshot wants it makes the restore fail:
  its range overlaps its own target, so the check refuses it, and the branch for a mapping that
  is in place is never taken.\<close>

theorem kernel_map_in_place_is_refused:
  assumes "child_has_maps k pid header place" and "i < unat (dh_kernel_map_count header)"
    and "place i = (km_start_address (dh_kernel_maps header ! i), km_size (dh_kernel_maps header ! i))"
    and "km_start_address (dh_kernel_maps header ! i) <
      km_start_address (dh_kernel_maps header ! i) + km_size (dh_kernel_maps header ! i)"
  shows "fst (restore_kernel_maps k pid header m) = ERROR"
  by (rule restore_kernel_maps_in_place[OF assms])

theorem kernel_map_in_place_is_refused_witness:
  "fst (restore_kernel_maps child_kernel 43 (vdso_header 0x7000) restore_start) = ERROR"
  by (rule kernel_map_in_place_is_refused[OF vdso_child_has, of 0])
    (simp_all add: vdso_header_map vdso_map_def)

section \<open>The restore trusts nothing it has not checked\<close>



text \<open>C19: the checks of the table of descriptors accept exactly the valid tables, with the
  comparisons that subtract unsigned numbers and the binary search over the entries in front.\<close>

theorem fd_table_checks_are_exact:
  assumes "unat path_pool_size = length pool"
  shows "check_fd_table pool path_pool_size [] fds \<longleftrightarrow> fd_table_valid pool fds"
  using check_fd_table_iff[OF assms, of "[]" fds] by simp

theorem fd_table_checks_are_exact_witness:
  "fd_table_valid (''/a'' @ [NUL])
     [\<lparr>fdd_fd = 3, fdd_dup_of = -1, fdd_flags = 0, fdd_path_offset = 0, fdd_path_len = 2,
       fdd_reserved = 0, fdd_position = 7\<rparr>,
      \<lparr>fdd_fd = 5, fdd_dup_of = 3, fdd_flags = 0, fdd_path_offset = 0, fdd_path_len = 2,
       fdd_reserved = 0, fdd_position = 7\<rparr>]"
  by (subst fd_table_checks_are_exact[symmetric, where path_pool_size = 3]) (simp, code_simp)

text \<open>C20: the bounds of the file are compared without wrapping around for the table of
  descriptors and the pool, but not for the payloads: \<open>data_offset + size\<close> is computed modulo
  \<open>2 ^ 64\<close>, and an entry whose payload lies outside every file passes.\<close>

theorem payload_bound_wraps:
  "(fits_in_file offset sz file_size \<longleftrightarrow> unat offset + unat sz \<le> unat file_size) \<and>
   check_vma 4096 \<lparr>vma_start_address = 0x1000, vma_size = - 0x1000, vma_file_offset = 0,
     vma_data_offset = 0x2000, vma_prot = 3, vma_map_flags = 2, vma_path_offset = 0, vma_path_len = 0\<rparr> \<and>
   \<not> fits_in_file 0x2000 (- 0x1000) 4096"
proof (intro conjI)
  show "fits_in_file offset sz file_size \<longleftrightarrow> unat offset + unat sz \<le> unat file_size"
    by (rule fits_in_file_nat)
qed code_simp+

section \<open>Collecting\<close>

text \<open>C21: the table of mappings is the list of the dumped lines of \<open>/proc/<pid>/maps\<close>: one entry
  for each, in order, with its address, size and protection and its path in the pool; the kernel
  mappings are kept apart, at most as many as the header has room for.\<close>

theorem collected_mappings:
  assumes "collect_vmas k pid pool m = Some (OK (vmas, pool', kernel_maps), m')" "pool_wf pool"
  shows "\<exists>content err m1. sys_text k (OpenText (proc_path pid ''maps'')) m = (Inr (content, err), m1) \<and>
    list_all2 (vma_describes pool') (dumped_lines (maps_lines content)) vmas \<and> vmas \<noteq> [] \<and>
    kernel_maps = map kernel_map_of_line (kernel_lines (maps_lines content)) \<and>
    length kernel_maps \<le> KSNAP_MAX_KERNEL_MAPS \<and> pool_wf pool'"
  by (rule collect_vmas_spec[OF assms]) blast

theorem collected_mappings_witness:
  "\<exists>content err m1 :: unit machine.
     sys_text sample_kernel (OpenText (proc_path 42 ''maps'')) start = (Inr (content, err), m1) \<and>
     list_all2 (vma_describes empty_pool) (dumped_lines (maps_lines content)) [sample_vma]"
proof -
  obtain m' where "collect_vmas sample_kernel 42 empty_pool start = Some (OK ([sample_vma], empty_pool, []), m')"
    using sample_collect_vmas by blast
  from collected_mappings[OF this empty_pool_wf] show ?thesis by blast
qed

text \<open>C22: the table of descriptors is one the restorer accepts: sorted by number without a
  duplicate, none of them stdio, each copy after its original, every path terminated in the pool,
  no flag the restorer forbids; it holds fewer than \<open>2 ^ 32\<close> entries, so its count is not cut
  off.\<close>

theorem collected_descriptors:
  assumes "collect_fds k pid pool m = Some (OK (fds, pool'), m')" "pool_wf pool"
    and "procfs_fd_laws k pid KSNAP_FD_FORBIDDEN_FLAGS"
  shows "fd_table_valid (pool_data pool') fds \<and> length fds < 2 ^ 32 \<and> pool_wf pool' \<and> pool_extends pool pool'"
  using collect_fds_spec[OF assms] by (simp add: collected_table_valid)

theorem collected_descriptors_witness:
  "\<exists>m'. collect_fds sample_kernel 42 empty_pool start = Some (OK ([], empty_pool), m') \<and>
     fd_table_valid (pool_data empty_pool) []"
  using sample_collect_fds collected_descriptors[OF _ empty_pool_wf sample_laws] by blast

text \<open>C23: appending to the pool of paths always returns, and when it succeeds the path and its
  terminator lie at the offset returned, every path stored before is still found at its own offset,
  and no size has wrapped around.\<close>

theorem pool_append_stores:
  assumes "pool_wf pool" "storable_path path"
  shows "\<exists>r m'. pool_append k pool path m = Some (r, m') \<and>
    (\<forall>pool' off. r = OK (pool', off) \<longrightarrow> pool_wf pool' \<and> pool_path pool' off = path \<and>
       (\<forall>o' s. pool_holds pool o' s \<longrightarrow> pool_path pool' o' = s))"
  using pool_append_total[OF assms, of k m] pool_store.append_holds[OF assms]
    pool_store.append_keeps[OF assms] pool_store.append_wf[OF assms] pool_holds_path
  by metis

theorem pool_append_stores_witness:
  "\<exists>r m'. pool_append sample_kernel empty_pool ''/a'' start = Some (r, m')"
  using pool_append_stores[of empty_pool "''/a''" sample_kernel start]
  by (auto simp: storable_path_def PATH_MAX_def)

text \<open>C26: the file \<open>fdinfo\<close> of a descriptor is read as the kernel prints it: the offset in decimal, the
  flags in octal, whatever other lines follow.\<close>

theorem fdinfo_is_read:
  assumes "printed_number 10 64 ds" and "printed_number 8 32 fs" and "isspace b" and "b \<noteq> CHR 0x0A" and "b \<noteq> NUL"
    and "list_all other_line rest"
  shows "parse_fdinfo ((''pos:'' @ b # ds) @ CHR 0x0A # (''flags:'' @ b # fs) @ CHR 0x0A #
      concat (List.map (\<lambda>l. l @ [CHR 0x0A]) rest)) =
    OK (word_of_nat (digits_value 10 ds), word_of_nat (digits_value 8 fs))"
  by (rule parse_fdinfo_text[OF assms])

theorem fdinfo_is_read_witness:
  "parse_fdinfo (''pos:'' @ CHR 0x09 # ''1234'' @ CHR 0x0A # ''flags:'' @ CHR 0x09 # ''02100002'' @ CHR 0x0A #
     ''mnt_id: 31'' @ [CHR 0x0A]) = OK (1234, 557058)"
proof -
  have "printed_number 10 64 ''1234''" "printed_number 8 32 ''02100002''" "isspace (CHR 0x09)" "CHR 0x09 \<noteq> CHR 0x0A"
    "CHR 0x09 \<noteq> NUL" "list_all other_line [''mnt_id: 31'']" by code_simp+
  note read = fdinfo_is_read[OF this]
  have "digits_value 10 ''1234'' = 1234" "digits_value 8 ''02100002'' = 557058" by code_simp+
  with read show ?thesis by simp
qed

section \<open>The file format\<close>



text \<open>C25: a line of \<open>/proc/<pid>/maps\<close> as the kernel prints it is parsed into its fields; a line
  whose range is empty is refused. The path is the first word after the inode, so a path with a
  blank is cut off there.\<close>

theorem maps_line_is_parsed:
  assumes "list_all (base_digit 16) (lo @ hi @ offset)" "lo \<noteq> []" "hi \<noteq> []" "offset \<noteq> []"
    and "digits_value 16 lo < 2 ^ 64" "digits_value 16 hi < 2 ^ 64" "digits_value 16 offset < 2 ^ 64"
    and "length privileges = 4" "list_all (\<lambda>c. \<not> isspace c) privileges"
    and "device \<noteq> []" "list_all (\<lambda>c. \<not> isspace c) device"
    and "inode \<noteq> []" "list_all (\<lambda>c. \<not> isspace c) inode" and "isspace y"
    and "NUL \<notin> set (lo @ hi @ offset @ privileges @ device @ inode @ y # r)"
  shows "parse_maps_line (lo @ ''-'' @ hi @ '' '' @ privileges @ '' '' @ offset @ '' '' @
            device @ '' '' @ inode @ y # r) =
    (if digits_value 16 hi \<le> digits_value 16 lo then None
     else Some \<lparr>ml_start = word_of_nat (digits_value 16 lo),
       ml_end = word_of_nat (digits_value 16 hi),
       ml_file_offset = word_of_nat (digits_value 16 offset), ml_privileges = privileges,
       ml_path = (case scan_word (y # r) of None \<Rightarrow> [] | Some (w, _) \<Rightarrow> take (PATH_MAX - 1) w)\<rparr>)"
  by (rule parse_maps_line_fields[OF assms])

theorem maps_line_is_parsed_witness:
  "parse_maps_line (''1000-2000 r-xp 0 8:1 7 /tmp/my file'' @ [CHR 0x0A]) =
     Some \<lparr>ml_start = 0x1000, ml_end = 0x2000, ml_file_offset = 0, ml_privileges = ''r-xp'',
       ml_path = ''/tmp/my''\<rparr>"
proof -
  have "parse_maps_line (''1000'' @ ''-'' @ ''2000'' @ '' '' @ ''r-xp'' @ '' '' @ ''0'' @ '' '' @ ''8:1'' @
      '' '' @ ''7'' @ CHR '' '' # ''/tmp/my file'' @ [CHR 0x0A]) = Some \<lparr>ml_start = 0x1000, ml_end = 0x2000,
       ml_file_offset = 0, ml_privileges = ''r-xp'', ml_path = ''/tmp/my''\<rparr>"
    by (rule trans[OF maps_line_is_parsed]) code_simp+
  then show ?thesis by simp
qed

section \<open>Checking\<close>

text \<open>C13: \<open>check\<close> foretells \<open>dump\<close>. The two walk over the process on their own; when the process
  sits still, the report of a process that was found dumpable counts what the snapshot of it holds:
  the mappings that are dumped, the kernel mappings and the descriptors are those of the header, and
  \<open>snapshot_bytes\<close> is exactly what follows the metadata in the file.\<close>

theorem check_foretells_dump:
  assumes "dump k config m = Some (OK (), m')"
    and "make_report k strerror (cfg_pid config) probe mc = ((OK (), rep), mc')"
    and "sits_still k (cfg_pid config)" and "frozen_memory k tmem"
    and "procfs_fd_laws k (cfg_pid config) KSNAP_FD_FORBIDDEN_FLAGS" and "length (written m') < 2 ^ 63"
  shows "let header = snapshot_header (written m') in
    cr_dumpable_vmas rep = dh_vma_count header \<and> cr_kernel_maps rep = dh_kernel_map_count header \<and>
    cr_dumpable_fds rep = uint (dh_fd_count header) \<and>
    unat (dh_data_offset header) + unat (cr_snapshot_bytes rep) = length (written m')"
  using dump_as_foretold[OF assms(1,4,5,6,3,2)] by (simp add: foretells_def)

theorem check_foretells_dump_witness:
  "\<exists>m' mc'. dump sample_kernel sample_config start = Some (OK (), m') \<and>
     make_report sample_kernel no_strerror 42 True start = ((OK (), sample_report 0), mc') \<and>
     unat (dh_data_offset (snapshot_header (written m'))) + 4096 = length (written m')"
proof -
  obtain m' where d: "dump sample_kernel sample_config start = Some (OK (), m')" "written m' = sample_file"
    using sample_dump by blast
  obtain mc' where c: "make_report sample_kernel no_strerror 42 True start = ((OK (), sample_report 0), mc')"
    using sample_checked by blast
  have len: "length (written m') < 2 ^ 63" using d(2) length_sample_file by simp
  have pid: "cfg_pid sample_config = 42" by (simp add: sample_config_def)
  from check_foretells_dump[OF d(1), unfolded pid, OF c sample_still sample_frozen sample_laws len] d(1) c
  show ?thesis by (simp add: Let_def sample_report_def)
qed

text \<open>C12: the verdict of a check is kept. When a process was probed and found dumpable, a dump of it
  succeeds: no check of the dump can refuse what the check has let through, and nothing in the dump
  fails by itself. Assumed is that the process stays as it was and, beyond what a check looks at,
  that the engine gets memory, every descriptor can be looked at, the registers and the memory
  behind no device are delivered, the mappings are not out of proportion (\<open>beyond_check\<close>), and the
  stream of the snapshot takes what it is given (\<open>disk_works\<close>).\<close>

theorem checked_process_is_dumped:
  assumes "make_report k strerror (cfg_pid config) True mc = ((OK (), rep), mc')"
    and "holds_still k (cfg_pid config)" and "beyond_check k (cfg_pid config)" and "disk_works k pos"
    and "build_snapshot_path config = OK path"
    and "cfg_kill_after_dump config \<Longrightarrow> \<forall>w. as_unit (fst (k (Kill (cfg_pid config)) w)) = Inr ()"
  shows "\<exists>m'. dump k config m = Some (OK (), m')"
  by (rule verdict_granted[OF assms])

theorem checked_process_is_dumped_witness:
  "\<exists>m'. dump disk_kernel sample_config \<lparr>world = 0, log = []\<rparr> = Some (OK (), m')"
proof -
  obtain mc' where c: "make_report disk_kernel no_strerror 42 True \<lparr>world = 0, log = []\<rparr> = ((OK (), sample_report 0), mc')"
    using disk_kernel_checked by blast
  have pid: "cfg_pid sample_config = 42" and live: "\<not> cfg_kill_after_dump sample_config" by (simp_all add: sample_config_def)
  have path: "build_snapshot_path sample_config = OK ''/tmp/s''" by code_simp
  from checked_process_is_dumped[where config = sample_config, unfolded pid,
      OF c disk_kernel_still disk_kernel_beyond disk_kernel_works path] live
  show ?thesis by blast
qed

text \<open>C14: what a verdict means. A process that is reported dumpable has one thread, is not dead, has
  no tracer and has arguments; its executable was found, is not deleted and can be run; its mappings
  were read to the end, at least one of them is dumped, none is shared or of a device, the kernel
  mappings fit the header, and the counts are those of the lines that were read. When it was
  probed, it did stop for the engine.\<close>

theorem dumpable_means:
  fixes m :: "'w machine"
  assumes "make_report k strerror pid probe m = ((OK (), rep), m')"
  shows "cr_threads rep \<le> 1 \<and> cr_state rep \<notin> {CHR ''Z'', CHR ''X''} \<and> cr_tracer_pid rep = 0 \<and> cr_argc rep \<noteq> 0 \<and>
    cr_shared_vmas rep = 0 \<and> cr_device_vmas rep = 0 \<and> unat (cr_kernel_maps rep) \<le> KSNAP_MAX_KERNEL_MAPS \<and>
    cr_dumpable_vmas rep \<noteq> 0 \<and> (probe \<longrightarrow> cr_ptrace_probed rep \<and> cr_ptrace_ok rep) \<and>
    (\<exists>path content. \<exists>m1 m2 m3 m4 :: 'w machine.
       sys_readlink k (proc_path pid ''exe'') (PATH_MAX - 1) m1 = (Inr path, m2) \<and> path \<noteq> [] \<and>
       \<not> has_deleted_suffix path \<and> sys_unit k (Access path) m2 = (Inr (), m3) \<and>
       sys_text k (OpenText (proc_path pid ''maps'')) m3 = (Inr (content, False), m4) \<and>
       map_facts rep = foldl count_line no_map_facts (maps_lines content))"
  by (rule make_report_dumpable[OF assms]) blast

theorem dumpable_means_witness:
  "\<exists>m'. make_report sample_kernel no_strerror 42 True start = ((OK (), sample_report 0), m') \<and>
     cr_ptrace_ok (sample_report 0)"
proof -
  obtain m' where c: "make_report sample_kernel no_strerror 42 True start = ((OK (), sample_report 0), m')"
    using sample_checked by blast
  from dumpable_means[OF c] c show ?thesis by simp
qed

text \<open>C15: \<open>check\<close> of one process only looks at it and, when it is asked to probe, seizes it and
  releases it again; then it prints one line, which reads back as a JSON object holding exactly
  the verdict, the reasons and the facts, and the exit status says the same as the verdict.
  Assumed of the kernel: the \<open>State\<close> of \<open>/proc/<pid>/status\<close> is a letter.\<close>

theorem check_reports_one_line:
  assumes "check_one k strerror pid probe m = (status, m')" and "procfs_status_laws k"
  shows "\<exists>rep looks evs a.
    log m' = log m @ looks @ evs @ [(Puts (print_report rep), a)] \<and> list_all (inspects \<circ> fst) looks \<and>
    (evs = [] \<or> probe \<and> probes pid evs) \<and> cr_pid rep = pid \<and>
    is_line (print_report rep) \<and> parse_json (print_report rep) = Some (json_of_report rep) \<and>
    status = (if cr_reasons rep = [] then KSNAP_CHECK_EXIT_DUMPABLE else KSNAP_CHECK_EXIT_BLOCKED)"
  by (rule check_one_log[OF assms(1)]) (use assms(2) print_report_line in blast)

theorem check_reports_one_line_witness:
  "\<exists>status m' rep looks evs a. check_one closed_kernel no_strerror 42 True start = (status, m') \<and>
     log m' = looks @ evs @ [(Puts (print_report rep), a)] \<and>
     parse_json (print_report rep) = Some (json_of_report rep)"
proof -
  obtain status m' where c: "check_one closed_kernel no_strerror 42 True start = (status, m')" by fastforce
  have "log start = []" by (simp add: start_def)
  with check_reports_one_line[OF c closed_status_laws] c show ?thesis by auto
qed

text \<open>C27: without \<open>-p\<close> every process of \<open>/proc\<close> but the engine itself gets one report, in the order
  of the directory, each a line of JSON that reads back, and no process is touched: after the
  directory is listed the engine only looks and prints.\<close>

theorem sweep_reports_each_process:
  assumes "check_all k strerror m = (status, m')" and "procfs_status_laws k"
  shows "(\<exists>a. log m' = log m @ [(ListDir ''/proc'', a)] \<and> status = KSNAP_CHECK_EXIT_ERROR) \<or>
    (\<exists>entries g evs reps.
       log m' = log m @ (ListDir ''/proc'', RNames entries) # (Getpid, g) # evs \<and> status = KSNAP_CHECK_EXIT_DUMPABLE \<and>
       list_all (\<lambda>ev. inspects (fst ev) \<or> prints (fst ev)) evs \<and> outputs evs = List.map print_report reps \<and>
       List.map cr_pid reps = sweep_pids (case as_int g of Inr pid \<Rightarrow> pid | Inl e \<Rightarrow> -1) entries \<and>
       list_all (\<lambda>rep. is_line (print_report rep) \<and> parse_json (print_report rep) = Some (json_of_report rep)) reps)"
  using assms(1)
proof (cases rule: check_all_log)
  case (swept entries g evs reps)
  then have "list_all (\<lambda>rep. is_line (print_report rep) \<and> parse_json (print_report rep) = Some (json_of_report rep)) reps"
    using assms(2) print_report_line by (simp add: list_all_iff)
  then show ?thesis using swept by blast
qed blast

theorem sweep_reports_each_process_witness:
  "\<exists>m' evs. check_all closed_kernel no_strerror start = (KSNAP_CHECK_EXIT_DUMPABLE, m') \<and>
     log m' = (ListDir ''/proc'', RNames [''3'']) # (Getpid, RInt 0) # evs \<and> length (outputs evs) = 1"
proof -
  obtain m' where c: "check_all closed_kernel no_strerror start = (KSNAP_CHECK_EXIT_DUMPABLE, m')"
    by (simp add: check_all_def sys_defs call_def closed_kernel_def sample_reply_def)
  have l: "\<exists>evs. log m' = (ListDir ''/proc'', RNames [''3'']) # (Getpid, RInt 0) # evs"
    using closed_sweep_start[OF c] .
  have pids: "sweep_pids 0 [''3''] = [3]" by code_simp
  from sweep_reports_each_process[OF c closed_status_laws] l
  obtain evs reps where run: "log m' = (ListDir ''/proc'', RNames [''3'']) # (Getpid, RInt 0) # evs"
    "outputs evs = List.map print_report reps" "List.map cr_pid reps = [3]"
    by (auto simp: start_def pids KSNAP_CHECK_EXIT_DUMPABLE_def KSNAP_CHECK_EXIT_ERROR_def)
  then have "length (outputs evs) = 1" by auto
  then show ?thesis using c run(1) by blast
qed

text \<open>C28: a descriptor whose file cannot be looked at is no reason for \<open>check\<close>, but it ends every
  dump: \<open>collect_fds\<close> gives up on it. The document of the check mode says that whatever is not a
  dumpable file is only missing in the restored process, not something the engine cannot do.\<close>

theorem unreadable_descriptor_ends_dump:
  assumes "\<And>w. fst (k (ListDir (proc_path (cfg_pid config) ''fd'')) w) = RNames entries"
    and "d_name \<in> set entries" and "unreadable_fd k (cfg_pid config) d_name"
  shows "dump k config m \<noteq> Some (OK (), m')"
  by (rule dump_unreadable[OF assms])

theorem unreadable_descriptor_ends_dump_witness:
  "\<exists>mc. make_report closed_kernel no_strerror 42 True start = ((OK (), sample_report 1), mc) \<and>
     (\<nexists>m'. dump closed_kernel sample_config start = Some (OK (), m'))"
proof -
  have pid: "cfg_pid sample_config = 42" by (simp add: sample_config_def)
  have "''3'' \<in> set [''3'']" by simp
  from unreadable_descriptor_ends_dump[where config = sample_config, unfolded pid, OF closed_lists this closed_unreadable]
  show ?thesis using closed_checked by blast
qed

text \<open>C29: every report is well formed: the codes are those of the contract, fewer than the eight that
  fit, so that none was dropped, the details and the two names fit their buffers, and the result
  says whether there is a reason.\<close>

theorem reports_are_well_formed:
  assumes "make_report k strerror pid probe m = ((r, rep), m')"
  shows "list_all (\<lambda>reason. rs_code reason \<in> set reason_codes \<and> length (rs_detail reason) < DETAIL_LEN) (cr_reasons rep) \<and>
    length (cr_reasons rep) < KSNAP_MAX_REASONS \<and>
    length (cr_comm rep) < COMM_LEN \<and> NUL \<notin> set (cr_comm rep) \<and>
    length (cr_exe_path rep) < PATH_MAX \<and> NUL \<notin> set (cr_exe_path rep) \<and>
    (r = OK () \<longleftrightarrow> cr_reasons rep = []) \<and> cr_pid rep = pid"
  using make_report_wf[OF assms] by (simp add: report_wf_def texts_ok_def list_all_iff reason_ok_def)

theorem reports_are_well_formed_witness:
  "\<exists>m'. make_report sample_kernel no_strerror 42 True start = ((OK (), sample_report 0), m') \<and>
     cr_reasons (sample_report 0) = []"
proof -
  obtain m' where c: "make_report sample_kernel no_strerror 42 True start = ((OK (), sample_report 0), m')"
    using sample_checked by blast
  from reports_are_well_formed[OF c] c show ?thesis by simp
qed

text \<open>C30: any text is printed as a JSON string that reads back as it was, up to its terminator, and is
  made of printable bytes; bytes outside of ASCII are printed as they are, so the line is only
  UTF-8 when the name of the process is.\<close>

theorem json_string_round_trip:
  "read_string (print_json_string v @ s) = Some (c_str v, s) \<and>
   list_all (\<lambda>c. 0x20 \<le> (of_char c :: nat)) (print_json_string v) \<and>
   filter (\<lambda>c. 0x80 \<le> (of_char c :: nat)) (print_json_string v) = filter (\<lambda>c. 0x80 \<le> (of_char c :: nat)) (c_str v)"
  using print_json_string_printable by (simp add: read_string_print print_json_string_high list_all_iff)



text \<open>C32: \<open>argc\<close> is the number of the arguments that are not empty; an empty argument is not counted,
  although the comment says that counting terminators counts arguments.\<close>

theorem argc_counts_nonempty:
  assumes "list_all (\<lambda>a. NUL \<notin> set a) args"
  shows "count_arguments (cmdline_of args) False 0 = length (filter (\<lambda>a. a \<noteq> []) args)"
  by (rule count_arguments_cmdline[OF assms])

theorem argc_counts_nonempty_witness: "count_arguments (cmdline_of [''sh'', [], ''-c'']) False 0 = 2"
proof -
  have "list_all (\<lambda>a. NUL \<notin> set a) [''sh'', [], ''-c'']" by simp
  from argc_counts_nonempty[OF this] show ?thesis by simp
qed

text \<open>C33: a process whose command line is empty or can no longer be opened is refused as a kernel
  thread; this includes one that has ended after its status was read, which the contract of the
  reports calls \<open>gone\<close>.\<close>

theorem no_command_line_is_kernel_thread:
  assumes "make_report k strerror pid probe m = ((r, rep), m')" and "no_arguments k pid"
    and "\<And>w. \<exists>s err. fst (k (OpenText (proc_path pid ''status'')) w) = RText s err"
  shows "r = ERROR \<and> ''kernel_thread'' \<in> rs_code ` set (cr_reasons rep)"
  by (rule no_arguments_kernel_thread[OF assms])

theorem no_command_line_is_kernel_thread_witness:
  "\<exists>rep m'. make_report gone_kernel no_strerror 42 True start = ((ERROR, rep), m') \<and>
     ''kernel_thread'' \<in> rs_code ` set (cr_reasons rep)"
proof -
  obtain r rep m' where c: "make_report gone_kernel no_strerror 42 True start = ((r, rep), m')" by (metis surj_pair)
  from no_command_line_is_kernel_thread[OF c gone_no_arguments gone_status] c show ?thesis by auto
qed

section \<open>The program\<close>

text \<open>C16: a run of the program is a run of the protocol of a tracer. From the command line to the exit,
  a dump or a check touches only the process it was given: it is interrupted, released or killed
  only while it is held, and it is not held any more when the program ends; only a successful dump
  with \<open>-k\<close> ends it, and then it is reaped.\<close>

theorem program_follows_tracer_protocol:
  assumes "main k strerror junk posix args m = Some (e, m')" and "parse_arg posix args = Parsed KSNAP_OK config"
    and "cfg_mode config \<noteq> Some ''RESTORE''"
  shows "\<exists>evs h. log m' = log m @ evs \<and> tracer_run (cfg_pid config) Free evs h \<and>
    (h = Free \<or> h = Reaped \<and> e = Exit 0 \<and> cfg_kill_after_dump config)"
  by (rule main_run[OF assms])

theorem program_follows_tracer_protocol_witness:
  "\<exists>e m' h. main sample_kernel no_strerror 0 False [''-m'', ''Check'', ''-p42''] start = Some (e, m') \<and>
     tracer_run 42 Free (log m') h \<and> h \<in> {Free, Reaped}"
proof -
  obtain e m' where c: "main sample_kernel no_strerror 0 False [''-m'', ''Check'', ''-p42''] start = Some (e, m')"
    using main_total[OF sample_interrupts] by blast
  have "Some ''CHECK'' \<noteq> Some ''RESTORE''" by simp
  with program_follows_tracer_protocol[OF c sample_check_args] show ?thesis
    using c by (auto simp: sample_check_config_def start_def)
qed





section \<open>The command line\<close>

text \<open>C36: a command line that is accepted names a mode, gives a process when it asks for a dump,
  asks for \<open>-k\<close> only with a dump, names a file that stays inside its directory, and its snapshot
  path fits \<open>PATH_MAX\<close>.\<close>

theorem accepted_command_line:
  assumes "parse_arg posix args = Parsed KSNAP_OK config"
  shows "valid_config config \<and>
    (\<exists>md. cfg_mode config = Some md \<and> md \<in> {''DUMP'', ''RESTORE'', ''CHECK''} \<and>
       (md = ''DUMP'' \<longrightarrow> 0 \<le> cfg_pid config) \<and> (cfg_kill_after_dump config \<longrightarrow> md = ''DUMP'')) \<and>
    (\<exists>path. build_snapshot_path config = OK path \<and> length path < PATH_MAX)"
  by (rule parse_arg_accepted[OF assms])

theorem accepted_command_line_witness:
  "valid_config \<lparr>cfg_mode = Some ''DUMP'', cfg_pid = 42, cfg_file_name = None, cfg_output_dir = None,
     cfg_kill_after_dump = True\<rparr>"
proof -
  have "parse_arg False [''-m'', ''Dump'', ''-p42'', ''-k''] = Parsed KSNAP_OK
    \<lparr>cfg_mode = Some ''DUMP'', cfg_pid = 42, cfg_file_name = None, cfg_output_dir = None,
     cfg_kill_after_dump = True\<rparr>" by code_simp
  from accepted_command_line[OF this] show ?thesis by simp
qed

end
